(* ===== verification/Prelude.thy ===== *)
theory Prelude
  imports Main "HOL-Library.Word" "HOL-Library.AList" "HOL-Library.Multiset" "HOL-Library.Sublist"
    "HOL-Library.Code_Target_Nat"
begin

text \<open>
  Shared vocabulary of the development: the Rust integer types as words, the errors and results
  of fallible functions, the effect of code that talks to the operating system (a computation on
  an abstract world that may fail and may diverge), total-correctness triples for such
  computations, and the contract of \<^verbatim>\<open>std::collections::HashMap\<close>.
\<close>

unbundle bit_operations_syntax

named_theorems runs_intros \<open>introduction rules for total-correctness triples\<close>
named_theorems cmd_simps \<open>unfolding equations of the effect combinators\<close>
named_theorems str_simps \<open>rewrite rules of the string operations\<close>

section \<open>Machine integers\<close>

type_synonym u8 = "8 word"
type_synonym u16 = "16 word"
type_synonym u32 = "32 word"
type_synonym u64 = "64 word"
type_synonym u128 = "128 word"

section \<open>Errors and results\<close>

text \<open>
  \<^verbatim>\<open>Box<dyn Error + Send + Sync>\<close>: a message built from a string, or an error of a library the
  code propagates with the question-mark operator.
\<close>

datatype error =
    Msg string
  | IoError string
  | Elapsed
  | ParseIntError
  | AddrParseError

type_synonym 'a result = "error + 'a"

definition ok_or :: "error \<Rightarrow> 'a option \<Rightarrow> 'a result" where
  "ok_or e x = (case x of None \<Rightarrow> Inl e | Some a \<Rightarrow> Inr a)"

lemma ok_or_simps [simp]:
  "ok_or e None = Inl e"
  "ok_or e (Some a) = Inr a"
  by (simp_all add: ok_or_def)

section \<open>Computations on the operating system's state\<close>

text \<open>
  An asynchronous function that returns \<^verbatim>\<open>Result<T, _>\<close> and talks to the operating system is a
  function of the world. \<^const>\<open>None\<close> is a computation that never returns.
\<close>

type_synonym ('w, 'a) cmd = "'w \<Rightarrow> ('a result \<times> 'w) option"

definition ret :: "'a \<Rightarrow> ('w, 'a) cmd" where
  "ret a w = Some (Inr a, w)"

definition fail :: "error \<Rightarrow> ('w, 'a) cmd" where
  "fail e w = Some (Inl e, w)"

definition lift_result :: "'a result \<Rightarrow> ('w, 'a) cmd" where
  "lift_result r w = Some (r, w)"

text \<open>\<^verbatim>\<open>m.await?\<close> followed by the rest of the block.\<close>

definition bindc :: "('w, 'a) cmd \<Rightarrow> ('a \<Rightarrow> ('w, 'b) cmd) \<Rightarrow> ('w, 'b) cmd" where
  "bindc m f w =
     (case m w of
        None \<Rightarrow> None
      | Some (Inl e, w') \<Rightarrow> Some (Inl e, w')
      | Some (Inr a, w') \<Rightarrow> f a w')"

text \<open>\<^verbatim>\<open>m.await\<close> without the question mark: the result itself is the value.\<close>

definition attempt :: "('w, 'a) cmd \<Rightarrow> ('w, 'a result) cmd" where
  "attempt m w = (case m w of None \<Rightarrow> None | Some (r, w') \<Rightarrow> Some (Inr r, w'))"

text \<open>A sequence of \<^verbatim>\<open>?\<close>-statements: the first error ends it.\<close>

fun seqc :: "('w, unit) cmd list \<Rightarrow> ('w, unit) cmd" where
  "seqc [] = ret ()"
| "seqc (m # ms) = bindc m (\<lambda>_. seqc ms)"

lemma ret_apply [cmd_simps]: "ret a w = Some (Inr a, w)"
  by (simp add: ret_def)

lemma fail_apply [cmd_simps]: "fail e w = Some (Inl e, w)"
  by (simp add: fail_def)

lemma lift_result_apply [cmd_simps]: "lift_result r w = Some (r, w)"
  by (simp add: lift_result_def)

lemma bindc_None [cmd_simps]: "m w = None \<Longrightarrow> bindc m f w = None"
  by (simp add: bindc_def)

lemma bindc_Inl [cmd_simps]: "m w = Some (Inl e, w') \<Longrightarrow> bindc m f w = Some (Inl e, w')"
  by (simp add: bindc_def)

lemma bindc_Inr [cmd_simps]: "m w = Some (Inr a, w') \<Longrightarrow> bindc m f w = f a w'"
  by (simp add: bindc_def)

lemma attempt_Some [cmd_simps]: "m w = Some (r, w') \<Longrightarrow> attempt m w = Some (Inr r, w')"
  by (simp add: attempt_def)

lemma bindc_ret_left [simp]: "bindc (ret a) f = f a"
  by (simp add: bindc_def ret_def fun_eq_iff)

lemma bindc_fail_left [simp]: "bindc (fail e) f = fail e"
  by (simp add: bindc_def fail_def fun_eq_iff)

lemma bindc_ret_right [simp]: "bindc m ret = m"
  by (auto simp: bindc_def ret_def fun_eq_iff split: option.splits sum.splits)

lemma bindc_ret_unit [simp]: "bindc m (\<lambda>_. ret ()) = m"
  by (auto simp: bindc_def ret_def fun_eq_iff split: option.splits sum.splits)

lemma bindc_assoc: "bindc (bindc m f) g = bindc m (\<lambda>a. bindc (f a) g)"
  by (auto simp: bindc_def fun_eq_iff split: option.splits sum.splits)

lemma bindc_eq_Some_iff:
  "bindc m f w = Some (r, w'') \<longleftrightarrow>
     (\<exists>e. m w = Some (Inl e, w'') \<and> r = Inl e) \<or>
     (\<exists>a w'. m w = Some (Inr a, w') \<and> f a w' = Some (r, w''))"
  by (auto simp: bindc_def split: option.splits sum.splits)

lemma seqc_append: "seqc (ms @ ns) = bindc (seqc ms) (\<lambda>_. seqc ns)"
  by (induction ms) (simp_all add: bindc_assoc)

subsection \<open>Total-correctness triples\<close>

text \<open>
  \<open>runs P m Q\<close>: from every world in \<open>P\<close> the computation returns, and result and world
  satisfy \<open>Q\<close>.
\<close>

definition runs :: "('w \<Rightarrow> bool) \<Rightarrow> ('w, 'a) cmd \<Rightarrow> ('a result \<Rightarrow> 'w \<Rightarrow> bool) \<Rightarrow> bool" where
  "runs P m Q \<longleftrightarrow> (\<forall>w. P w \<longrightarrow> (\<exists>r w'. m w = Some (r, w') \<and> Q r w'))"

lemma runsI: "(\<And>w. P w \<Longrightarrow> \<exists>r w'. m w = Some (r, w') \<and> Q r w') \<Longrightarrow> runs P m Q"
  by (simp add: runs_def)

lemma runsD: "runs P m Q \<Longrightarrow> P w \<Longrightarrow> \<exists>r w'. m w = Some (r, w') \<and> Q r w'"
  by (simp add: runs_def)

lemma runsE:
  assumes "runs P m Q" and "P w"
  obtains r w' where "m w = Some (r, w')" and "Q r w'"
  using assms by (auto simp: runs_def)

lemma runs_weaken:
  "runs P m Q \<Longrightarrow> (\<And>w. P' w \<Longrightarrow> P w) \<Longrightarrow> (\<And>r w. Q r w \<Longrightarrow> Q' r w) \<Longrightarrow> runs P' m Q'"
  by (fastforce simp: runs_def)

lemma runs_ret [runs_intros]: "(\<And>w. P w \<Longrightarrow> Q (Inr a) w) \<Longrightarrow> runs P (ret a) Q"
  by (simp add: runs_def ret_def)

lemma runs_fail [runs_intros]: "(\<And>w. P w \<Longrightarrow> Q (Inl e) w) \<Longrightarrow> runs P (fail e) Q"
  by (simp add: runs_def fail_def)

lemma runs_lift [runs_intros]: "(\<And>w. P w \<Longrightarrow> Q r w) \<Longrightarrow> runs P (lift_result r) Q"
  by (simp add: runs_def lift_result_def)

lemma runs_bindc:
  assumes m: "runs P m R"
    and err: "\<And>e w. R (Inl e) w \<Longrightarrow> Q (Inl e) w"
    and f: "\<And>a. runs (R (Inr a)) (f a) Q"
  shows "runs P (bindc m f) Q"
proof (rule runsI)
  fix w assume "P w"
  with m obtain r w' where mw: "m w = Some (r, w')" and R: "R r w'" by (rule runsE)
  show "\<exists>r w'. bindc m f w = Some (r, w') \<and> Q r w'"
  proof (cases r)
    case (Inl e)
    with mw R err show ?thesis by (simp add: bindc_Inl)
  next
    case (Inr a)
    with R have "R (Inr a) w'" by simp
    with f obtain r' w'' where "f a w' = Some (r', w'')" and "Q r' w''" by (rule runsE)
    with mw Inr show ?thesis by (simp add: bindc_Inr)
  qed
qed

lemma runs_attempt:
  assumes "runs P m R" and "\<And>r w. R r w \<Longrightarrow> Q (Inr r) w"
  shows "runs P (attempt m) Q"
  using assms by (force simp: runs_def attempt_def)

text \<open>A property of the world that a computation keeps whatever its result.\<close>

definition keeps :: "('w \<Rightarrow> bool) \<Rightarrow> ('w, 'a) cmd \<Rightarrow> bool" where
  "keeps I m \<longleftrightarrow> (\<forall>w r w'. I w \<longrightarrow> m w = Some (r, w') \<longrightarrow> I w')"

named_theorems keeps_intros \<open>computations that keep a property of the world\<close>

lemma keepsI: "(\<And>w r w'. I w \<Longrightarrow> m w = Some (r, w') \<Longrightarrow> I w') \<Longrightarrow> keeps I m"
  by (auto simp: keeps_def)

lemma keepsD: "keeps I m \<Longrightarrow> I w \<Longrightarrow> m w = Some (r, w') \<Longrightarrow> I w'"
  by (auto simp: keeps_def)

lemma keeps_ret [keeps_intros]: "keeps I (ret a)"
  by (simp add: keeps_def ret_def)

lemma keeps_fail [keeps_intros]: "keeps I (fail e)"
  by (simp add: keeps_def fail_def)

lemma keeps_lift [keeps_intros]: "keeps I (lift_result r)"
  by (simp add: keeps_def lift_result_def)

lemma keeps_bindc [keeps_intros]:
  assumes "keeps I m" and "\<And>a. keeps I (f a)"
  shows "keeps I (bindc m f)"
proof (rule keepsI)
  fix w r w'' assume w: "I w" and "bindc m f w = Some (r, w'')"
  then consider e where "m w = Some (Inl e, w'')"
    | a w' where "m w = Some (Inr a, w')" and "f a w' = Some (r, w'')"
    by (auto simp: bindc_eq_Some_iff)
  then show "I w''" using w assms by cases (blast dest: keepsD)+
qed

lemma keeps_if [keeps_intros]:
  "(b \<Longrightarrow> keeps I m) \<Longrightarrow> (\<not> b \<Longrightarrow> keeps I n) \<Longrightarrow> keeps I (if b then m else n)"
  by simp

lemma keeps_case_option [keeps_intros]:
  "(x = None \<Longrightarrow> keeps I m) \<Longrightarrow> (\<And>a. x = Some a \<Longrightarrow> keeps I (f a)) \<Longrightarrow>
     keeps I (case x of None \<Rightarrow> m | Some a \<Rightarrow> f a)"
  by (cases x) auto

lemma keeps_case_sum [keeps_intros]:
  "(\<And>e. x = Inl e \<Longrightarrow> keeps I (f e)) \<Longrightarrow> (\<And>a. x = Inr a \<Longrightarrow> keeps I (g a)) \<Longrightarrow>
     keeps I (case x of Inl e \<Rightarrow> f e | Inr a \<Rightarrow> g a)"
  by (cases x) auto

lemma keeps_call: "(\<And>w. m w = Some (f w)) \<Longrightarrow> (\<And>w. I w \<Longrightarrow> I (snd (f w))) \<Longrightarrow> keeps I m"
  by (metis keepsI option.inject snd_conv)

lemma keeps_attempt [keeps_intros]: "keeps I m \<Longrightarrow> keeps I (attempt m)"
  by (auto simp: keeps_def attempt_def split: option.splits)

lemma keeps_seqc [keeps_intros]: "(\<And>m. m \<in> set ms \<Longrightarrow> keeps I m) \<Longrightarrow> keeps I (seqc ms)"
  by (induction ms) (auto intro: keeps_intros)

section \<open>Hash maps\<close>

text \<open>
  \<^verbatim>\<open>HashMap\<close> and \<^verbatim>\<open>HashSet\<close> are lists with distinct keys. Their iteration order is
  unspecified, so every operation of the code that iterates over one takes the order as an
  argument: a rearrangement of the entries.
\<close>

type_synonym ('k, 'v) hash_map = "('k \<times> 'v) list"

definition iteration_order :: "('a list \<Rightarrow> 'a list) \<Rightarrow> bool" where
  "iteration_order f \<longleftrightarrow> (\<forall>xs. mset (f xs) = mset xs)"

abbreviation keys_distinct :: "('k, 'v) hash_map \<Rightarrow> bool" where
  "keys_distinct m \<equiv> distinct (map fst m)"

abbreviation hm_get :: "('k, 'v) hash_map \<Rightarrow> 'k \<Rightarrow> 'v option" where
  "hm_get \<equiv> map_of"

abbreviation hm_insert :: "'k \<Rightarrow> 'v \<Rightarrow> ('k, 'v) hash_map \<Rightarrow> ('k, 'v) hash_map" where
  "hm_insert \<equiv> AList.update"

abbreviation hm_remove :: "'k \<Rightarrow> ('k, 'v) hash_map \<Rightarrow> ('k, 'v) hash_map" where
  "hm_remove \<equiv> AList.delete"

definition hm_retain :: "('k \<Rightarrow> 'v \<Rightarrow> bool) \<Rightarrow> ('k, 'v) hash_map \<Rightarrow> ('k, 'v) hash_map" where
  "hm_retain p m = filter (\<lambda>(k, v). p k v) m"

text \<open>\<^verbatim>\<open>HashSet::extend\<close>: insert every element that is not there yet.\<close>

fun hs_extend :: "'a list \<Rightarrow> 'a list \<Rightarrow> 'a list" where
  "hs_extend s [] = s"
| "hs_extend s (x # xs) = hs_extend (if x \<in> set s then s else s @ [x]) xs"

lemma set_hs_extend [simp]: "set (hs_extend s xs) = set s \<union> set xs"
  by (induction xs arbitrary: s) auto

lemma distinct_hs_extend: "distinct s \<Longrightarrow> distinct (hs_extend s xs)"
  by (induction xs arbitrary: s) auto

lemma length_hs_extend: "length s \<le> length (hs_extend s xs)"
proof (induction xs arbitrary: s)
  case (Cons x xs)
  from Cons [of s] Cons [of "s @ [x]"] show ?case by auto
qed simp

lemma hs_extend_subset: "set xs \<subseteq> set s \<Longrightarrow> hs_extend s xs = s"
  by (induction xs) auto

lemma length_hs_extend_eq_iff: "length (hs_extend s xs) = length s \<longleftrightarrow> set xs \<subseteq> set s"
proof (induction xs arbitrary: s)
  case (Cons x xs)
  have "length (s @ [x]) \<le> length (hs_extend (s @ [x]) xs)" by (rule length_hs_extend)
  with Cons [of s] show ?case by auto
qed simp

lemma iteration_order_set: "iteration_order f \<Longrightarrow> set (f xs) = set xs"
  by (metis iteration_order_def set_mset_mset)

lemma iteration_order_length: "iteration_order f \<Longrightarrow> length (f xs) = length xs"
  by (metis iteration_order_def size_mset)

lemma iteration_order_distinct:
  "iteration_order f \<Longrightarrow> distinct (map fst (f xs)) = distinct (map fst xs)"
  by (metis iteration_order_def mset_eq_imp_distinct_iff mset_map)

lemma iteration_order_distinct_list: "iteration_order f \<Longrightarrow> distinct (f xs) = distinct xs"
  by (metis iteration_order_def mset_eq_imp_distinct_iff)

lemma iteration_order_map_of:
  assumes "iteration_order f" and "keys_distinct xs"
  shows "map_of (f xs) = map_of xs"
proof -
  from assms have "distinct (map fst (f xs))" by (simp add: iteration_order_distinct)
  moreover from assms(1) have "set (f xs) = set xs" by (rule iteration_order_set)
  ultimately show ?thesis using assms(2) by (metis map_of_inject_set)
qed

lemma iteration_order_id [simp]: "iteration_order (\<lambda>xs. xs)"
  by (simp add: iteration_order_def)

lemma iteration_order_rev [simp]: "iteration_order rev"
  by (simp add: iteration_order_def)

declare map_of_eq_Some_iff [simp del]

lemma keys_distinct_retain [simp]: "keys_distinct m \<Longrightarrow> keys_distinct (hm_retain p m)"
  by (induction m) (auto simp: hm_retain_def)

lemma hm_get_retain:
  "keys_distinct m \<Longrightarrow>
     hm_get (hm_retain p m) k =
       (case hm_get m k of None \<Rightarrow> None | Some v \<Rightarrow> if p k v then Some v else None)"
proof (induction m)
  case Nil
  then show ?case by (simp add: hm_retain_def)
next
  case (Cons x m)
  obtain k' v' where x: "x = (k', v')" by (cases x)
  have "hm_get m k' = None" using Cons.prems by (simp add: x map_of_eq_None_iff)
  then show ?case using Cons by (auto simp: hm_retain_def x split: option.splits)
qed

lemma length_retain_le: "length (hm_retain p m) \<le> length m"
  by (simp add: hm_retain_def)

text \<open>The contract the clients rely on: what a lookup returns after each mutation.\<close>

locale hash_map_contract =
  fixes get :: "'m \<Rightarrow> 'k \<Rightarrow> 'v option"
    and ins :: "'k \<Rightarrow> 'v \<Rightarrow> 'm \<Rightarrow> 'm"
    and rmv :: "'k \<Rightarrow> 'm \<Rightarrow> 'm"
    and inv :: "'m \<Rightarrow> bool"
  assumes get_ins: "get (ins k v m) = (get m)(k \<mapsto> v)"
    and get_rmv: "inv m \<Longrightarrow> get (rmv k m) = (get m)(k := None)"
    and inv_ins: "inv m \<Longrightarrow> inv (ins k v m)"
    and inv_rmv: "inv m \<Longrightarrow> inv (rmv k m)"
begin

lemma get_ins_same: "get (ins k v m) k = Some v"
  by (simp add: get_ins)

lemma get_ins_other: "k' \<noteq> k \<Longrightarrow> get (ins k v m) k' = get m k'"
  by (simp add: get_ins)

lemma get_rmv_same: "inv m \<Longrightarrow> get (rmv k m) k = None"
  by (simp add: get_rmv)

lemma get_rmv_other: "inv m \<Longrightarrow> k' \<noteq> k \<Longrightarrow> get (rmv k m) k' = get m k'"
  by (simp add: get_rmv)

lemma dom_ins: "dom (get (ins k v m)) = insert k (dom (get m))"
  by (simp add: get_ins)

lemma rmv_after_ins: "inv m \<Longrightarrow> get (rmv k (ins k v m)) = (get m)(k := None)"
  by (simp add: get_rmv inv_ins get_ins)

end

interpretation hm: hash_map_contract hm_get hm_insert hm_remove keys_distinct
  by unfold_locales (auto simp: update_conv' delete_conv' distinct_update distinct_delete)

end
