(* ===== verification/Rust_Str.thy ===== *)
theory Rust_Str
  imports Prelude
begin

text \<open>
  The operations of Rust's \<^verbatim>\<open>str\<close> that the program uses. A \<^verbatim>\<open>str\<close> is its sequence of UTF-8
  bytes: a character of the model is one byte, so \<^const>\<open>length\<close> is \<^verbatim>\<open>len()\<close>.
  Operations that look for Unicode white space recognise the UTF-8 encodings of those code points.
\<close>

section \<open>Bytes\<close>

abbreviation byte :: "char \<Rightarrow> nat" where
  "byte c \<equiv> of_char c"

lemma char_of_numeral_eval [simp]:
  "char_of (numeral k :: nat) =
     Char (bit (numeral k :: nat) 0) (bit (numeral k :: nat) 1) (bit (numeral k :: nat) 2)
       (bit (numeral k :: nat) 3) (bit (numeral k :: nat) 4) (bit (numeral k :: nat) 5)
       (bit (numeral k :: nat) 6) (bit (numeral k :: nat) 7)"
  by (simp only: char_of_def bit_0)

definition ascii_digit :: "char \<Rightarrow> bool" where
  "ascii_digit c \<longleftrightarrow> 48 \<le> byte c \<and> byte c \<le> 57"

definition ascii_upper :: "char \<Rightarrow> bool" where
  "ascii_upper c \<longleftrightarrow> 65 \<le> byte c \<and> byte c \<le> 90"

definition ascii_lower :: "char \<Rightarrow> bool" where
  "ascii_lower c \<longleftrightarrow> 97 \<le> byte c \<and> byte c \<le> 122"

definition is_ascii_alphanumeric :: "char \<Rightarrow> bool" where
  "is_ascii_alphanumeric c \<longleftrightarrow> ascii_digit c \<or> ascii_upper c \<or> ascii_lower c"

definition to_lower :: "char \<Rightarrow> char" where
  "to_lower c = (if ascii_upper c then char_of (byte c + 32) else c)"

definition to_ascii_lowercase :: "string \<Rightarrow> string" where
  "to_ascii_lowercase s = map to_lower s"

section \<open>Affixes and substrings\<close>

definition starts_with :: "string \<Rightarrow> string \<Rightarrow> bool" where
  "starts_with s p = prefix p s"

definition ends_with :: "string \<Rightarrow> string \<Rightarrow> bool" where
  "ends_with s p = suffix p s"

definition contains :: "string \<Rightarrow> string \<Rightarrow> bool" where
  "contains s p = sublist p s"

definition strip_prefix :: "string \<Rightarrow> string \<Rightarrow> string option" where
  "strip_prefix s p = (if prefix p s then Some (drop (length p) s) else None)"

definition strip_suffix :: "string \<Rightarrow> string \<Rightarrow> string option" where
  "strip_suffix s p = (if suffix p s then Some (take (length s - length p) s) else None)"

definition trim_end_matches :: "char \<Rightarrow> string \<Rightarrow> string" where
  "trim_end_matches c s = rev (dropWhile (\<lambda>x. x = c) (rev s))"

section \<open>Splitting and joining\<close>

fun split :: "char \<Rightarrow> string \<Rightarrow> string list" where
  "split c [] = [[]]"
| "split c (x # xs) =
     (if x = c then [] # split c xs
      else (case split c xs of [] \<Rightarrow> [[x]] | y # ys \<Rightarrow> (x # y) # ys))"

fun split_once :: "char \<Rightarrow> string \<Rightarrow> (string \<times> string) option" where
  "split_once c [] = None"
| "split_once c (x # xs) =
     (if x = c then Some ([], xs)
      else map_option (\<lambda>(a, b). (x # a, b)) (split_once c xs))"

fun splitn :: "nat \<Rightarrow> char \<Rightarrow> string \<Rightarrow> string list" where
  "splitn 0 c s = []"
| "splitn (Suc 0) c s = [s]"
| "splitn (Suc (Suc n)) c s =
     (case split_once c s of None \<Rightarrow> [s] | Some (a, b) \<Rightarrow> a # splitn (Suc n) c b)"

fun join :: "string \<Rightarrow> string list \<Rightarrow> string" where
  "join sep [] = []"
| "join sep [x] = x"
| "join sep (x # y # ys) = x @ sep @ join sep (y # ys)"

text \<open>\<^verbatim>\<open>split_inclusive('\n')\<close>, then \<^verbatim>\<open>lines\<close>.\<close>

fun split_inclusive_nl :: "string \<Rightarrow> string \<Rightarrow> string list" where
  "split_inclusive_nl acc [] = (if acc = [] then [] else [acc])"
| "split_inclusive_nl acc (x # xs) =
     (if x = CHR 0x0A then (acc @ [x]) # split_inclusive_nl [] xs
      else split_inclusive_nl (acc @ [x]) xs)"

definition line_content :: "string \<Rightarrow> string" where
  "line_content l =
     (case strip_suffix l [CHR 0x0A] of
        None \<Rightarrow> l
      | Some l1 \<Rightarrow> (case strip_suffix l1 [CHR 0x0D] of None \<Rightarrow> l1 | Some l2 \<Rightarrow> l2))"

definition lines :: "string \<Rightarrow> string list" where
  "lines s = map line_content (split_inclusive_nl [] s)"

text \<open>What a buffered reader's \<^verbatim>\<open>read_line\<close> takes off a byte stream: up to the first newline.\<close>

fun read_line :: "string \<Rightarrow> string" where
  "read_line [] = []"
| "read_line (x # xs) = (if x = CHR 0x0A then [x] else x # read_line xs)"

section \<open>White space\<close>

definition is_ascii_whitespace :: "char \<Rightarrow> bool" where
  "is_ascii_whitespace c \<longleftrightarrow> byte c \<in> {9, 10, 12, 13, 32}"

text \<open>
  The UTF-8 forms of the code points with the Unicode property \<^verbatim>\<open>White_Space\<close>: one byte
  (U+0009 to U+000D, U+0020), two bytes (U+0085, U+00A0), three bytes (U+1680, U+2000 to
  U+200A, U+2028, U+2029, U+202F, U+205F, U+3000).
\<close>

definition ws1 :: "char \<Rightarrow> bool" where
  "ws1 a \<longleftrightarrow> byte a = 32 \<or> 9 \<le> byte a \<and> byte a \<le> 13"

definition ws2 :: "char \<Rightarrow> char \<Rightarrow> bool" where
  "ws2 a b \<longleftrightarrow> byte a = 194 \<and> (byte b = 133 \<or> byte b = 160)"

definition ws3 :: "char \<Rightarrow> char \<Rightarrow> char \<Rightarrow> bool" where
  "ws3 a b c \<longleftrightarrow>
     byte a = 225 \<and> byte b = 154 \<and> byte c = 128 \<or>
     byte a = 226 \<and> byte b = 128 \<and>
       (128 \<le> byte c \<and> byte c \<le> 138 \<or> byte c = 168 \<or> byte c = 169 \<or> byte c = 175) \<or>
     byte a = 226 \<and> byte b = 129 \<and> byte c = 159 \<or>
     byte a = 227 \<and> byte b = 128 \<and> byte c = 128"

text \<open>The number of bytes of the white-space character at the front, 0 if there is none.\<close>

definition ws_len :: "string \<Rightarrow> nat" where
  "ws_len s =
     (case s of
        [] \<Rightarrow> 0
      | a # t \<Rightarrow>
          if ws1 a then 1
          else (case t of
                  [] \<Rightarrow> 0
                | b # u \<Rightarrow>
                    if ws2 a b then 2
                    else (case u of [] \<Rightarrow> 0 | c # _ \<Rightarrow> if ws3 a b c then 3 else 0)))"

text \<open>The same at the end of a string that is given reversed.\<close>

definition ws_len_rev :: "string \<Rightarrow> nat" where
  "ws_len_rev s =
     (case s of
        [] \<Rightarrow> 0
      | c # t \<Rightarrow>
          if ws1 c then 1
          else (case t of
                  [] \<Rightarrow> 0
                | b # u \<Rightarrow>
                    if ws2 b c then 2
                    else (case u of [] \<Rightarrow> 0 | a # _ \<Rightarrow> if ws3 a b c then 3 else 0)))"

fun trim_start :: "string \<Rightarrow> string" where
  "trim_start s = (if s = [] \<or> ws_len s = 0 then s else trim_start (drop (ws_len s) s))"

fun trim_rev :: "string \<Rightarrow> string" where
  "trim_rev s = (if s = [] \<or> ws_len_rev s = 0 then s else trim_rev (drop (ws_len_rev s) s))"

definition trim_end :: "string \<Rightarrow> string" where
  "trim_end s = rev (trim_rev (rev s))"

definition trim :: "string \<Rightarrow> string" where
  "trim s = trim_end (trim_start s)"

text \<open>\<^verbatim>\<open>split_ascii_whitespace\<close> and \<^verbatim>\<open>split_whitespace\<close>: the non-empty pieces.\<close>

fun ascii_fields :: "string \<Rightarrow> string \<Rightarrow> string list" where
  "ascii_fields acc [] = (if acc = [] then [] else [acc])"
| "ascii_fields acc (x # xs) =
     (if is_ascii_whitespace x
      then (if acc = [] then ascii_fields [] xs else acc # ascii_fields [] xs)
      else ascii_fields (acc @ [x]) xs)"

definition split_ascii_whitespace :: "string \<Rightarrow> string list" where
  "split_ascii_whitespace s = ascii_fields [] s"

function fields :: "string \<Rightarrow> string \<Rightarrow> string list" where
  "fields acc s =
     (case s of
        [] \<Rightarrow> (if acc = [] then [] else [acc])
      | x # xs \<Rightarrow>
          if ws_len s = 0 then fields (acc @ [x]) xs
          else if acc = [] then fields [] (drop (ws_len s) s)
          else acc # fields [] (drop (ws_len s) s))"
  by pat_completeness auto
termination
  by (relation "measure (\<lambda>(acc, s). length s)") (auto simp: ws_len_def split: list.splits)

definition split_whitespace :: "string \<Rightarrow> string list" where
  "split_whitespace s = fields [] s"

section \<open>Numbers\<close>

definition digit_char :: "nat \<Rightarrow> char" where
  "digit_char d = ''0123456789abcdef'' ! d"

fun show_nat_base :: "nat \<Rightarrow> nat \<Rightarrow> string" where
  "show_nat_base b n =
     (if n < b \<or> b < 2 then [digit_char n]
      else show_nat_base b (n div b) @ [digit_char (n mod b)])"

text \<open>\<^verbatim>\<open>Display\<close> of an unsigned integer and its lower-case hexadecimal form.\<close>

definition show_nat :: "nat \<Rightarrow> string" where
  "show_nat n = show_nat_base 10 n"

definition show_hex :: "nat \<Rightarrow> string" where
  "show_hex n = show_nat_base 16 n"

text \<open>\<^verbatim>\<open>char::to_digit\<close> for the radices 10 and 16.\<close>

definition to_digit :: "nat \<Rightarrow> char \<Rightarrow> nat option" where
  "to_digit radix c =
     (let d = (if ascii_digit c then byte c - 48
               else if ascii_lower c then byte c - 87
               else if ascii_upper c then byte c - 55
               else radix)
      in if d < radix then Some d else None)"

fun digits_value :: "nat \<Rightarrow> nat \<Rightarrow> string \<Rightarrow> nat option" where
  "digits_value radix acc [] = Some acc"
| "digits_value radix acc (c # cs) =
     (case to_digit radix c of
        None \<Rightarrow> None
      | Some d \<Rightarrow> digits_value radix (acc * radix + d) cs)"

text \<open>
  \<^verbatim>\<open>FromStr\<close> of an unsigned type with maximum \<open>mx\<close>: an optional plus sign, then at least
  one decimal digit, with the value in range.
\<close>

definition parse_unsigned :: "nat \<Rightarrow> string \<Rightarrow> nat option" where
  "parse_unsigned mx s =
     (let ds = (case s of c # cs \<Rightarrow> if c = CHR ''+'' then cs else s | [] \<Rightarrow> s)
      in if ds = [] then None
         else (case digits_value 10 0 ds of
                 None \<Rightarrow> None
               | Some n \<Rightarrow> if n \<le> mx then Some n else None))"

definition parse_u32 :: "string \<Rightarrow> u32 option" where
  "parse_u32 s = map_option of_nat (parse_unsigned 4294967295 s)"

definition parse_u16 :: "string \<Rightarrow> u16 option" where
  "parse_u16 s = map_option of_nat (parse_unsigned 65535 s)"

declare trim_start.simps [simp del] trim_rev.simps [simp del] fields.simps [simp del]
  show_nat_base.simps [simp del]

section \<open>Laws\<close>

subsection \<open>Affixes\<close>

lemma strip_prefix_append [simp, str_simps]: "strip_prefix (p @ s) p = Some s"
  by (simp add: strip_prefix_def)

lemma strip_prefix_Some_iff: "strip_prefix s p = Some r \<longleftrightarrow> s = p @ r"
  by (auto simp: strip_prefix_def prefix_def)

lemma strip_prefix_None_iff: "strip_prefix s p = None \<longleftrightarrow> \<not> prefix p s"
  by (simp add: strip_prefix_def)

lemma strip_suffix_append [simp, str_simps]: "strip_suffix (s @ p) p = Some s"
  by (auto simp: strip_suffix_def suffix_def)

lemma strip_suffix_Some_iff: "strip_suffix s p = Some r \<longleftrightarrow> s = r @ p"
  by (auto simp: strip_suffix_def suffix_def)

lemma trim_end_matches_Nil [simp]: "trim_end_matches c [] = []"
  by (simp add: trim_end_matches_def)

lemma trim_end_matches_snoc [simp]: "trim_end_matches c (s @ [c]) = trim_end_matches c s"
  by (simp add: trim_end_matches_def)

lemma trim_end_matches_snoc_other [simp]: "x \<noteq> c \<Longrightarrow> trim_end_matches c (s @ [x]) = s @ [x]"
  by (simp add: trim_end_matches_def)

lemma trim_end_matches_last: "trim_end_matches c s \<noteq> [] \<Longrightarrow> last (trim_end_matches c s) \<noteq> c"
  by (induction s rule: rev_induct) (auto simp: trim_end_matches_def)

lemma trim_end_matches_id: "s = [] \<or> last s \<noteq> c \<Longrightarrow> trim_end_matches c s = s"
  by (cases s rule: rev_cases) auto

lemma trim_end_matches_idem [simp]:
  "trim_end_matches c (trim_end_matches c s) = trim_end_matches c s"
  using trim_end_matches_id trim_end_matches_last by blast

lemma set_trim_end_matches: "set (trim_end_matches c s) \<subseteq> set s"
  by (metis set_dropWhileD set_rev subsetI trim_end_matches_def)

lemma trim_end_matches_decomp: "\<exists>n. s = trim_end_matches c s @ replicate n c"
proof (induction s rule: rev_induct)
  case Nil
  then show ?case by simp
next
  case (snoc x s)
  show ?case
  proof (cases "x = c")
    case True
    from snoc obtain n where "s = trim_end_matches c s @ replicate n c" by blast
    then have "s @ [c] = trim_end_matches c s @ replicate (Suc n) c"
      by (metis append_assoc replicate_Suc replicate_append_same)
    with True show ?thesis by (metis trim_end_matches_snoc)
  next
    case False
    then have "s @ [x] = trim_end_matches c (s @ [x]) @ replicate 0 c" by simp
    then show ?thesis by blast
  qed
qed

subsection \<open>Case folding\<close>

lemma byte_less: "byte c < 256"
  by (cases c) (simp add: of_char_def horner_sum_of_bool_2_less)

lemma byte_char_of: "n < 256 \<Longrightarrow> byte (char_of n) = n"
  by (simp only: of_char_of) simp

lemma byte_to_lower: "byte (to_lower c) = (if ascii_upper c then byte c + 32 else byte c)"
  by (auto simp: to_lower_def ascii_upper_def byte_char_of)

lemma to_lower_idem [simp]: "to_lower (to_lower c) = to_lower c"
proof -
  have "\<not> ascii_upper (to_lower c)"
    by (auto simp: ascii_upper_def byte_to_lower)
  then show ?thesis by (simp add: to_lower_def)
qed

lemma to_lower_eq_iff: "\<not> ascii_upper d \<Longrightarrow> \<not> ascii_lower d \<Longrightarrow> to_lower c = d \<longleftrightarrow> c = d"
proof -
  assume d: "\<not> ascii_upper d" "\<not> ascii_lower d"
  have "ascii_lower (to_lower c)" if "ascii_upper c"
    using that by (auto simp: ascii_lower_def ascii_upper_def byte_to_lower)
  with d show ?thesis by (auto simp: to_lower_def)
qed

lemma to_lower_dot [simp]: "to_lower c = CHR ''.'' \<longleftrightarrow> c = CHR ''.''"
  by (rule to_lower_eq_iff) (simp_all add: ascii_upper_def ascii_lower_def)

lemma to_ascii_lowercase_idem [simp]:
  "to_ascii_lowercase (to_ascii_lowercase s) = to_ascii_lowercase s"
  by (simp add: to_ascii_lowercase_def)

lemma to_ascii_lowercase_append: "to_ascii_lowercase (s @ t) = to_ascii_lowercase s @ to_ascii_lowercase t"
  by (simp add: to_ascii_lowercase_def)

lemma trim_dots_lowercase:
  "trim_end_matches CHR ''.'' (to_ascii_lowercase s) = to_ascii_lowercase (trim_end_matches CHR ''.'' s)"
  by (induction s rule: rev_induct)
    (auto simp: to_ascii_lowercase_def trim_end_matches_def rev_map dropWhile_map comp_def)

subsection \<open>Splitting and joining\<close>

lemma split_not_Nil [simp]: "split c s \<noteq> []"
  by (induction s) (auto split: list.splits)

lemma split_no_sep [str_simps]: "c \<notin> set s \<Longrightarrow> split c s = [s]"
  by (induction s) auto

lemma split_append_sep: "split c (a @ c # b) = split c a @ split c b"
  by (induction a) (auto split: list.splits)

lemma split_join:
  "xs \<noteq> [] \<Longrightarrow> (\<And>x. x \<in> set xs \<Longrightarrow> c \<notin> set x) \<Longrightarrow> split c (join [c] xs) = xs"
proof (induction "[c]" xs rule: join.induct)
  case (3 x y ys)
  then have "split c (join [c] (y # ys)) = y # ys" and "c \<notin> set x" by simp_all
  then show ?case by (simp add: split_append_sep split_no_sep)
qed (simp_all add: split_no_sep)

lemma join_split: "join [c] (split c s) = s"
proof (induction s)
  case Nil
  then show ?case by simp
next
  case (Cons x s)
  then obtain y ys where "split c s = y # ys" by (cases "split c s") auto
  with Cons show ?case by (cases ys) auto
qed

lemma split_inject: "split c s = split c t \<longleftrightarrow> s = t"
  by (metis join_split)

lemma join_append:
  "xs \<noteq> [] \<Longrightarrow> ys \<noteq> [] \<Longrightarrow> join sep (xs @ ys) = join sep xs @ sep @ join sep ys"
proof (induction sep xs rule: join.induct)
  case (2 sep x)
  then show ?case by (cases ys) simp_all
qed simp_all

lemma split_pieces_no_sep: "x \<in> set (split c s) \<Longrightarrow> c \<notin> set x"
  by (induction s arbitrary: x) (auto split: list.splits if_splits)

lemma split_once_append [str_simps]: "c \<notin> set a \<Longrightarrow> split_once c (a @ c # b) = Some (a, b)"
  by (induction a) auto

lemma split_once_None_iff: "split_once c s = None \<longleftrightarrow> c \<notin> set s"
  by (induction s) auto

lemma split_once_SomeD: "split_once c s = Some (a, b) \<Longrightarrow> s = a @ c # b \<and> c \<notin> set a"
  by (induction s arbitrary: a) (auto split: if_splits)

lemma length_splitn_le: "length (splitn n c s) \<le> n"
  by (induction n c s rule: splitn.induct) (auto split: option.splits)

lemma splitn_3_append [str_simps]:
  "c \<notin> set a \<Longrightarrow> c \<notin> set b \<Longrightarrow> splitn 3 c (a @ c # b @ c # r) = [a, b, r]"
  by (simp add: numeral_3_eq_3 split_once_append)

lemma set_join: "set (join sep xs) \<subseteq> set sep \<union> (\<Union>x\<in>set xs. set x)"
  by (induction sep xs rule: join.induct) auto

subsection \<open>Lines\<close>

lemma read_line_append_nl [str_simps]:
  "CHR 0x0A \<notin> set s \<Longrightarrow> read_line (s @ CHR 0x0A # t) = s @ [CHR 0x0A]"
  by (induction s) auto

lemma split_inclusive_no_nl:
  "CHR 0x0A \<notin> set s \<Longrightarrow> split_inclusive_nl acc s = (if acc @ s = [] then [] else [acc @ s])"
  by (induction s arbitrary: acc) auto

lemma split_inclusive_append:
  "CHR 0x0A \<notin> set s \<Longrightarrow>
     split_inclusive_nl acc (s @ CHR 0x0A # t) = (acc @ s @ [CHR 0x0A]) # split_inclusive_nl [] t"
  by (induction s arbitrary: acc) auto

lemma line_content_nl: "last s \<noteq> CHR 0x0D \<or> s = [] \<Longrightarrow> line_content (s @ [CHR 0x0A]) = s"
  by (cases s rule: rev_cases) (auto simp: line_content_def strip_suffix_def suffix_def)

lemma lines_Cons:
  "CHR 0x0A \<notin> set s \<Longrightarrow> last s \<noteq> CHR 0x0D \<or> s = [] \<Longrightarrow> lines (s @ CHR 0x0A # t) = s # lines t"
  by (simp add: lines_def split_inclusive_append line_content_nl)

lemma lines_Nil [simp]: "lines [] = []"
  by (simp add: lines_def)

subsection \<open>White space\<close>

lemma trim_start_id: "ws_len s = 0 \<Longrightarrow> trim_start s = s"
  by (subst trim_start.simps) simp

lemma trim_rev_id: "ws_len_rev s = 0 \<Longrightarrow> trim_rev s = s"
  by (subst trim_rev.simps) simp

lemma ws_len_le: "ws_len s \<le> length s"
  by (auto simp: ws_len_def split: list.splits)

lemma trim_start_ws_len: "trim_start s = [] \<or> ws_len (trim_start s) = 0"
proof (induction s rule: trim_start.induct)
  case (1 s)
  then show ?case by (cases "s = [] \<or> ws_len s = 0") (auto simp: trim_start.simps [of s])
qed

lemma trim_rev_ws_len: "trim_rev s = [] \<or> ws_len_rev (trim_rev s) = 0"
proof (induction s rule: trim_rev.induct)
  case (1 s)
  then show ?case by (cases "s = [] \<or> ws_len_rev s = 0") (auto simp: trim_rev.simps [of s])
qed

lemma trim_start_Nil [simp]: "trim_start [] = []"
  by (simp add: trim_start.simps)

lemma trim_end_Nil [simp]: "trim_end [] = []"
  by (simp add: trim_end_def trim_rev.simps)

lemma trim_Nil [simp]: "trim [] = []"
  by (simp add: trim_def)

lemma suffix_trim_start: "suffix (trim_start s) s"
proof (induction s rule: trim_start.induct)
  case (1 s)
  show ?case
  proof (cases "s = [] \<or> ws_len s = 0")
    case True
    then show ?thesis by (simp add: trim_start.simps [of s])
  next
    case False
    with 1 have "suffix (trim_start (drop (ws_len s) s)) (drop (ws_len s) s)" by simp
    with False show ?thesis
      by (simp add: trim_start.simps [of s]) (metis suffix_drop suffix_order.trans)
  qed
qed

text \<open>A string without any white-space byte sequence at its ends is its own trimming.\<close>

lemma trim_id: "ws_len s = 0 \<Longrightarrow> ws_len_rev (rev s) = 0 \<Longrightarrow> trim s = s"
  by (simp add: trim_def trim_start_id trim_end_def trim_rev_id)

lemma trim_end_snoc_nl: "ws_len_rev (rev s) = 0 \<Longrightarrow> trim_end (s @ [CHR 0x0A]) = s"
  by (simp add: trim_end_def trim_rev.simps [of "CHR 0x0A # rev s"] ws_len_rev_def [of "CHR 0x0A # rev s"]
      ws1_def trim_rev_id)

subsection \<open>Numbers\<close>

lemma digit_table: "map (to_digit 16) ''0123456789abcdef'' = map Some [0..<16]"
  by (simp add: to_digit_def ascii_digit_def ascii_lower_def ascii_upper_def upt_rec)

lemma to_digit_narrow: "d < 10 \<Longrightarrow> to_digit 16 c = Some d \<Longrightarrow> to_digit 10 c = Some d"
  by (auto simp: to_digit_def Let_def ascii_lower_def ascii_upper_def split: if_splits)

lemma to_digit_digit_char:
  assumes "d < radix" and "radix \<in> {10, 16}"
  shows "to_digit radix (digit_char d) = Some d"
proof -
  have d: "d < 16" using assms by auto
  then have "map (to_digit 16) ''0123456789abcdef'' ! d = Some d"
    by (simp add: digit_table del: list.map)
  with d have "to_digit 16 (digit_char d) = Some d"
    by (simp add: digit_char_def nth_map del: list.map)
  with assms show ?thesis by (auto intro: to_digit_narrow)
qed

lemma digits_value_append:
  "digits_value b acc (s @ t) =
     (case digits_value b acc s of None \<Rightarrow> None | Some n \<Rightarrow> digits_value b n t)"
  by (induction s arbitrary: acc) (auto split: option.splits)

lemma digits_value_show:
  assumes "b \<in> {10, 16}"
  shows "digits_value b 0 (show_nat_base b n) = Some n"
proof (induction n rule: less_induct)
  case (less n)
  have b: "1 < b" using assms by auto
  show ?case
  proof (cases "n < b")
    case True
    then show ?thesis using assms by (simp add: show_nat_base.simps to_digit_digit_char)
  next
    case False
    with b have "n div b < n" by (intro div_less_dividend) auto
    with less have "digits_value b 0 (show_nat_base b (n div b)) = Some (n div b)" by blast
    moreover have "to_digit b (digit_char (n mod b)) = Some (n mod b)"
      using b assms by (intro to_digit_digit_char) auto
    ultimately show ?thesis using False b
      by (simp add: show_nat_base.simps [of b n] digits_value_append)
  qed
qed

lemma show_nat_base_not_Nil [simp]: "show_nat_base b n \<noteq> []"
  by (subst show_nat_base.simps) simp

lemma show_nat_not_Nil [simp]: "show_nat n \<noteq> []"
  by (simp add: show_nat_def)

lemma digit_char_digit: "d < 10 \<Longrightarrow> ascii_digit (digit_char d)"
  using to_digit_digit_char [of d 10]
  by (auto simp: to_digit_def Let_def ascii_lower_def ascii_upper_def split: if_splits)

lemma show_nat_digits: "\<forall>c \<in> set (show_nat n). ascii_digit c"
  unfolding show_nat_def
proof (induction n rule: less_induct)
  case (less n)
  show ?case
  proof (cases "n < 10")
    case True
    then show ?thesis by (simp add: show_nat_base.simps digit_char_digit)
  next
    case False
    then have "n div 10 < n" by simp
    with less have "\<forall>c \<in> set (show_nat_base 10 (n div 10)). ascii_digit c" by blast
    with False show ?thesis by (simp add: show_nat_base.simps [of 10 n] digit_char_digit)
  qed
qed

lemma show_nat_char: "c \<in> set (show_nat n) \<Longrightarrow> \<not> ascii_digit d \<Longrightarrow> c \<noteq> d"
  using show_nat_digits by blast

lemma parse_unsigned_show: "n \<le> mx \<Longrightarrow> parse_unsigned mx (show_nat n) = Some n"
proof -
  assume n: "n \<le> mx"
  obtain c cs where s: "show_nat n = c # cs" by (cases "show_nat n") auto
  have "c \<noteq> CHR ''+''"
    by (rule show_nat_char [of _ n]) (simp_all add: s ascii_digit_def)
  moreover have "digits_value 10 0 (c # cs) = Some n"
    using digits_value_show [of 10 n] by (simp add: s [symmetric] show_nat_def)
  ultimately show ?thesis using n by (simp add: parse_unsigned_def s Let_def)
qed

lemma parse_u16_show: "parse_u16 (show_nat (unat p)) = Some p"
proof -
  have "unat p < 2 ^ 16" using unsigned_less [of p] by simp
  then show ?thesis by (simp add: parse_u16_def parse_unsigned_show)
qed

lemma parse_u32_show: "parse_u32 (show_nat (unat p)) = Some p"
proof -
  have "unat p < 2 ^ 32" using unsigned_less [of p] by simp
  then show ?thesis by (simp add: parse_u32_def parse_unsigned_show)
qed

section \<open>Tokens\<close>

text \<open>A word of a command line or of a rule listing: not empty and without white space.\<close>

definition token :: "string \<Rightarrow> bool" where
  "token s \<longleftrightarrow> s \<noteq> [] \<and> list_all (\<lambda>c. \<not> is_ascii_whitespace c) s"

lemma token_not_Nil: "token s \<Longrightarrow> s \<noteq> []"
  by (simp add: token_def)

lemma token_no_ws: "token s \<Longrightarrow> c \<in> set s \<Longrightarrow> \<not> is_ascii_whitespace c"
  by (simp add: token_def list_all_iff)

lemma token_append: "token s \<Longrightarrow> list_all (\<lambda>c. \<not> is_ascii_whitespace c) t \<Longrightarrow> token (s @ t)"
  by (simp add: token_def)

lemma ascii_fields_token:
  "list_all (\<lambda>c. \<not> is_ascii_whitespace c) s \<Longrightarrow> ascii_fields acc (s @ t) = ascii_fields (acc @ s) t"
  by (induction s arbitrary: acc) auto

lemma space_is_whitespace: "is_ascii_whitespace CHR '' ''"
  by (simp add: is_ascii_whitespace_def)

lemma split_ascii_whitespace_join:
  "(\<And>x. x \<in> set xs \<Longrightarrow> token x) \<Longrightarrow> split_ascii_whitespace (join '' '' xs) = xs"
  unfolding split_ascii_whitespace_def
proof (induction "'' ''" xs rule: join.induct)
  case 1
  then show ?case by simp
next
  case (2 x)
  then show ?case using ascii_fields_token [of x "[]" "[]"] by (simp add: token_def)
next
  case (3 x y xs)
  then have "token x" by simp
  then have "ascii_fields [] (x @ '' '' @ join '' '' (y # xs)) = x # ascii_fields [] (join '' '' (y # xs))"
    using ascii_fields_token [of x "[]" "'' '' @ join '' '' (y # xs)"]
    by (simp add: token_def space_is_whitespace)
  with 3 show ?case by simp
qed

lemma newline_is_whitespace: "is_ascii_whitespace CHR 0x0A" "is_ascii_whitespace CHR 0x0D"
  by (simp_all add: is_ascii_whitespace_def)

text \<open>A text of lines made of tokens falls apart into the lines again.\<close>

lemma set_join_tokens:
  "(\<And>x. x \<in> set xs \<Longrightarrow> token x) \<Longrightarrow> c \<in> set (join '' '' xs) \<Longrightarrow> c = CHR '' '' \<or> \<not> is_ascii_whitespace c"
  using set_join [of "'' ''" xs] by (fastforce dest: token_no_ws)

lemma lines_of_tokens:
  assumes "\<And>ws. ws \<in> set ls \<Longrightarrow> \<forall>x \<in> set ws. token x"
  shows "map split_ascii_whitespace (lines (concat (map (\<lambda>ws. join '' '' ws @ [CHR 0x0A]) ls))) = ls"
  using assms
proof (induction ls)
  case Nil
  then show ?case by simp
next
  case (Cons ws ls)
  have tok: "\<And>x. x \<in> set ws \<Longrightarrow> token x" using Cons.prems by auto
  have no: "CHR 0x0A \<notin> set (join '' '' ws)" "CHR 0x0D \<notin> set (join '' '' ws)"
    using set_join_tokens [OF tok] newline_is_whitespace by fastforce+
  then have "last (join '' '' ws) \<noteq> CHR 0x0D \<or> join '' '' ws = []" by (metis last_in_set)
  moreover have "map split_ascii_whitespace (lines (concat (map (\<lambda>ws. join '' '' ws @ [CHR 0x0A]) ls))) = ls"
    using Cons.prems by (intro Cons.IH) auto
  ultimately show ?case using no by (simp add: lines_Cons split_ascii_whitespace_join tok)
qed

section \<open>Plain characters\<close>

text \<open>Characters of one byte that are not white space.\<close>

definition plain :: "char \<Rightarrow> bool" where
  "plain c \<longleftrightarrow> byte c < 128 \<and> \<not> ws1 c"

lemma plain_ws_len: "plain c \<Longrightarrow> ws_len (c # t) = 0" "plain c \<Longrightarrow> ws_len_rev (c # t) = 0"
  by (auto simp: plain_def ws_len_def ws_len_rev_def ws2_def ws3_def split: list.splits)

lemma fields_plain: "list_all plain s \<Longrightarrow> fields acc (s @ t) = fields (acc @ s) t"
proof (induction s arbitrary: acc)
  case (Cons c s)
  then show ?case by (subst fields.simps) (simp add: plain_ws_len)
qed simp

lemma ws_len_space: "ws_len (CHR '' '' # t) = 1" "ws_len_rev (CHR '' '' # t) = 1"
  by (simp_all add: ws_len_def ws_len_rev_def ws1_def)

lemma split_whitespace_two:
  assumes "list_all plain a" "a \<noteq> []" "list_all plain b" "b \<noteq> []"
  shows "split_whitespace (a @ CHR '' '' # b) = [a, b]"
proof -
  have "fields a (CHR '' '' # b) = a # fields [] b"
    using assms(2) by (subst fields.simps) (simp add: ws_len_space)
  moreover have "fields [] b = [b]"
    using fields_plain [OF assms(3), of "[]" "[]"] assms(4) by (simp add: fields.simps [of b "[]"])
  ultimately show ?thesis using fields_plain [OF assms(1), of "[]" "CHR '' '' # b"] by (simp add: split_whitespace_def)
qed

lemma trim_rev_spaces: "trim_rev (replicate n (CHR '' '') @ s) = trim_rev s"
  by (induction n) (simp_all add: trim_rev.simps [of "CHR '' '' # _"] ws_len_space)

lemma trim_plain_ends:
  assumes "plain a" and "plain z"
  shows "trim (a # s @ z # replicate n (CHR '' '')) = a # s @ [z]"
proof -
  have "trim_start (a # s @ z # replicate n (CHR '' '')) = a # s @ z # replicate n (CHR '' '')"
    by (rule trim_start_id) (rule plain_ws_len(1) [OF assms(1)])
  moreover have "trim_rev (z # rev s @ [a]) = z # rev s @ [a]"
    by (rule trim_rev_id) (rule plain_ws_len(2) [OF assms(2)])
  ultimately show ?thesis by (simp add: trim_def trim_end_def trim_rev_spaces)
qed

lemma trim_plain: "list_all plain s \<Longrightarrow> trim s = s"
proof (rule trim_id)
  assume s: "list_all plain s"
  then show "ws_len s = 0" by (cases s) (simp_all add: ws_len_def [of "[]"] plain_ws_len)
  show "ws_len_rev (rev s) = 0"
    using s by (cases s rule: rev_cases) (simp_all add: ws_len_rev_def [of "[]"] plain_ws_len)
qed

end
