(* ===== verification/Siphash.thy ===== *)
theory Siphash
  imports Rust_Str
begin

text \<open>
  \<^verbatim>\<open>std::collections::hash_map::DefaultHasher\<close> as the program uses it: SipHash-1-3 with the zero key, fed
  with the bytes of a string, the separator byte 0xFF and the four bytes of a 32-bit number in little
  endian order.
\<close>

record sip_state =
  sip_v0 :: u64
  sip_v1 :: u64
  sip_v2 :: u64
  sip_v3 :: u64

text \<open>\<^verbatim>\<open>u64::rotate_left\<close> for amounts below the width.\<close>

definition rotate_left :: "nat \<Rightarrow> u64 \<Rightarrow> u64" where
  "rotate_left n x = push_bit n x OR drop_bit (64 - n) x"

definition sip_round :: "sip_state \<Rightarrow> sip_state" where
  "sip_round s =
     (let v0 = sip_v0 s; v1 = sip_v1 s; v2 = sip_v2 s; v3 = sip_v3 s;
          v0 = v0 + v1; v1 = rotate_left 13 v1; v1 = v1 XOR v0; v0 = rotate_left 32 v0;
          v2 = v2 + v3; v3 = rotate_left 16 v3; v3 = v3 XOR v2;
          v0 = v0 + v3; v3 = rotate_left 21 v3; v3 = v3 XOR v0;
          v2 = v2 + v1; v1 = rotate_left 17 v1; v1 = v1 XOR v2; v2 = rotate_left 32 v2
      in \<lparr>sip_v0 = v0, sip_v1 = v1, sip_v2 = v2, sip_v3 = v3\<rparr>)"

definition sip_absorb :: "u64 \<Rightarrow> sip_state \<Rightarrow> sip_state" where
  "sip_absorb m s =
     (let s1 = sip_round (s\<lparr>sip_v3 := sip_v3 s XOR m\<rparr>)
      in s1\<lparr>sip_v0 := sip_v0 s1 XOR m\<rparr>)"

definition le_word :: "u8 list \<Rightarrow> u64" where
  "le_word bs = foldr (\<lambda>b acc. acc * 256 + ucast b) bs 0"

function sip_blocks :: "u8 list \<Rightarrow> sip_state \<Rightarrow> u8 list \<times> sip_state" where
  "sip_blocks bs s =
     (if length bs < 8 then (bs, s) else sip_blocks (drop 8 bs) (sip_absorb (le_word (take 8 bs)) s))"
  by pat_completeness auto
termination
  by (relation "measure (\<lambda>(bs, _). length bs)") auto

declare sip_blocks.simps [simp del]

definition siphash13 :: "u8 list \<Rightarrow> u64" where
  "siphash13 bs =
     (let s0 = \<lparr>sip_v0 = 0x736f6d6570736575, sip_v1 = 0x646f72616e646f6d,
                sip_v2 = 0x6c7967656e657261, sip_v3 = 0x7465646279746573\<rparr>;
          (rest, s1) = sip_blocks bs s0;
          b = push_bit 56 (of_nat (length bs mod 256)) OR le_word rest;
          s2 = sip_absorb b s1;
          s3 = sip_round (sip_round (sip_round (s2\<lparr>sip_v2 := sip_v2 s2 XOR 0xff\<rparr>)))
      in sip_v0 s3 XOR sip_v1 s3 XOR sip_v2 s3 XOR sip_v3 s3)"

definition u32_bytes :: "u32 \<Rightarrow> u8 list" where
  "u32_bytes n = map (\<lambda>i. ucast (drop_bit (8 * i) n)) [0, 1, 2, 3]"

text \<open>Hash of a string followed by a number.\<close>

definition default_hash :: "string \<Rightarrow> u32 \<Rightarrow> u64" where
  "default_hash name n = siphash13 (map (\<lambda>c. of_nat (byte c)) name @ [0xFF] @ u32_bytes n)"

end
