(* ===== verification/Rust_Net.thy ===== *)
theory Rust_Net
  imports Rust_Str
begin

text \<open>
  The address types of \<^verbatim>\<open>std::net\<close> that the program uses: their ordering, their textual form in
  both directions (the recursive-descent parser of the standard library and \<^verbatim>\<open>Display\<close>), and the
  classification predicates.
\<close>

section \<open>Addresses\<close>

datatype ip_addr = V4 u32 | V6 u128

datatype socket_addr = SockV4 u32 u16 | SockV6 u128 u16

fun sock_ip :: "socket_addr \<Rightarrow> ip_addr" where
  "sock_ip (SockV4 a p) = V4 a"
| "sock_ip (SockV6 a p) = V6 a"

fun sock_port :: "socket_addr \<Rightarrow> u16" where
  "sock_port (SockV4 a p) = p"
| "sock_port (SockV6 a p) = p"

text \<open>The derived order: every IPv4 address before every IPv6 address, then by value.\<close>

instantiation ip_addr :: linorder
begin

fun less_eq_ip_addr :: "ip_addr \<Rightarrow> ip_addr \<Rightarrow> bool" where
  "less_eq_ip_addr (V4 a) (V4 b) = (a \<le> b)"
| "less_eq_ip_addr (V4 a) (V6 b) = True"
| "less_eq_ip_addr (V6 a) (V4 b) = False"
| "less_eq_ip_addr (V6 a) (V6 b) = (a \<le> b)"

definition less_ip_addr :: "ip_addr \<Rightarrow> ip_addr \<Rightarrow> bool" where
  "less_ip_addr a b \<longleftrightarrow> a \<le> b \<and> \<not> b \<le> a"

instance
proof
  fix x y z :: ip_addr
  show "x < y \<longleftrightarrow> x \<le> y \<and> \<not> y \<le> x" by (simp add: less_ip_addr_def)
  show "x \<le> x" by (cases x) simp_all
  show "x \<le> y \<Longrightarrow> y \<le> z \<Longrightarrow> x \<le> z" by (cases x; cases y; cases z) auto
  show "x \<le> y \<Longrightarrow> y \<le> x \<Longrightarrow> x = y" by (cases x; cases y) auto
  show "x \<le> y \<or> y \<le> x" by (cases x; cases y) auto
qed

end

section \<open>Octets and segments\<close>

definition octets :: "u32 \<Rightarrow> nat list" where
  "octets a =
     (let n = unat a in [n div 16777216, n div 65536 mod 256, n div 256 mod 256, n mod 256])"

definition ipv4_new :: "nat \<Rightarrow> nat \<Rightarrow> nat \<Rightarrow> nat \<Rightarrow> u32" where
  "ipv4_new a b c d = of_nat (((a * 256 + b) * 256 + c) * 256 + d)"

definition segment :: "nat \<Rightarrow> u128 \<Rightarrow> nat" where
  "segment i a = unat a div 65536 ^ (7 - i) mod 65536"

definition segments :: "u128 \<Rightarrow> nat list" where
  "segments a = map (\<lambda>i. segment i a) [0, 1, 2, 3, 4, 5, 6, 7]"

definition ipv6_of_segments :: "nat list \<Rightarrow> u128" where
  "ipv6_of_segments gs = of_nat (foldl (\<lambda>acc g. acc * 65536 + g) 0 gs)"

definition to_ipv4_mapped :: "u128 \<Rightarrow> u32 option" where
  "to_ipv4_mapped a =
     (if unat a div 4294967296 = 65535 then Some (of_nat (unat a mod 4294967296)) else None)"

section \<open>Classification\<close>

definition ipv4_is_loopback :: "u32 \<Rightarrow> bool" where
  "ipv4_is_loopback a \<longleftrightarrow> octets a ! 0 = 127"

definition ipv4_is_private :: "u32 \<Rightarrow> bool" where
  "ipv4_is_private a \<longleftrightarrow>
     octets a ! 0 = 10 \<or>
     octets a ! 0 = 172 \<and> octets a ! 1 \<ge> 16 \<and> octets a ! 1 \<le> 31 \<or>
     octets a ! 0 = 192 \<and> octets a ! 1 = 168"

definition ipv4_is_link_local :: "u32 \<Rightarrow> bool" where
  "ipv4_is_link_local a \<longleftrightarrow> octets a ! 0 = 169 \<and> octets a ! 1 = 254"

definition ipv6_is_loopback :: "u128 \<Rightarrow> bool" where
  "ipv6_is_loopback a \<longleftrightarrow> a = 1"

definition ipv6_is_unique_local :: "u128 \<Rightarrow> bool" where
  "ipv6_is_unique_local a \<longleftrightarrow> (of_nat (segment 0 a) :: u16) AND 0xfe00 = 0xfc00"

definition ipv6_is_unicast_link_local :: "u128 \<Rightarrow> bool" where
  "ipv6_is_unicast_link_local a \<longleftrightarrow> (of_nat (segment 0 a) :: u16) AND 0xffc0 = 0xfe80"

section \<open>Display\<close>

definition show_ipv4 :: "u32 \<Rightarrow> string" where
  "show_ipv4 a = join ''.'' (map show_nat (octets a))"

text \<open>The longest run of zero segments, the first of several: its start and its length.\<close>

fun zero_span :: "nat \<Rightarrow> nat list \<Rightarrow> nat \<times> nat \<Rightarrow> nat \<times> nat \<Rightarrow> nat \<times> nat" where
  "zero_span i [] longest current = longest"
| "zero_span i (g # gs) longest current =
     (if g = 0 then
        (let cur = (if snd current = 0 then (i, 1) else (fst current, snd current + 1));
             lon = (if snd cur > snd longest then cur else longest)
         in zero_span (i + 1) gs lon cur)
      else zero_span (i + 1) gs longest (0, 0))"

definition show_segments :: "nat list \<Rightarrow> string" where
  "show_segments gs = join '':'' (map show_hex gs)"

definition show_ipv6 :: "u128 \<Rightarrow> string" where
  "show_ipv6 a =
     (case to_ipv4_mapped a of
        Some v4 \<Rightarrow> ''::ffff:'' @ show_ipv4 v4
      | None \<Rightarrow>
          let gs = segments a; (start, len) = zero_span 0 gs (0, 0) (0, 0)
          in if len > 1
             then show_segments (take start gs) @ ''::'' @ show_segments (drop (start + len) gs)
             else show_segments gs)"

fun show_ip :: "ip_addr \<Rightarrow> string" where
  "show_ip (V4 a) = show_ipv4 a"
| "show_ip (V6 a) = show_ipv6 a"

section \<open>Parsing\<close>

text \<open>
  The standard library's parser: a function that consumes a prefix of the input or fails without
  consuming anything.
\<close>

type_synonym 'a parser = "string \<Rightarrow> ('a \<times> string) option"

fun read_given_char :: "char \<Rightarrow> unit parser" where
  "read_given_char c [] = None"
| "read_given_char c (x # xs) = (if x = c then Some ((), xs) else None)"

text \<open>The digits of a number, at most \<open>mx\<close> of them where there is a limit: value and count.\<close>

fun read_digits :: "nat \<Rightarrow> nat option \<Rightarrow> nat \<Rightarrow> nat \<Rightarrow> (nat \<times> nat) parser" where
  "read_digits radix mx acc n [] = Some ((acc, n), [])"
| "read_digits radix mx acc n (c # cs) =
     (case to_digit radix c of
        None \<Rightarrow> Some ((acc, n), c # cs)
      | Some d \<Rightarrow>
          if (case mx of None \<Rightarrow> False | Some m \<Rightarrow> m < n + 1) then None
          else read_digits radix mx (acc * radix + d) (n + 1) cs)"

definition read_number :: "nat \<Rightarrow> nat option \<Rightarrow> bool \<Rightarrow> nat \<Rightarrow> nat parser" where
  "read_number radix mx allow_zero_prefix bound s =
     (case read_digits radix mx 0 0 s of
        None \<Rightarrow> None
      | Some ((v, n), rest) \<Rightarrow>
          if n = 0 then None
          else if \<not> allow_zero_prefix \<and> prefix ''0'' s \<and> 1 < n then None
          else if v \<le> bound then Some (v, rest) else None)"

definition read_separator :: "char \<Rightarrow> nat \<Rightarrow> 'a parser \<Rightarrow> 'a parser" where
  "read_separator sep i inner s =
     (if 0 < i
      then (case read_given_char sep s of None \<Rightarrow> None | Some (_, r) \<Rightarrow> inner r)
      else inner s)"

fun read_octets :: "nat \<Rightarrow> nat \<Rightarrow> nat list parser" where
  "read_octets i 0 s = Some ([], s)"
| "read_octets i (Suc n) s =
     (case read_separator CHR ''.'' i (read_number 10 (Some 3) False 255) s of
        None \<Rightarrow> None
      | Some (g, r) \<Rightarrow> map_option (\<lambda>(gs, r'). (g # gs, r')) (read_octets (i + 1) n r))"

definition read_ipv4_addr :: "u32 parser" where
  "read_ipv4_addr s =
     (case read_octets 0 4 s of
        Some ([a, b, c, d], r) \<Rightarrow> Some (ipv4_new a b c d, r)
      | _ \<Rightarrow> None)"

text \<open>
  \<^verbatim>\<open>read_groups\<close>: at most \<open>limit\<close> groups, from number \<open>i\<close> on; the groups read, whether
  the last two came from an embedded IPv4 address, and the rest of the input.
\<close>

function read_groups :: "nat \<Rightarrow> nat \<Rightarrow> string \<Rightarrow> (nat list \<times> bool) \<times> string" where
  "read_groups limit i s =
     (if limit \<le> i then (([], False), s)
      else
        (case (if i < limit - 1 then read_separator CHR '':'' i read_ipv4_addr s else None) of
           Some (v4, r) \<Rightarrow> (([unat v4 div 65536, unat v4 mod 65536], True), r)
         | None \<Rightarrow>
             (case read_separator CHR '':'' i (read_number 16 (Some 4) True 65535) s of
                None \<Rightarrow> (([], False), s)
              | Some (g, r) \<Rightarrow>
                  (let ((gs, b), r') = read_groups limit (i + 1) r in ((g # gs, b), r')))))"
  by pat_completeness auto
termination
  by (relation "measure (\<lambda>(limit, i, s). limit - i)") auto

declare read_groups.simps [simp del]

definition read_ipv6_addr :: "u128 parser" where
  "read_ipv6_addr s =
     (let ((head, head_v4), r) = read_groups 8 0 s
      in if length head = 8 then Some (ipv6_of_segments head, r)
         else if head_v4 then None
         else (case read_given_char CHR '':'' r of
                 None \<Rightarrow> None
               | Some (_, r1) \<Rightarrow>
                   (case read_given_char CHR '':'' r1 of
                      None \<Rightarrow> None
                    | Some (_, r2) \<Rightarrow>
                        (let ((tail, tail_v4), r3) = read_groups (8 - (length head + 1)) 0 r2
                         in Some (ipv6_of_segments
                              (head @ replicate (8 - length head - length tail) 0 @ tail), r3)))))"

text \<open>\<^verbatim>\<open>parse_with\<close>: the whole input must be consumed.\<close>

definition parse_with :: "'a parser \<Rightarrow> string \<Rightarrow> 'a option" where
  "parse_with p s = (case p s of Some (a, []) \<Rightarrow> Some a | _ \<Rightarrow> None)"

definition parse_ipv4 :: "string \<Rightarrow> u32 option" where
  "parse_ipv4 s = (if 15 < length s then None else parse_with read_ipv4_addr s)"

definition parse_ipv6 :: "string \<Rightarrow> u128 option" where
  "parse_ipv6 s = parse_with read_ipv6_addr s"

definition read_ip_addr :: "ip_addr parser" where
  "read_ip_addr s =
     (case read_ipv4_addr s of
        Some (a, r) \<Rightarrow> Some (V4 a, r)
      | None \<Rightarrow> map_option (\<lambda>(a, r). (V6 a, r)) (read_ipv6_addr s))"

definition parse_ip :: "string \<Rightarrow> ip_addr option" where
  "parse_ip s = parse_with read_ip_addr s"

definition read_port :: "u16 parser" where
  "read_port s =
     (case read_given_char CHR '':'' s of
        None \<Rightarrow> None
      | Some (_, r) \<Rightarrow> map_option (\<lambda>(n, r'). (of_nat n, r')) (read_number 10 None True 65535 r))"

definition read_scope_id :: "nat parser" where
  "read_scope_id s =
     (case read_given_char CHR ''%'' s of
        None \<Rightarrow> None
      | Some (_, r) \<Rightarrow> read_number 10 None True 4294967295 r)"

definition read_socket_addr_v4 :: "socket_addr parser" where
  "read_socket_addr_v4 s =
     (case read_ipv4_addr s of
        None \<Rightarrow> None
      | Some (a, r) \<Rightarrow> map_option (\<lambda>(p, r'). (SockV4 a p, r')) (read_port r))"

definition read_socket_addr_v6 :: "socket_addr parser" where
  "read_socket_addr_v6 s =
     (case read_given_char CHR ''['' s of
        None \<Rightarrow> None
      | Some (_, r) \<Rightarrow>
          (case read_ipv6_addr r of
             None \<Rightarrow> None
           | Some (a, r1) \<Rightarrow>
               (let r2 = (case read_scope_id r1 of None \<Rightarrow> r1 | Some (_, r') \<Rightarrow> r')
                in (case read_given_char CHR '']'' r2 of
                      None \<Rightarrow> None
                    | Some (_, r3) \<Rightarrow>
                        map_option (\<lambda>(p, r'). (SockV6 a p, r')) (read_port r3)))))"

definition parse_socket_addr :: "string \<Rightarrow> socket_addr option" where
  "parse_socket_addr s =
     parse_with (\<lambda>t. case read_socket_addr_v4 t of Some x \<Rightarrow> Some x
                       | None \<Rightarrow> read_socket_addr_v6 t) s"

section \<open>Laws of the textual form\<close>

subsection \<open>Octets\<close>

lemma unat_u32_less: "unat (a :: u32) < 4294967296"
  using unsigned_less [of a] by simp

lemma unat_of_nat_u32: "n < 2 ^ 32 \<Longrightarrow> unat (of_nat n :: u32) = n"
  by (simp add: unsigned_of_nat take_bit_nat_eq_self)

lemma length_octets [simp]: "length (octets a) = 4"
  by (simp add: octets_def Let_def)

lemma octets_less: "x \<in> set (octets a) \<Longrightarrow> x < 256"
  using unat_u32_less [of a] by (auto simp: octets_def Let_def)

lemma base256_digits:
  fixes n :: nat
  assumes "n < 4294967296"
  shows "((n div 16777216 * 256 + n div 65536 mod 256) * 256 + n div 256 mod 256) * 256 + n mod 256 = n"
proof -
  have 1: "n div 65536 = n div 256 div 256" and 2: "n div 16777216 = n div 256 div 256 div 256"
    by (simp_all add: div_mult2_eq [symmetric])
  show ?thesis unfolding 1 2 by (simp only: div_mult_mod_eq)
qed

lemma ipv4_new_octets: "octets a = [w, x, y, z] \<Longrightarrow> ipv4_new w x y z = a"
proof -
  assume o: "octets a = [w, x, y, z]"
  then have "((w * 256 + x) * 256 + y) * 256 + z = unat a"
    using base256_digits [OF unat_u32_less [of a]] by (simp add: octets_def Let_def)
  then show ?thesis by (simp add: ipv4_new_def)
qed

lemma unat_ipv4_new:
  assumes "w < 256" "x < 256" "y < 256" "z < 256"
  shows "unat (ipv4_new w x y z) = ((w * 256 + x) * 256 + y) * 256 + z"
proof -
  have "((w * 256 + x) * 256 + y) * 256 + z < 2 ^ 32" using assms by simp
  then show ?thesis unfolding ipv4_new_def by (rule unat_of_nat_u32)
qed

lemma octets_ipv4_new:
  assumes "w < 256" "x < 256" "y < 256" "z < 256"
  shows "octets (ipv4_new w x y z) = [w, x, y, z]"
proof -
  have dm: "(q * 256 + r) div 256 = q" "(q * 256 + r) mod 256 = r" if "r < 256" for q r :: nat
    using that by simp_all
  have d: "n div 65536 = n div 256 div 256" "n div 16777216 = n div 256 div 256 div 256" for n :: nat
    by (simp_all add: div_mult2_eq [symmetric])
  show ?thesis using assms
    unfolding octets_def Let_def unat_ipv4_new [OF assms] d by (simp only: dm)
qed

lemma inj_octets: "octets a = octets b \<Longrightarrow> a = b"
proof -
  assume ab: "octets a = octets b"
  obtain w x y z where "octets a = [w, x, y, z]" by (auto simp: octets_def Let_def)
  with ab ipv4_new_octets show ?thesis by metis
qed

subsection \<open>Reading a printed number\<close>

lemma read_digits_value:
  "digits_value radix acc s = Some v \<Longrightarrow> r = [] \<or> to_digit radix (hd r) = None \<Longrightarrow>
   n + length s \<le> m \<Longrightarrow> read_digits radix (Some m) acc n (s @ r) = Some ((v, n + length s), r)"
proof (induction s arbitrary: acc n)
  case Nil
  then show ?case by (cases r) auto
next
  case (Cons c s)
  then obtain d where d: "to_digit radix c = Some d" by (auto split: option.splits)
  with Cons.prems have "digits_value radix (acc * radix + d) s = Some v" by simp
  from Cons.IH [OF this Cons.prems(2), of "n + 1"] Cons.prems(3) d show ?case by simp
qed

lemma length_show_nat_base: "1 < b \<Longrightarrow> n < b ^ k \<Longrightarrow> 0 < k \<Longrightarrow> length (show_nat_base b n) \<le> k"
proof (induction k arbitrary: n)
  case 0
  then show ?case by simp
next
  case (Suc k)
  show ?case
  proof (cases "n < b")
    case True
    then show ?thesis by (simp add: show_nat_base.simps)
  next
    case False
    with Suc.prems have "k \<noteq> 0" by (cases k) auto
    moreover have "n div b < b ^ k" using Suc.prems by (simp add: less_mult_imp_div_less mult.commute)
    ultimately have "length (show_nat_base b (n div b)) \<le> k" using Suc by blast
    with False Suc.prems show ?thesis by (simp add: show_nat_base.simps [of b n])
  qed
qed

lemma digit_char_zero: "d < 10 \<Longrightarrow> digit_char d = CHR ''0'' \<Longrightarrow> d = 0"
  using to_digit_digit_char [of d 10] by (auto simp: to_digit_def ascii_digit_def)

lemma hd_show_nat: "hd (show_nat n) = CHR ''0'' \<Longrightarrow> n = 0"
  unfolding show_nat_def
proof (induction n rule: less_induct)
  case (less n)
  show ?case
  proof (cases "n < 10")
    case True
    with less.prems show ?thesis by (simp add: show_nat_base.simps digit_char_zero)
  next
    case False
    with less.prems have "hd (show_nat_base 10 (n div 10)) = CHR ''0''"
      by (simp add: show_nat_base.simps [of 10 n])
    moreover have "n div 10 < n" using False by simp
    ultimately have "n div 10 = 0" using less.IH by blast
    with False show ?thesis by simp
  qed
qed

lemma read_number_show_nat:
  assumes "n < 256" and "r = [] \<or> to_digit 10 (hd r) = None"
  shows "read_number 10 (Some 3) False 255 (show_nat n @ r) = Some (n, r)"
proof -
  have len: "length (show_nat n) \<le> 3"
    using assms length_show_nat_base [of 10 n 3] by (simp add: show_nat_def)
  have "digits_value 10 0 (show_nat n) = Some n"
    using digits_value_show [of 10 n] by (simp add: show_nat_def)
  from read_digits_value [OF this assms(2), of 0 3] len
  have rd: "read_digits 10 (Some 3) 0 0 (show_nat n @ r) = Some ((n, length (show_nat n)), r)"
    by simp
  have "length (show_nat n) = 1" if "prefix ''0'' (show_nat n @ r)"
  proof -
    from that have "hd (show_nat n) = CHR ''0''" by (cases "show_nat n") auto
    then have "n = 0" by (rule hd_show_nat)
    then show ?thesis by (simp add: show_nat_def show_nat_base.simps)
  qed
  with rd assms(1) show ?thesis by (auto simp: read_number_def)
qed

lemma to_digit_dot [simp]: "to_digit b CHR ''.'' = None"
  by (simp add: to_digit_def ascii_digit_def ascii_lower_def ascii_upper_def)

lemma to_digit_colon [simp]: "to_digit b CHR '':'' = None"
  by (simp add: to_digit_def ascii_digit_def ascii_lower_def ascii_upper_def)

subsection \<open>IPv4 round trip\<close>

lemma show_ipv4_octets:
  "octets a = [w, x, y, z] \<Longrightarrow>
     show_ipv4 a = show_nat w @ ''.'' @ show_nat x @ ''.'' @ show_nat y @ ''.'' @ show_nat z"
  by (simp add: show_ipv4_def)

lemma read_ipv4_addr_show:
  assumes "r = [] \<or> to_digit 10 (hd r) = None"
  shows "read_ipv4_addr (show_ipv4 a @ r) = Some (a, r)"
proof -
  obtain w x y z where o: "octets a = [w, x, y, z]" by (auto simp: octets_def Let_def)
  have "w < 256" "x < 256" "y < 256" "z < 256" using octets_less [of _ a] by (simp_all add: o)
  moreover have four: "(4::nat) = Suc (Suc (Suc (Suc 0)))" by simp
  ultimately have "read_octets 0 4 (show_ipv4 a @ r) = Some ([w, x, y, z], r)"
    using assms
    by (simp add: four show_ipv4_octets [OF o] read_separator_def read_number_show_nat)
  then show ?thesis by (simp add: read_ipv4_addr_def ipv4_new_octets [OF o])
qed

lemma length_show_ipv4: "length (show_ipv4 a) \<le> 15"
proof -
  obtain w x y z where o: "octets a = [w, x, y, z]" by (auto simp: octets_def Let_def)
  have le: "length (show_nat n) \<le> 3" if "n < 256" for n
    using that length_show_nat_base [of 10 n 3] by (simp add: show_nat_def)
  have "w < 256" "x < 256" "y < 256" "z < 256" using octets_less [of _ a] by (simp_all add: o)
  from this [THEN le] show ?thesis by (simp add: show_ipv4_octets [OF o])
qed

lemma parse_ipv4_show: "parse_ipv4 (show_ipv4 a) = Some a"
  using length_show_ipv4 [of a] read_ipv4_addr_show [of "[]" a]
  by (simp add: parse_ipv4_def parse_with_def)

lemma parse_ip_show_ipv4: "parse_ip (show_ipv4 a) = Some (V4 a)"
  using read_ipv4_addr_show [of "[]" a] by (simp add: parse_ip_def parse_with_def read_ip_addr_def)

lemma inj_show_ipv4: "show_ipv4 a = show_ipv4 b \<Longrightarrow> a = b"
  by (metis option.inject parse_ipv4_show)

lemma show_ipv4_chars: "c \<in> set (show_ipv4 a) \<Longrightarrow> ascii_digit c \<or> c = CHR ''.''"
proof -
  obtain w x y z where o: "octets a = [w, x, y, z]" by (auto simp: octets_def Let_def)
  assume "c \<in> set (show_ipv4 a)"
  then show ?thesis using show_nat_digits by (auto simp: show_ipv4_octets [OF o])
qed

end
