(* ===== verification/Host.thy ===== *)
theory Host
  imports Rust_Net
begin

text \<open>
  The operating system as the program sees it. Processes, files, the control socket of a running
  daemon, time and the terminal are not part of the program: a host is a record of functions on an
  abstract world, and every definition that uses one takes the host as an argument.
\<close>

section \<open>The interface\<close>

text \<open>\<^verbatim>\<open>std::fs::Metadata\<close>, the part the program reads.\<close>

record metadata =
  md_is_file :: bool
  md_uid :: u32
  md_mode :: u32

text \<open>\<^verbatim>\<open>std::process::Output\<close>.\<close>

record proc_output =
  status_success :: bool
  out_stdout :: string
  out_stderr :: string

text \<open>\<^verbatim>\<open>tokio::process::Command\<close> as the program configures it.\<close>

datatype stdio = StdioNull | StdioPiped

record command =
  program :: string
  cmd_args :: "string list"
  env_cleared :: bool
  working_dir :: string
  cmd_stdin :: stdio
  cmd_stdout :: stdio
  cmd_stderr :: stdio
  kill_on_drop :: bool

record 'w host =
  host_output :: "command \<Rightarrow> 'w \<Rightarrow> proc_output result \<times> 'w"
  host_output_stdin :: "command \<Rightarrow> string \<Rightarrow> 'w \<Rightarrow> proc_output result \<times> 'w"
  host_spawn :: "command \<Rightarrow> 'w \<Rightarrow> nat option result \<times> 'w"
  host_metadata :: "string \<Rightarrow> 'w \<Rightarrow> metadata option"
  host_read_file :: "string \<Rightarrow> 'w \<Rightarrow> string result"
  host_current_exe :: "'w \<Rightarrow> string result"
  host_exchange :: "nat option \<Rightarrow> string \<Rightarrow> 'w \<Rightarrow> string result \<times> 'w"
  host_sleep :: "nat \<Rightarrow> 'w \<Rightarrow> 'w"
  host_println :: "string \<Rightarrow> 'w \<Rightarrow> 'w"
  host_eprintln :: "string \<Rightarrow> 'w \<Rightarrow> 'w"

text \<open>
  \<^const>\<open>host_exchange\<close> connects to the control socket, writes the payload and reads one line of the
  answer; connecting and reading are under the timeout in seconds where one is given.
\<close>

section \<open>System calls as computations\<close>

definition sys_output :: "'w host \<Rightarrow> command \<Rightarrow> ('w, proc_output) cmd" where
  "sys_output h c w = Some (host_output h c w)"

definition sys_output_stdin :: "'w host \<Rightarrow> command \<Rightarrow> string \<Rightarrow> ('w, proc_output) cmd" where
  "sys_output_stdin h c input w = Some (host_output_stdin h c input w)"

definition sys_spawn :: "'w host \<Rightarrow> command \<Rightarrow> ('w, nat option) cmd" where
  "sys_spawn h c w = Some (host_spawn h c w)"

definition sys_metadata :: "'w host \<Rightarrow> string \<Rightarrow> ('w, metadata option) cmd" where
  "sys_metadata h path w = Some (Inr (host_metadata h path w), w)"

definition sys_read_file :: "'w host \<Rightarrow> string \<Rightarrow> ('w, string) cmd" where
  "sys_read_file h path w = Some (host_read_file h path w, w)"

definition sys_current_exe :: "'w host \<Rightarrow> ('w, string) cmd" where
  "sys_current_exe h w = Some (host_current_exe h w, w)"

definition sys_exchange :: "'w host \<Rightarrow> nat option \<Rightarrow> string \<Rightarrow> ('w, string) cmd" where
  "sys_exchange h limit payload w = Some (host_exchange h limit payload w)"

definition sys_sleep :: "'w host \<Rightarrow> nat \<Rightarrow> ('w, unit) cmd" where
  "sys_sleep h ms w = Some (Inr (), host_sleep h ms w)"

definition sys_println :: "'w host \<Rightarrow> string \<Rightarrow> ('w, unit) cmd" where
  "sys_println h line w = Some (Inr (), host_println h line w)"

definition sys_eprintln :: "'w host \<Rightarrow> string \<Rightarrow> ('w, unit) cmd" where
  "sys_eprintln h line w = Some (Inr (), host_eprintln h line w)"

text \<open>
  \<^verbatim>\<open>Display\<close> of an error in a log line. The errors that reach one are messages and errors of the
  operating system.
\<close>

fun error_text :: "error \<Rightarrow> string" where
  "error_text (Msg m) = m"
| "error_text (IoError m) = m"
| "error_text Elapsed = ''deadline has elapsed''"
| "error_text ParseIntError = ''invalid digit found in string''"
| "error_text AddrParseError = ''invalid socket address syntax''"

lemmas sys_defs = sys_output_def sys_output_stdin_def sys_spawn_def sys_metadata_def
  sys_read_file_def sys_current_exe_def sys_exchange_def sys_sleep_def sys_println_def sys_eprintln_def

section \<open>Reading bytes as text\<close>

text \<open>
  \<^verbatim>\<open>String::from_utf8_lossy\<close>: every maximal invalid sequence becomes U+FFFD.
\<close>

definition cont :: "char \<Rightarrow> bool" where
  "cont c \<longleftrightarrow> 128 \<le> byte c \<and> byte c \<le> 191"

text \<open>The second byte that a lead byte of three or four bytes admits.\<close>

definition second_ok :: "char \<Rightarrow> char \<Rightarrow> bool" where
  "second_ok a b \<longleftrightarrow>
     (if byte a = 224 then 160 \<le> byte b \<and> byte b \<le> 191
      else if byte a = 237 then 128 \<le> byte b \<and> byte b \<le> 159
      else if byte a = 240 then 144 \<le> byte b \<and> byte b \<le> 191
      else if byte a = 244 then 128 \<le> byte b \<and> byte b \<le> 143
      else cont b)"

definition lead_len :: "char \<Rightarrow> nat" where
  "lead_len a =
     (if byte a < 128 then 1
      else if 194 \<le> byte a \<and> byte a \<le> 223 then 2
      else if 224 \<le> byte a \<and> byte a \<le> 239 then 3
      else if 240 \<le> byte a \<and> byte a \<le> 244 then 4
      else 0)"

text \<open>How many bytes at the front agree with the sequence that the lead byte announces.\<close>

definition utf8_matched :: "string \<Rightarrow> nat" where
  "utf8_matched s =
     (case s of
        [] \<Rightarrow> 0
      | a # t \<Rightarrow>
          if lead_len a \<le> 1 then lead_len a
          else (case t of
                  [] \<Rightarrow> 1
                | b # u \<Rightarrow>
                    if (if lead_len a = 2 then cont b else second_ok a b)
                    then 2 + length (takeWhile cont (take (lead_len a - 2) u))
                    else 1))"

function from_utf8_lossy :: "string \<Rightarrow> string" where
  "from_utf8_lossy s =
     (case s of
        [] \<Rightarrow> []
      | a # _ \<Rightarrow>
          if 0 < lead_len a \<and> utf8_matched s = lead_len a
          then take (lead_len a) s @ from_utf8_lossy (drop (lead_len a) s)
          else [CHR 0xEF, CHR 0xBF, CHR 0xBD] @ from_utf8_lossy (drop (max 1 (utf8_matched s)) s))"
  by pat_completeness auto
termination
  by (relation "measure length") auto

declare from_utf8_lossy.simps [simp del]

lemma from_utf8_lossy_ascii: "(\<And>c. c \<in> set s \<Longrightarrow> byte c < 128) \<Longrightarrow> from_utf8_lossy s = s"
proof (induction s)
  case Nil
  then show ?case by (simp add: from_utf8_lossy.simps)
next
  case (Cons a s)
  then have "lead_len a = 1" and "utf8_matched (a # s) = 1"
    by (simp_all add: lead_len_def utf8_matched_def)
  with Cons show ?case by (subst from_utf8_lossy.simps) simp
qed

end
