(* ===== verification/Trust.thy ===== *)
theory Trust
  imports Host
begin

text \<open>
  Which executables the program is willing to run (\<^verbatim>\<open>src/src/trust.rs\<close>), and the search over a list
  of candidate paths that \<^verbatim>\<open>helper.rs\<close> and \<^verbatim>\<open>ipset.rs\<close> build on it.
\<close>

section \<open>Model\<close>

text \<open>The mode mask of the source is octal 022, the write bits of group and others.\<close>

definition is_trusted_binary :: "'w host \<Rightarrow> string \<Rightarrow> ('w, bool) cmd" where
  "is_trusted_binary h path =
     bindc (sys_metadata h path) (\<lambda>md.
       case md of
         None \<Rightarrow> ret False
       | Some m \<Rightarrow>
           if \<not> md_is_file m then ret False
           else if md_uid m \<noteq> 0 then ret False
           else if md_mode m AND 0x12 \<noteq> 0 then ret False
           else ret True)"

fun resolve_binary :: "'w host \<Rightarrow> string list \<Rightarrow> ('w, string) cmd" where
  "resolve_binary h [] = fail (Msg ''trusted binary not found'')"
| "resolve_binary h (candidate # rest) =
     bindc (is_trusted_binary h candidate) (\<lambda>t.
       if t then ret candidate else resolve_binary h rest)"

fun resolve_ipset_from :: "'w host \<Rightarrow> string list \<Rightarrow> ('w, string) cmd" where
  "resolve_ipset_from h [] = fail (Msg ''trusted ipset binary not found'')"
| "resolve_ipset_from h (candidate # rest) =
     bindc (is_trusted_binary h candidate) (\<lambda>t.
       if t then ret candidate else resolve_ipset_from h rest)"

section \<open>Laws\<close>

text \<open>A regular file of root that neither its group nor anybody else can write.\<close>

definition trusted_in :: "'w host \<Rightarrow> 'w \<Rightarrow> string \<Rightarrow> bool" where
  "trusted_in h w path \<longleftrightarrow>
     (\<exists>m. host_metadata h path w = Some m \<and> md_is_file m \<and> md_uid m = 0 \<and>
          \<not> bit (md_mode m) 1 \<and> \<not> bit (md_mode m) 4)"

lemma group_other_write_bits: "(m :: u32) AND 0x12 = 0 \<longleftrightarrow> \<not> bit m 1 \<and> \<not> bit m 4"
proof -
  have mask: "bit (0x12 :: u32) n \<longleftrightarrow> n = 1 \<or> n = 4" for n
  proof -
    have "(0x12 :: u32) = set_bit 1 (set_bit 4 0)" by (simp add: set_bit_eq_or)
    then have "bit (0x12 :: u32) n = bit (set_bit 1 (set_bit 4 (0 :: u32))) n" by (rule arg_cong)
    also have "\<dots> \<longleftrightarrow> n = 1 \<or> n = 4" unfolding bit_set_bit_iff by auto
    finally show ?thesis .
  qed
  have "m AND 0x12 = 0 \<longleftrightarrow> (\<forall>n. \<not> (bit m n \<and> bit (0x12 :: u32) n))"
    by (auto simp: bit_eq_iff bit_and_iff)
  then show ?thesis unfolding mask by blast
qed

lemma is_trusted_binary_eq: "is_trusted_binary h path w = Some (Inr (trusted_in h w path), w)"
  unfolding is_trusted_binary_def trusted_in_def group_other_write_bits
  by (auto simp: bindc_def sys_metadata_def ret_def split: option.splits)

lemma resolve_binary_eq:
  "resolve_binary h cs w =
     Some (case find (trusted_in h w) cs of
             Some c \<Rightarrow> Inr c | None \<Rightarrow> Inl (Msg ''trusted binary not found''), w)"
  by (induction cs) (auto simp: bindc_def is_trusted_binary_eq ret_def fail_def)

lemma resolve_ipset_from_eq:
  "resolve_ipset_from h cs w =
     Some (case find (trusted_in h w) cs of
             Some c \<Rightarrow> Inr c | None \<Rightarrow> Inl (Msg ''trusted ipset binary not found''), w)"
  by (induction cs) (auto simp: bindc_def is_trusted_binary_eq ret_def fail_def)

lemma resolve_binary_trusted:
  "resolve_binary h cs w = Some (Inr b, w') \<Longrightarrow> b \<in> set cs \<and> trusted_in h w b \<and> w' = w"
  by (auto simp: resolve_binary_eq find_Some_iff split: option.splits)

lemma keeps_resolve_binary [keeps_intros]: "keeps I (resolve_binary h cs)"
  by (simp add: keeps_def resolve_binary_eq)

lemma keeps_resolve_ipset_from [keeps_intros]: "keeps I (resolve_ipset_from h cs)"
  by (simp add: keeps_def resolve_ipset_from_eq)

end
