(* ===== verification/Helper_Cmd.thy ===== *)
theory Helper_Cmd
  imports Trust
begin

text \<open>
  Running external programs (\<^verbatim>\<open>src/src/helper.rs\<close>, from \<^verbatim>\<open>ensure_chain\<close> to the end): the two ways to
  run a command, the failure message, the deletion form of a rule command, and the two operations on
  rules and chains that everything else is built from.
\<close>

section \<open>Model\<close>

definition DOCKER_CANDIDATES :: "string list" where
  "DOCKER_CANDIDATES = [''/usr/bin/docker'', ''/bin/docker'', ''/usr/local/bin/docker'']"

definition IPTABLES_CANDIDATES :: "string list" where
  "IPTABLES_CANDIDATES = [''/usr/sbin/iptables'', ''/sbin/iptables'']"

definition IP6TABLES_CANDIDATES :: "string list" where
  "IP6TABLES_CANDIDATES = [''/usr/sbin/ip6tables'', ''/sbin/ip6tables'']"

definition IP_CANDIDATES :: "string list" where
  "IP_CANDIDATES = [''/usr/sbin/ip'', ''/sbin/ip'', ''/usr/bin/ip'']"

definition helper_command :: "string \<Rightarrow> string list \<Rightarrow> command" where
  "helper_command binary args =
     \<lparr>program = binary, cmd_args = args, env_cleared = True, working_dir = ''/'',
      cmd_stdin = StdioNull, cmd_stdout = StdioPiped, cmd_stderr = StdioPiped, kill_on_drop = True\<rparr>"

definition run_command_allow_failure :: "'w host \<Rightarrow> string \<Rightarrow> string list \<Rightarrow> ('w, proc_output) cmd" where
  "run_command_allow_failure h binary args = sys_output h (helper_command binary args)"

definition command_failure_message :: "proc_output \<Rightarrow> string" where
  "command_failure_message res =
     (let stderr = trim (from_utf8_lossy (out_stderr res));
          stdout = trim (from_utf8_lossy (out_stdout res))
      in if stderr = [] \<and> stdout = [] then ''command failed''
         else if stdout = [] then ''command failed: '' @ stderr
         else if stderr = [] then ''command failed: stdout: '' @ stdout
         else ''command failed: '' @ stderr @ ''; stdout: '' @ stdout)"

definition run_command_checked :: "'w host \<Rightarrow> string \<Rightarrow> string list \<Rightarrow> ('w, proc_output) cmd" where
  "run_command_checked h binary args =
     bindc (run_command_allow_failure h binary args) (\<lambda>res.
       if status_success res then ret res else fail (Msg (command_failure_message res)))"

fun position :: "('a \<Rightarrow> bool) \<Rightarrow> 'a list \<Rightarrow> nat option" where
  "position p [] = None"
| "position p (x # xs) = (if p x then Some 0 else map_option Suc (position p xs))"

definition remove_at :: "nat \<Rightarrow> 'a list \<Rightarrow> 'a list" where
  "remove_at i xs = take i xs @ drop (Suc i) xs"

definition delete_args :: "string list \<Rightarrow> string list" where
  "delete_args insert_args =
     (case position (\<lambda>arg. arg = ''-I'' \<or> arg = ''-A'') insert_args of
        None \<Rightarrow> insert_args
      | Some operation_index \<Rightarrow>
          (let args = insert_args[operation_index := ''-D''];
               position_index = operation_index + 2
           in if position_index < length args \<and> parse_u32 (args ! position_index) \<noteq> None
              then remove_at position_index args
              else args))"

text \<open>The deletion loop runs until the command fails, so it may not end.\<close>

partial_function (option) remove_rule_all :: "'w host \<Rightarrow> string \<Rightarrow> string list \<Rightarrow> ('w, unit) cmd" where
  "remove_rule_all h binary args w =
     (case run_command_allow_failure h binary args w of
        None \<Rightarrow> None
      | Some (Inl e, w') \<Rightarrow> Some (Inl e, w')
      | Some (Inr res, w') \<Rightarrow>
          if \<not> status_success res then Some (Inr (), w') else remove_rule_all h binary args w')"

definition ensure_rule_present :: "'w host \<Rightarrow> string \<Rightarrow> string list \<Rightarrow> ('w, unit) cmd" where
  "ensure_rule_present h binary args =
     bindc (remove_rule_all h binary (delete_args args)) (\<lambda>_.
     bindc (run_command_checked h binary args) (\<lambda>_. ret ()))"

definition ensure_chain :: "'w host \<Rightarrow> string \<Rightarrow> string \<Rightarrow> ('w, unit) cmd" where
  "ensure_chain h binary name =
     bindc (run_command_allow_failure h binary [''-N'', name]) (\<lambda>create_result.
       if status_success create_result then ret ()
       else
         bindc (run_command_allow_failure h binary [''-S'', name]) (\<lambda>exists_result.
           if status_success exists_result then ret ()
           else fail (Msg (''failed to create iptables chain '' @ name @ '': '' @
                  command_failure_message create_result))))"

section \<open>Laws\<close>

lemma run_command_allow_failure_apply:
  "run_command_allow_failure h binary args w = Some (host_output h (helper_command binary args) w)"
  by (simp add: run_command_allow_failure_def sys_output_def)

lemma delete_args_insert_at:
  assumes "\<And>a. a \<in> set pre \<Longrightarrow> a \<noteq> ''-I'' \<and> a \<noteq> ''-A''" and "parse_u32 pos \<noteq> None"
  shows "delete_args (pre @ ''-I'' # chain # pos # spec) = pre @ ''-D'' # chain # spec"
proof -
  have "position (\<lambda>arg. arg = ''-I'' \<or> arg = ''-A'') (pre @ ''-I'' # chain # pos # spec) = Some (length pre)"
    using assms(1) by (induction pre) auto
  moreover have "(pre @ ''-I'' # chain # pos # spec)[length pre := ''-D''] = pre @ ''-D'' # chain # pos # spec"
    by (simp add: list_update_append)
  moreover have "(pre @ ''-D'' # chain # pos # spec) ! (length pre + 2) = pos"
    by (simp add: nth_append)
  moreover have "remove_at (length pre + 2) (pre @ ''-D'' # chain # pos # spec) = pre @ ''-D'' # chain # spec"
    by (simp add: remove_at_def numeral_2_eq_2)
  ultimately show ?thesis using assms(2) by (simp add: delete_args_def Let_def)
qed

lemma delete_args_insert:
  assumes "\<And>a. a \<in> set pre \<Longrightarrow> a \<noteq> ''-I'' \<and> a \<noteq> ''-A''" and "parse_u32 s = None"
  shows "delete_args (pre @ ''-I'' # chain # s # spec) = pre @ ''-D'' # chain # s # spec"
proof -
  have "position (\<lambda>arg. arg = ''-I'' \<or> arg = ''-A'') (pre @ ''-I'' # chain # s # spec) = Some (length pre)"
    using assms(1) by (induction pre) auto
  moreover have "(pre @ ''-I'' # chain # s # spec)[length pre := ''-D''] = pre @ ''-D'' # chain # s # spec"
    by (simp add: list_update_append)
  moreover have "(pre @ ''-D'' # chain # s # spec) ! (length pre + 2) = s"
    by (simp add: nth_append)
  ultimately show ?thesis using assms(2) by (simp add: delete_args_def Let_def)
qed

lemma remove_rule_all_step:
  "remove_rule_all h binary args w =
     (case host_output h (helper_command binary args) w of
        (Inl e, w') \<Rightarrow> Some (Inl e, w')
      | (Inr res, w') \<Rightarrow> if status_success res then remove_rule_all h binary args w' else Some (Inr (), w'))"
  by (subst remove_rule_all.simps)
    (auto simp: run_command_allow_failure_apply split: prod.splits sum.splits)

lemma keeps_remove_rule_all:
  assumes "keeps I (run_command_allow_failure h binary args)"
  shows "keeps I (remove_rule_all h binary args)"
proof (rule keepsI)
  fix w r w' assume "I w" and "remove_rule_all h binary args w = Some (r, w')"
  from this(2) have "keeps I (run_command_allow_failure h binary args) \<longrightarrow> I w \<longrightarrow> I (snd (r, w'))"
    by (rule remove_rule_all.raw_induct
        [where P = "\<lambda>h b args w y. keeps I (run_command_allow_failure h b args) \<longrightarrow> I w \<longrightarrow> I (snd y)", rotated])
      (fastforce dest: keepsD split: option.splits sum.splits if_splits)
  then show "I w'" using assms \<open>I w\<close> by simp
qed

end
