(* ===== verification/Netfilter.thy ===== *)
theory Netfilter
  imports Helper_Cmd
begin

text \<open>
  What the program relies on from \<^verbatim>\<open>iptables\<close> and \<^verbatim>\<open>ip6tables\<close>. The packet filter is not part of the
  repository: its chains, its reading of a rule specification and its matching are the fields of a
  parameter, and the behaviour its manual documents is a named hypothesis. Nothing here models how
  the tools work inside.
\<close>

section \<open>The parameter\<close>

datatype family = Inet | Inet6

type_synonym chain_key = "family \<times> string \<times> string"

text \<open>
  \<open>nf_chains\<close> gives the rules of a chain of a table; \<open>nf_rule\<close> reads a specification as a rule of
  some unknown type; \<open>nf_match\<close> and \<open>nf_target\<close> say what a rule does with a packet, \<open>nf_frag\<close> what one
  option of a specification asks of a packet, and \<open>nf_comments\<close> which comments a rule carries;
  \<open>nf_valid\<close> says which specifications the tool accepts in a chain.
\<close>

record ('w, 'r, 'p) netfilter =
  nf_chains :: "'w \<Rightarrow> chain_key \<Rightarrow> 'r list option"
  nf_rule :: "string list \<Rightarrow> 'r"
  nf_match :: "'w \<Rightarrow> 'r \<Rightarrow> 'p \<Rightarrow> bool"
  nf_target :: "'r \<Rightarrow> string list"
  nf_frag :: "'w \<Rightarrow> string list \<Rightarrow> 'p \<Rightarrow> bool"
  nf_comments :: "'r \<Rightarrow> string set"
  nf_valid :: "'w \<Rightarrow> chain_key \<Rightarrow> string list \<Rightarrow> bool"

definition family_of :: "string \<Rightarrow> family" where
  "family_of binary = (if binary \<in> set IP6TABLES_CANDIDATES then Inet6 else Inet)"

text \<open>The options that select the table, and the position an insertion asks for.\<close>

definition table_args :: "string \<Rightarrow> string list" where
  "table_args t = (if t = ''filter'' then [] else [''-t'', t])"

definition insert_at :: "nat \<Rightarrow> 'a \<Rightarrow> 'a list \<Rightarrow> 'a list" where
  "insert_at n x xs = take n xs @ x # drop n xs"

section \<open>The documented options\<close>

abbreviation frag_source :: "string \<Rightarrow> string list" where
  "frag_source cidr \<equiv> [''-s'', cidr]"

abbreviation frag_dest :: "string \<Rightarrow> string list" where
  "frag_dest cidr \<equiv> [''-d'', cidr]"

abbreviation frag_comment :: "string \<Rightarrow> string list" where
  "frag_comment c \<equiv> [''-m'', ''comment'', ''--comment'', c]"

abbreviation frag_established :: "string list" where
  "frag_established \<equiv> [''-m'', ''conntrack'', ''--ctstate'', ''ESTABLISHED,RELATED'']"

abbreviation frag_set :: "string \<Rightarrow> string list" where
  "frag_set name \<equiv> [''-m'', ''set'', ''--match-set'', name, ''dst'']"

definition one_value_options :: "string list" where
  "one_value_options = [''-s'', ''-d'', ''-p'', ''--dport'', ''-o'']"

definition modules :: "(string \<times> string) list" where
  "modules = [(''comment'', ''--comment''), (''conntrack'', ''--ctstate''), (''icmp6'', ''--icmpv6-type'')]"

definition fragment :: "string list \<Rightarrow> bool" where
  "fragment f =
     (case f of
        [opt, _] \<Rightarrow> opt \<in> set one_value_options
      | [m, md, opt, _] \<Rightarrow> m = ''-m'' \<and> (md, opt) \<in> set modules
      | [m, md, opt, _, dir] \<Rightarrow> m = ''-m'' \<and> md = ''set'' \<and> opt = ''--match-set'' \<and> dir = ''dst''
      | _ \<Rightarrow> False)"

text \<open>A specification: options, then the target.\<close>

definition spec_of :: "string list list \<times> string list \<Rightarrow> string list" where
  "spec_of r = concat (fst r) @ ''-j'' # snd r"

definition spec_ok :: "string list list \<times> string list \<Rightarrow> bool" where
  "spec_ok r \<longleftrightarrow> list_all fragment (fst r) \<and> snd r \<noteq> []"

text \<open>
  How rules are read: the options of a specification are a conjunction, a comment matches every
  packet and stays with the rule, and the target is what follows \<^verbatim>\<open>-j\<close>.
\<close>

definition match_laws :: "('w, 'r, 'p) netfilter \<Rightarrow> bool" where
  "match_laws nf \<longleftrightarrow>
     (\<forall>w r p. spec_ok r \<longrightarrow>
        nf_match nf w (nf_rule nf (spec_of r)) p = (\<forall>f \<in> set (fst r). nf_frag nf w f p)) \<and>
     (\<forall>r. spec_ok r \<longrightarrow> nf_target nf (nf_rule nf (spec_of r)) = snd r) \<and>
     (\<forall>r. spec_ok r \<longrightarrow> nf_comments nf (nf_rule nf (spec_of r)) = {c. frag_comment c \<in> set (fst r)}) \<and>
     (\<forall>w c p. nf_frag nf w (frag_comment c) p)"

text \<open>
  A command on chains leaves matching as it was, and what was acceptable before is acceptable after it.
\<close>

definition same_filter :: "('w, 'r, 'p) netfilter \<Rightarrow> 'w \<Rightarrow> 'w \<Rightarrow> bool" where
  "same_filter nf w w' \<longleftrightarrow>
     nf_frag nf w' = nf_frag nf w \<and> nf_match nf w' = nf_match nf w \<and>
     (\<forall>key spec. nf_valid nf w key spec \<longrightarrow> nf_valid nf w' key spec)"

definition iptables_result ::
  "'w host \<Rightarrow> ('w, 'r, 'p) netfilter \<Rightarrow> string \<Rightarrow> string list \<Rightarrow> 'w \<Rightarrow> bool
     \<Rightarrow> (chain_key \<Rightarrow> 'r list option) \<Rightarrow> bool" where
  "iptables_result h nf b args w good cs \<longleftrightarrow>
     (\<exists>res w'. host_output h (helper_command b args) w = (Inr res, w') \<and>
        status_success res = good \<and> nf_chains nf w' = cs \<and> same_filter nf w w')"

text \<open>
  The commands: insertion at a position that exists, deletion of the first rule that equals the
  specification, creation of a chain, and the listing that tells whether a chain exists. A failing
  command changes nothing.
\<close>

definition iptables_binary :: "string \<Rightarrow> bool" where
  "iptables_binary b \<longleftrightarrow> b \<in> set IPTABLES_CANDIDATES \<union> set IP6TABLES_CANDIDATES"

definition insert_at_law :: "'w host \<Rightarrow> ('w, 'r, 'p) netfilter \<Rightarrow> bool" where
  "insert_at_law h nf \<longleftrightarrow>
     (\<forall>b t ch w spec rs n. iptables_binary b \<longrightarrow> nf_valid nf w (family_of b, t, ch) spec \<longrightarrow>
        nf_chains nf w (family_of b, t, ch) = Some rs \<longrightarrow> n \<le> length rs \<longrightarrow>
        iptables_result h nf b (table_args t @ ''-I'' # ch # show_nat (Suc n) # spec) w True
          ((nf_chains nf w)((family_of b, t, ch) \<mapsto> insert_at n (nf_rule nf spec) rs)))"

definition insert_law :: "'w host \<Rightarrow> ('w, 'r, 'p) netfilter \<Rightarrow> bool" where
  "insert_law h nf \<longleftrightarrow>
     (\<forall>b t ch w r rs. iptables_binary b \<longrightarrow> spec_ok r \<longrightarrow> nf_valid nf w (family_of b, t, ch) (spec_of r) \<longrightarrow>
        nf_chains nf w (family_of b, t, ch) = Some rs \<longrightarrow>
        iptables_result h nf b (table_args t @ ''-I'' # ch # spec_of r) w True
          ((nf_chains nf w)((family_of b, t, ch) \<mapsto> nf_rule nf (spec_of r) # rs)))"

definition delete_law :: "'w host \<Rightarrow> ('w, 'r, 'p) netfilter \<Rightarrow> bool" where
  "delete_law h nf \<longleftrightarrow>
     (\<forall>b t ch w spec rs. iptables_binary b \<longrightarrow> nf_valid nf w (family_of b, t, ch) spec \<longrightarrow>
        nf_chains nf w (family_of b, t, ch) = Some rs \<longrightarrow>
        iptables_result h nf b (table_args t @ ''-D'' # ch # spec) w (nf_rule nf spec \<in> set rs)
          ((nf_chains nf w)((family_of b, t, ch) \<mapsto> remove1 (nf_rule nf spec) rs)))"

text \<open>
  Names that a chain of the user may have: at most 28 characters, no leading hyphen or exclamation mark, and
  not the name of a target, of which none has a hyphen.
\<close>

definition user_chain_name :: "string \<Rightarrow> bool" where
  "user_chain_name ch \<longleftrightarrow>
     length ch \<le> 28 \<and> CHR ''-'' \<in> set ch \<and> hd ch \<noteq> CHR ''-'' \<and> hd ch \<noteq> CHR ''!''"

definition chain_law :: "'w host \<Rightarrow> ('w, 'r, 'p) netfilter \<Rightarrow> bool" where
  "chain_law h nf \<longleftrightarrow>
     (\<forall>b ch w. iptables_binary b \<longrightarrow> user_chain_name ch \<longrightarrow>
        (let key = (family_of b, ''filter'', ch) in
         iptables_result h nf b [''-N'', ch] w (nf_chains nf w key = None)
           (if nf_chains nf w key = None then (nf_chains nf w)(key \<mapsto> []) else nf_chains nf w) \<and>
         iptables_result h nf b [''-S'', ch] w (nf_chains nf w key \<noteq> None) (nf_chains nf w)))"

text \<open>
  A rule of a built-in chain may jump to any existing chain of the user, where its options are acceptable.
\<close>

definition builtin_chains :: "string list" where
  "builtin_chains = [''INPUT'', ''FORWARD'', ''OUTPUT'', ''PREROUTING'', ''POSTROUTING'']"

definition jump_law :: "('w, 'r, 'p) netfilter \<Rightarrow> bool" where
  "jump_law nf \<longleftrightarrow>
     (\<forall>w f c ch fs. c \<in> set builtin_chains \<longrightarrow> ch \<notin> set builtin_chains \<longrightarrow>
        nf_chains nf w (f, ''filter'', ch) \<noteq> None \<longrightarrow> spec_ok (fs, [ch]) \<longrightarrow>
        nf_valid nf w (f, ''filter'', c) (spec_of (fs, [''ACCEPT''])) \<longrightarrow>
        nf_valid nf w (f, ''filter'', c) (spec_of (fs, [ch])))"

definition iptables_laws :: "'w host \<Rightarrow> ('w, 'r, 'p) netfilter \<Rightarrow> bool" where
  "iptables_laws h nf \<longleftrightarrow> insert_at_law h nf \<and> insert_law h nf \<and> delete_law h nf \<and> chain_law h nf \<and> jump_law nf"

section \<open>Consequences\<close>

lemma match_laws_rule:
  assumes "match_laws nf" and "spec_ok r"
  shows "nf_match nf w (nf_rule nf (spec_of r)) p \<longleftrightarrow> (\<forall>f \<in> set (fst r). nf_frag nf w f p)"
    and "nf_target nf (nf_rule nf (spec_of r)) = snd r"
    and "nf_comments nf (nf_rule nf (spec_of r)) = {c. frag_comment c \<in> set (fst r)}"
  using assms unfolding match_laws_def by blast+

lemma match_laws_comment: "match_laws nf \<Longrightarrow> nf_frag nf w (frag_comment c) p"
  unfolding match_laws_def by blast

lemma same_filter_refl: "same_filter nf w w"
  by (simp add: same_filter_def)

lemma same_filter_trans: "same_filter nf u v \<Longrightarrow> same_filter nf v w \<Longrightarrow> same_filter nf u w"
  by (simp add: same_filter_def)

lemma same_filter_valid: "same_filter nf w w' \<Longrightarrow> nf_valid nf w key spec \<Longrightarrow> nf_valid nf w' key spec"
  unfolding same_filter_def by blast

lemma iptables_resultE:
  assumes "iptables_result h nf b args w good cs"
  obtains res w' where "host_output h (helper_command b args) w = (Inr res, w')"
    and "status_success res = good" and "same_filter nf w w'" and "nf_chains nf w' = cs"
  using assms unfolding iptables_result_def by blast

lemma iptables_delete:
  assumes "iptables_laws h nf" and "iptables_binary b"
    and "nf_valid nf w (family_of b, t, ch) spec" and "nf_chains nf w (family_of b, t, ch) = Some rs"
  shows "iptables_result h nf b (table_args t @ ''-D'' # ch # spec) w (nf_rule nf spec \<in> set rs)
     ((nf_chains nf w)((family_of b, t, ch) \<mapsto> remove1 (nf_rule nf spec) rs))"
  using assms unfolding iptables_laws_def delete_law_def by blast

lemma iptables_insert_at:
  assumes "iptables_laws h nf" and "iptables_binary b"
    and "nf_valid nf w (family_of b, t, ch) spec" and "nf_chains nf w (family_of b, t, ch) = Some rs"
    and "n \<le> length rs"
  shows "iptables_result h nf b (table_args t @ ''-I'' # ch # show_nat (Suc n) # spec) w True
     ((nf_chains nf w)((family_of b, t, ch) \<mapsto> insert_at n (nf_rule nf spec) rs))"
  using assms unfolding iptables_laws_def insert_at_law_def by blast

lemma iptables_insert:
  assumes "iptables_laws h nf" and "iptables_binary b"
    and "spec_ok r" and "nf_valid nf w (family_of b, t, ch) (spec_of r)"
    and "nf_chains nf w (family_of b, t, ch) = Some rs"
  shows "iptables_result h nf b (table_args t @ ''-I'' # ch # spec_of r) w True
     ((nf_chains nf w)((family_of b, t, ch) \<mapsto> nf_rule nf (spec_of r) # rs))"
  using assms unfolding iptables_laws_def insert_law_def by blast

lemma iptables_new_chain:
  assumes "iptables_laws h nf" and "iptables_binary b" and "user_chain_name ch"
  shows "iptables_result h nf b [''-N'', ch] w (nf_chains nf w (family_of b, ''filter'', ch) = None)
     (if nf_chains nf w (family_of b, ''filter'', ch) = None
      then (nf_chains nf w)((family_of b, ''filter'', ch) \<mapsto> []) else nf_chains nf w)"
    and "iptables_result h nf b [''-S'', ch] w (nf_chains nf w (family_of b, ''filter'', ch) \<noteq> None)
     (nf_chains nf w)"
  using assms unfolding iptables_laws_def chain_law_def Let_def by blast+

lemma iptables_jump:
  assumes "iptables_laws h nf" and "c \<in> set builtin_chains" and "ch \<notin> set builtin_chains"
    and "nf_chains nf w (f, ''filter'', ch) \<noteq> None" and "spec_ok (fs, [ch])"
    and "nf_valid nf w (f, ''filter'', c) (spec_of (fs, [''ACCEPT'']))"
  shows "nf_valid nf w (f, ''filter'', c) (spec_of (fs, [ch]))"
  using assms unfolding iptables_laws_def jump_law_def by blast

text \<open>The deletion loop ends, and every copy of the rule is gone.\<close>

lemma remove_rule_all_runs:
  assumes laws: "iptables_laws h nf" and b: "iptables_binary b"
    and "nf_valid nf w key spec" and "nf_chains nf w key = Some rs" and key: "key = (family_of b, t, ch)"
  shows "\<exists>w'. remove_rule_all h b (table_args t @ ''-D'' # ch # spec) w = Some (Inr (), w') \<and>
     nf_chains nf w' = (nf_chains nf w)(key \<mapsto> removeAll (nf_rule nf spec) rs) \<and> same_filter nf w w'"
  using assms(3,4)
proof (induction "length rs" arbitrary: w rs rule: less_induct)
  case less
  let ?r = "nf_rule nf spec" and ?args = "table_args t @ ''-D'' # ch # spec"
  obtain res w1 where run: "host_output h (helper_command b ?args) w = (Inr res, w1)"
    and ok: "status_success res = (?r \<in> set rs)"
    and w1: "nf_chains nf w1 = (nf_chains nf w)(key \<mapsto> remove1 ?r rs)" and same: "same_filter nf w w1"
    using iptables_delete [OF laws b, of w t ch spec rs] less.prems unfolding key iptables_result_def by auto
  show ?case
  proof (cases "?r \<in> set rs")
    case False
    then have "remove1 ?r rs = rs" "removeAll ?r rs = rs" by (simp_all add: remove1_idem)
    then show ?thesis using run ok w1 same False by (subst remove_rule_all_step) simp
  next
    case True
    then have shorter: "length (remove1 ?r rs) < length rs"
      by (metis length_remove1 diff_less length_pos_if_in_set zero_less_one)
    have "nf_valid nf w1 key spec" using less.prems(1) same by (blast intro: same_filter_valid)
    then obtain w' where "remove_rule_all h b ?args w1 = Some (Inr (), w')"
      "nf_chains nf w' = (nf_chains nf w1)(key \<mapsto> removeAll ?r (remove1 ?r rs))" "same_filter nf w1 w'"
      using less.hyps [OF shorter, of w1] by (auto simp: w1)
    moreover have "removeAll ?r (remove1 ?r rs) = removeAll ?r rs" by (induction rs) auto
    ultimately show ?thesis using run ok same True
      by (subst remove_rule_all_step) (auto simp: w1 intro: same_filter_trans)
  qed
qed

lemma run_command_checked_result:
  assumes "iptables_result h nf b args w True cs"
  shows "\<exists>res w'. run_command_checked h b args w = Some (Inr res, w') \<and> nf_chains nf w' = cs \<and> same_filter nf w w'"
  using assms
  by (auto simp: iptables_result_def run_command_checked_def bindc_def run_command_allow_failure_apply ret_def)

lemma table_args_no_op: "t \<noteq> ''-I'' \<Longrightarrow> t \<noteq> ''-A'' \<Longrightarrow> a \<in> set (table_args t) \<Longrightarrow> a \<noteq> ''-I'' \<and> a \<noteq> ''-A''"
  by (auto simp: table_args_def split: if_splits)

lemma parse_u32_position: "n < 4294967295 \<Longrightarrow> parse_u32 (show_nat (Suc n)) \<noteq> None"
  using parse_u32_show [of "of_nat (Suc n)"] unat_of_nat_u32 [of "Suc n"] by auto

text \<open>Ensuring a rule at a position: all old copies go, one new copy arrives.\<close>

lemma ensure_rule_present_at:
  assumes laws: "iptables_laws h nf" and b: "iptables_binary b"
    and valid: "nf_valid nf w key spec" and rs: "nf_chains nf w key = Some rs"
    and key: "key = (family_of b, t, ch)" and t: "t \<noteq> ''-I''" "t \<noteq> ''-A''"
    and n: "n \<le> length (removeAll (nf_rule nf spec) rs)" "n < 4294967295"
  shows "\<exists>w'. ensure_rule_present h b (table_args t @ ''-I'' # ch # show_nat (Suc n) # spec) w = Some (Inr (), w') \<and>
     nf_chains nf w' = (nf_chains nf w)(key \<mapsto> insert_at n (nf_rule nf spec) (removeAll (nf_rule nf spec) rs)) \<and>
     same_filter nf w w'"
proof -
  have del: "delete_args (table_args t @ ''-I'' # ch # show_nat (Suc n) # spec) = table_args t @ ''-D'' # ch # spec"
    by (rule delete_args_insert_at [OF table_args_no_op [OF t] parse_u32_position [OF n(2)]])
  obtain w1 where w1: "remove_rule_all h b (table_args t @ ''-D'' # ch # spec) w = Some (Inr (), w1)"
    "nf_chains nf w1 = (nf_chains nf w)(key \<mapsto> removeAll (nf_rule nf spec) rs)" "same_filter nf w w1"
    using remove_rule_all_runs [OF laws b valid rs key] by blast
  have "nf_valid nf w1 key spec" using valid w1(3) by (blast intro: same_filter_valid)
  moreover have "nf_chains nf w1 key = Some (removeAll (nf_rule nf spec) rs)" using w1(2) by simp
  ultimately have "iptables_result h nf b (table_args t @ ''-I'' # ch # show_nat (Suc n) # spec) w1 True
      ((nf_chains nf w1)(key \<mapsto> insert_at n (nf_rule nf spec) (removeAll (nf_rule nf spec) rs)))"
    unfolding key by (rule iptables_insert_at [OF laws b _ _ n(1)])
  then obtain res w2 where "run_command_checked h b (table_args t @ ''-I'' # ch # show_nat (Suc n) # spec) w1 = Some (Inr res, w2)"
    "nf_chains nf w2 = (nf_chains nf w1)(key \<mapsto> insert_at n (nf_rule nf spec) (removeAll (nf_rule nf spec) rs))"
    "same_filter nf w1 w2"
    by (blast dest: run_command_checked_result)
  with w1 show ?thesis
    by (auto simp: ensure_rule_present_def bindc_def del ret_def intro: same_filter_trans)
qed

text \<open>The same without a position: the rule goes to the front.\<close>

lemma ensure_rule_present_front:
  assumes laws: "iptables_laws h nf" and b: "iptables_binary b"
    and valid: "nf_valid nf w key (spec_of r)" and rs: "nf_chains nf w key = Some rs"
    and key: "key = (family_of b, t, ch)" and t: "t \<noteq> ''-I''" "t \<noteq> ''-A''"
    and r: "spec_ok r" "spec_of r = s # rest" "parse_u32 s = None"
  shows "\<exists>w'. ensure_rule_present h b (table_args t @ ''-I'' # ch # spec_of r) w = Some (Inr (), w') \<and>
     nf_chains nf w' = (nf_chains nf w)(key \<mapsto> nf_rule nf (spec_of r) # removeAll (nf_rule nf (spec_of r)) rs) \<and>
     same_filter nf w w'"
proof -
  have del: "delete_args (table_args t @ ''-I'' # ch # spec_of r) = table_args t @ ''-D'' # ch # spec_of r"
    unfolding r(2) by (rule delete_args_insert [OF table_args_no_op [OF t] r(3)])
  obtain w1 where w1: "remove_rule_all h b (table_args t @ ''-D'' # ch # spec_of r) w = Some (Inr (), w1)"
    "nf_chains nf w1 = (nf_chains nf w)(key \<mapsto> removeAll (nf_rule nf (spec_of r)) rs)" "same_filter nf w w1"
    using remove_rule_all_runs [OF laws b valid rs key] by blast
  have "nf_valid nf w1 key (spec_of r)" using valid w1(3) by (blast intro: same_filter_valid)
  moreover have "nf_chains nf w1 key = Some (removeAll (nf_rule nf (spec_of r)) rs)" using w1(2) by simp
  ultimately have "iptables_result h nf b (table_args t @ ''-I'' # ch # spec_of r) w1 True
      ((nf_chains nf w1)(key \<mapsto> nf_rule nf (spec_of r) # removeAll (nf_rule nf (spec_of r)) rs))"
    unfolding key by (rule iptables_insert [OF laws b r(1)])
  then obtain res w2 where "run_command_checked h b (table_args t @ ''-I'' # ch # spec_of r) w1 = Some (Inr res, w2)"
    "nf_chains nf w2 = (nf_chains nf w1)(key \<mapsto> nf_rule nf (spec_of r) # removeAll (nf_rule nf (spec_of r)) rs)"
    "same_filter nf w1 w2"
    by (blast dest: run_command_checked_result)
  with w1 show ?thesis
    by (auto simp: ensure_rule_present_def bindc_def del ret_def intro: same_filter_trans)
qed

lemma ensure_chain_runs:
  assumes "iptables_laws h nf" and "iptables_binary b" and "user_chain_name ch"
  shows "\<exists>w'. ensure_chain h b ch w = Some (Inr (), w') \<and> same_filter nf w w' \<and>
     nf_chains nf w' =
       (if nf_chains nf w (family_of b, ''filter'', ch) = None
        then (nf_chains nf w)((family_of b, ''filter'', ch) \<mapsto> []) else nf_chains nf w)"
proof -
  let ?key = "(family_of b, ''filter'', ch)"
  obtain res w1 where w1: "host_output h (helper_command b [''-N'', ch]) w = (Inr res, w1)"
    "status_success res = (nf_chains nf w ?key = None)" "same_filter nf w w1"
    "nf_chains nf w1 = (if nf_chains nf w ?key = None then (nf_chains nf w)(?key \<mapsto> []) else nf_chains nf w)"
    using iptables_new_chain(1) [OF assms, of w] by (rule iptables_resultE)
  obtain res' w2 where w2: "host_output h (helper_command b [''-S'', ch]) w1 = (Inr res', w2)"
    "status_success res' = (nf_chains nf w1 ?key \<noteq> None)" "same_filter nf w1 w2" "nf_chains nf w2 = nf_chains nf w1"
    using iptables_new_chain(2) [OF assms, of w1] by (rule iptables_resultE)
  show ?thesis
  proof (cases "nf_chains nf w ?key = None")
    case True
    then show ?thesis using w1 by (auto simp: ensure_chain_def bindc_def run_command_allow_failure_apply ret_def)
  next
    case False
    then show ?thesis using w1 w2 same_filter_trans [OF w1(3) w2(3)]
      by (auto simp: ensure_chain_def bindc_def run_command_allow_failure_apply ret_def)
  qed
qed

section \<open>Blocks of rules\<close>

text \<open>The rules of a list, placed one below the other from a position on.\<close>

definition block_commands ::
  "'w host \<Rightarrow> string \<Rightarrow> string \<Rightarrow> string \<Rightarrow> nat \<Rightarrow> (string list list \<times> string list) list \<Rightarrow> ('w, unit) cmd list" where
  "block_commands h b t ch i rules =
     map (\<lambda>(j, r). ensure_rule_present h b (table_args t @ ''-I'' # ch # show_nat (Suc j) # spec_of r))
       (enumerate i rules)"

abbreviation rules_of :: "('w, 'r, 'p) netfilter \<Rightarrow> (string list list \<times> string list) list \<Rightarrow> 'r list" where
  "rules_of nf rules \<equiv> map (\<lambda>r. nf_rule nf (spec_of r)) rules"

definition without :: "'a list \<Rightarrow> 'a list \<Rightarrow> 'a list" where
  "without rs xs = filter (\<lambda>x. x \<notin> set rs) xs"

lemma without_Nil [simp]: "without [] xs = xs"
  by (simp add: without_def)

lemma without_Cons: "without (r # rs) xs = without rs (removeAll r xs)"
  by (induction xs) (auto simp: without_def)

lemma insert_at_length [simp]: "insert_at (length xs) x (xs @ ys) = xs @ x # ys"
  by (simp add: insert_at_def)

lemma block_runs:
  assumes laws: "iptables_laws h nf" and b: "iptables_binary b"
    and key: "key = (family_of b, t, ch)" and t: "t \<noteq> ''-I''" "t \<noteq> ''-A''"
    and "\<And>r. r \<in> set rules \<Longrightarrow> nf_valid nf w key (spec_of r)"
    and "distinct (ps @ rules_of nf rules)" and "length ps + length rules < 4294967295"
    and "nf_chains nf w key = Some (ps @ tail)"
  shows "\<exists>w'. seqc (block_commands h b t ch (length ps) rules) w = Some (Inr (), w') \<and> same_filter nf w w' \<and>
     nf_chains nf w' = (nf_chains nf w)(key \<mapsto> ps @ rules_of nf rules @ without (rules_of nf rules) tail)"
  using assms(6-)
proof (induction rules arbitrary: w ps tail)
  case Nil
  then show ?case
    by (intro exI [of _ w]) (auto simp: block_commands_def ret_def same_filter_def fun_upd_idem)
next
  case (Cons r rules)
  let ?r = "nf_rule nf (spec_of r)"
  have fresh: "?r \<notin> set ps" using Cons.prems(2) by auto
  then have rem: "removeAll ?r (ps @ tail) = ps @ removeAll ?r tail" by simp
  have "nf_valid nf w key (spec_of r)" using Cons.prems(1) by simp
  from ensure_rule_present_at [OF laws b this Cons.prems(4) key t, of "length ps"] Cons.prems(3)
  obtain w1 where w1: "ensure_rule_present h b (table_args t @ ''-I'' # ch # show_nat (Suc (length ps)) # spec_of r) w
      = Some (Inr (), w1)" "same_filter nf w w1"
    "nf_chains nf w1 = (nf_chains nf w)(key \<mapsto> (ps @ [?r]) @ removeAll ?r tail)"
    unfolding rem by auto
  have "\<And>r'. r' \<in> set rules \<Longrightarrow> nf_valid nf w1 key (spec_of r')"
    using Cons.prems(1) same_filter_valid [OF w1(2)] by simp
  moreover have "distinct ((ps @ [?r]) @ rules_of nf rules)" using Cons.prems(2) by auto
  moreover have "length (ps @ [?r]) + length rules < 4294967295" using Cons.prems(3) by simp
  moreover have "nf_chains nf w1 key = Some ((ps @ [?r]) @ removeAll ?r tail)" using w1(3) by simp
  ultimately obtain w' where "seqc (block_commands h b t ch (length (ps @ [?r])) rules) w1 = Some (Inr (), w')"
    "same_filter nf w1 w'" "nf_chains nf w' = (nf_chains nf w1)(key \<mapsto> (ps @ [?r]) @ rules_of nf rules @
       without (rules_of nf rules) (removeAll ?r tail))"
    using Cons.IH by blast
  with w1 same_filter_trans [of nf w w1 w'] show ?case
    by (auto simp: block_commands_def without_Cons bindc_def)
qed

section \<open>The way of a packet\<close>

text \<open>
  A packet takes the target of the first rule that matches; a target that names a chain of the
  filter table continues there, and comes back when that chain has no answer. The number bounds the
  nesting of chains.
\<close>

fun verdict ::
  "nat \<Rightarrow> ('w, 'r, 'p) netfilter \<Rightarrow> 'w \<Rightarrow> family \<Rightarrow> 'r list \<Rightarrow> 'p \<Rightarrow> string list option" where
  "verdict d nf w f [] p = None"
| "verdict d nf w f (r # rs) p =
     (if nf_match nf w r p then
        (case (d, nf_target nf r) of
           (Suc d', [ch]) \<Rightarrow>
             (case nf_chains nf w (f, ''filter'', ch) of
                Some crs \<Rightarrow>
                  (case verdict d' nf w f crs p of Some v \<Rightarrow> Some v | None \<Rightarrow> verdict d nf w f rs p)
              | None \<Rightarrow> Some [ch])
         | (_, tgt) \<Rightarrow> Some tgt)
      else verdict d nf w f rs p)"

lemma verdict_skip:
  "(\<And>r. r \<in> set rs \<Longrightarrow> \<not> nf_match nf w r p) \<Longrightarrow> verdict d nf w f (rs @ tail) p = verdict d nf w f tail p"
  by (induction rs) auto

lemma verdict_without:
  "(\<And>r. r \<in> set rs \<Longrightarrow> \<not> nf_match nf w r p) \<Longrightarrow> verdict d nf w f (without rs tail) p = verdict d nf w f tail p"
  by (induction tail) (auto simp: without_def split: nat.splits list.splits option.splits)

text \<open>Names of final targets are not names of chains.\<close>

definition final_targets :: "('w, 'r, 'p) netfilter \<Rightarrow> 'w \<Rightarrow> family \<Rightarrow> bool" where
  "final_targets nf w f \<longleftrightarrow>
     nf_chains nf w (f, ''filter'', ''ACCEPT'') = None \<and> nf_chains nf w (f, ''filter'', ''DROP'') = None"

lemma verdict_final:
  assumes "final_targets nf w f" and "nf_match nf w r p" and "nf_target nf r = [v]" and "v \<in> {''ACCEPT'', ''DROP''}"
  shows "verdict d nf w f (r # rs) p = Some [v]"
  using assms by (cases d) (auto simp: final_targets_def)

subsection \<open>A block that guards a source\<close>

definition rule_comment :: "string list list \<times> string list \<Rightarrow> string" where
  "rule_comment r = (case find (\<lambda>f. take 3 f = [''-m'', ''comment'', ''--comment'']) (fst r) of
     Some f \<Rightarrow> last f | None \<Rightarrow> [])"

locale guarded_block =
  fixes source :: string
    and accepts :: "(string list list \<times> string list) list"
    and closing :: "string list list \<times> string list"
  assumes specs: "r \<in> set (accepts @ [closing]) \<Longrightarrow> spec_ok r"
    and guarded: "r \<in> set (accepts @ [closing]) \<Longrightarrow>
      frag_source source \<in> set (fst r) \<or> frag_established \<in> set (fst r)"
    and accept_targets: "r \<in> set accepts \<Longrightarrow> snd r = [''ACCEPT'']"
    and closing_target: "snd closing = [''DROP'']"
    and closing_all: "f \<in> set (fst closing) \<Longrightarrow> f = frag_source source \<or> (\<exists>c. f = frag_comment c)"
    and comments: "r \<in> set (accepts @ [closing]) \<Longrightarrow> {c. frag_comment c \<in> set (fst r)} = {rule_comment r}"
    and distinct_comments: "distinct (map rule_comment (accepts @ [closing]))"
begin

lemma distinct_rules:
  assumes "match_laws nf"
  shows "distinct (rules_of nf (accepts @ [closing]))"
proof -
  have "nf_comments nf (nf_rule nf (spec_of r)) = {rule_comment r}" if "r \<in> set (accepts @ [closing])" for r
    using match_laws_rule(3) [OF assms specs [OF that]] comments [OF that] by simp
  then have "map (the_elem \<circ> nf_comments nf) (rules_of nf (accepts @ [closing])) = map rule_comment (accepts @ [closing])"
    by simp
  then show ?thesis using distinct_comments by (metis distinct_map)
qed

lemma rule_matches:
  assumes "match_laws nf" and "r \<in> set (accepts @ [closing])"
  shows "nf_match nf w (nf_rule nf (spec_of r)) p \<longleftrightarrow> (\<forall>f \<in> set (fst r). nf_frag nf w f p)"
    and "nf_target nf (nf_rule nf (spec_of r)) = snd r"
  using match_laws_rule(1,2) [OF assms(1) specs [OF assms(2)]] by simp_all

lemma foreign:
  assumes "match_laws nf" and "\<not> nf_frag nf w (frag_source source) p" and "\<not> nf_frag nf w frag_established p"
    and "r \<in> set (rules_of nf (accepts @ [closing]))"
  shows "\<not> nf_match nf w r p"
proof -
  obtain x where "r = nf_rule nf (spec_of x)" and x: "x \<in> set (accepts @ [closing])" using assms(4)
    unfolding set_map by blast
  moreover have "\<exists>f \<in> set (fst x). \<not> nf_frag nf w f p" using guarded [OF x] assms(2,3) by blast
  ultimately show ?thesis using rule_matches(1) [OF assms(1) x] by simp
qed

lemma verdict_accepts:
  assumes "match_laws nf" and "final_targets nf w f" and "set rs \<subseteq> set accepts"
  shows "verdict d nf w f (rules_of nf rs @ tail) p =
    (if \<exists>r \<in> set rs. \<forall>x \<in> set (fst r). nf_frag nf w x p then Some [''ACCEPT''] else verdict d nf w f tail p)"
  using assms(3)
proof (induction rs)
  case Nil
  then show ?case by simp
next
  case (Cons r rs)
  then have r: "r \<in> set (accepts @ [closing])" "snd r = [''ACCEPT'']" using accept_targets by auto
  show ?case
  proof (cases "\<forall>x \<in> set (fst r). nf_frag nf w x p")
    case True
    then have "verdict d nf w f (nf_rule nf (spec_of r) # rules_of nf rs @ tail) p = Some [''ACCEPT'']"
      by (intro verdict_final [OF assms(2)]) (simp_all add: rule_matches [OF assms(1) r(1)] r(2))
    with True show ?thesis by auto
  next
    case False
    then have "\<not> nf_match nf w (nf_rule nf (spec_of r)) p" by (simp add: rule_matches(1) [OF assms(1) r(1)])
    then have "verdict d nf w f (rules_of nf (r # rs) @ tail) p = verdict d nf w f (rules_of nf rs @ tail) p" by simp
    then show ?thesis unfolding Cons.IH [OF Cons.prems [THEN subset_trans [rotated], OF set_subset_Cons]]
      using False by auto
  qed
qed

text \<open>Every packet of the source gets an answer: accepted by one of the rules, or dropped.\<close>

lemma verdict_source:
  assumes "match_laws nf" and "final_targets nf w f" and "nf_frag nf w (frag_source source) p"
  shows "verdict d nf w f (rules_of nf (accepts @ [closing]) @ tail) p =
    Some (if \<exists>r \<in> set accepts. \<forall>x \<in> set (fst r). nf_frag nf w x p then [''ACCEPT''] else [''DROP''])"
proof -
  have "nf_frag nf w x p" if "x \<in> set (fst closing)" for x
    using closing_all [OF that] assms(3) match_laws_comment [OF assms(1)] by auto
  then have "verdict d nf w f (nf_rule nf (spec_of closing) # tail) p = Some [''DROP'']"
    by (intro verdict_final [OF assms(2)]) (simp_all add: rule_matches [OF assms(1)] closing_target)
  then show ?thesis
    using verdict_accepts [OF assms(1,2), of accepts d "nf_rule nf (spec_of closing) # tail" p] by simp
qed

text \<open>
  Packets of other sources, unless they belong to an established connection, see the chain as if the
  block were not there, wherever in the chain copies of its rules stood before.
\<close>

lemma verdict_foreign:
  assumes "match_laws nf" and "\<not> nf_frag nf w (frag_source source) p" and "\<not> nf_frag nf w frag_established p"
  shows "verdict d nf w f (rules_of nf (accepts @ [closing]) @ without (rules_of nf (accepts @ [closing])) tail) p =
    verdict d nf w f tail p"
  using foreign [OF assms]
  by (subst verdict_skip, blast) (rule verdict_without, blast)

end

end
