(* ===== verification/Rust_Ipv6.thy ===== *)
theory Rust_Ipv6
  imports Rust_Net
begin

text \<open>
  The textual form of IPv6 addresses round-trips: what \<^verbatim>\<open>Display\<close> prints, with its compression of
  the longest run of zero segments and its special form for IPv4-mapped addresses, the standard
  library's parser reads back as the same address.
\<close>

section \<open>Segments\<close>

lemma unat_u128_less: "unat (a :: u128) < 65536 ^ 8"
  using unsigned_less [of a] by simp

lemma length_segments [simp]: "length (segments a) = 8"
  by (simp add: segments_def)

lemma segments_less: "g \<in> set (segments a) \<Longrightarrow> g < 65536"
  by (auto simp: segments_def segment_def)

lemma base65536_step:
  fixes n :: nat
  shows "n div 65536 ^ Suc k * 65536 + n div 65536 ^ k mod 65536 = n div 65536 ^ k"
proof -
  have "n div 65536 ^ Suc k = n div 65536 ^ k div 65536" by (simp only: power_Suc2 div_mult2_eq)
  then show ?thesis by (simp only: div_mult_mod_eq)
qed

lemma ipv6_of_segments_segments: "ipv6_of_segments (segments a) = a"
proof -
  define d where "d k = unat a div 65536 ^ k" for k
  have step: "d (Suc k) * 65536 + d k mod 65536 = d k" for k
    unfolding d_def by (rule base65536_step)
  have top: "d 8 = 0" using unat_u128_less [of a] by (simp add: d_def)
  have digits: "segments a = map (\<lambda>k. d k mod 65536) [7, 6, 5, 4, 3, 2, 1, 0]"
    by (simp add: segments_def segment_def d_def)
  have "d 8 * 65536 + d 7 mod 65536 = d 7" "d 7 * 65536 + d 6 mod 65536 = d 6"
    "d 6 * 65536 + d 5 mod 65536 = d 5" "d 5 * 65536 + d 4 mod 65536 = d 4"
    "d 4 * 65536 + d 3 mod 65536 = d 3" "d 3 * 65536 + d 2 mod 65536 = d 2"
    "d 2 * 65536 + d 1 mod 65536 = d 1" "d 1 * 65536 + d 0 mod 65536 = d 0"
    using step [of 7] step [of 6] step [of 5] step [of 4] step [of 3] step [of 2] step [of 1]
      step [of 0] by (simp_all only: Suc_numeral add_num_simps One_nat_def [symmetric] Suc_1)
  then have "foldl (\<lambda>acc g. acc * 65536 + g) (d 8) (segments a) = d 0"
    unfolding digits by (simp only: list.map foldl.simps)
  then have "foldl (\<lambda>acc g. acc * 65536 + g) 0 (segments a) = unat a"
    by (simp add: top) (simp add: d_def)
  then show ?thesis by (simp add: ipv6_of_segments_def)
qed

section \<open>Reading groups\<close>

lemma read_number_show_hex:
  assumes "g < 65536" and "r = [] \<or> to_digit 16 (hd r) = None"
  shows "read_number 16 (Some 4) True 65535 (show_hex g @ r) = Some (g, r)"
proof -
  have len: "length (show_hex g) \<le> 4"
    using assms length_show_nat_base [of 16 g 4] by (simp add: show_hex_def)
  have "digits_value 16 0 (show_hex g) = Some g"
    using digits_value_show [of 16 g] by (simp add: show_hex_def)
  from read_digits_value [OF this assms(2), of 0 4] len
  have "read_digits 16 (Some 4) 0 0 (show_hex g @ r) = Some ((g, length (show_hex g)), r)" by simp
  moreover have "show_hex g \<noteq> []" by (simp add: show_hex_def)
  ultimately show ?thesis using assms(1) by (simp add: read_number_def)
qed

lemma read_digits_consumes:
  "read_digits radix mx acc n s = Some (vk, r) \<Longrightarrow>
     \<exists>p. s = p @ r \<and> (\<forall>c \<in> set p. to_digit radix c \<noteq> None)"
proof (induction radix mx acc n s rule: read_digits.induct)
  case (1 radix mx acc n)
  then show ?case by simp
next
  case (2 radix mx acc n c cs)
  show ?case
  proof (cases "to_digit radix c")
    case None
    with 2 show ?thesis by auto
  next
    case (Some d)
    with "2.prems" have "\<not> (case mx of None \<Rightarrow> False | Some m \<Rightarrow> m < n + 1)"
      and "read_digits radix mx (acc * radix + d) (n + 1) cs = Some (vk, r)"
      by (auto split: if_splits)
    from "2.IH" [OF Some this] obtain p where "cs = p @ r" and "\<forall>c \<in> set p. to_digit radix c \<noteq> None"
      by blast
    with Some have "c # cs = (c # p) @ r \<and> (\<forall>x \<in> set (c # p). to_digit radix x \<noteq> None)" by simp
    then show ?thesis by blast
  qed
qed

lemma read_ipv4_addr_dot:
  assumes "read_ipv4_addr s = Some x"
  shows "\<exists>p r. s = p @ CHR ''.'' # r \<and> (\<forall>c \<in> set p. to_digit 10 c \<noteq> None)"
proof -
  have four: "(4 :: nat) = Suc (Suc (Suc (Suc 0)))" by simp
  from assms obtain g r r' where g: "read_number 10 (Some 3) False 255 s = Some (g, r)"
    and rest: "read_given_char CHR ''.'' r = Some ((), r')"
    by (auto simp: read_ipv4_addr_def four read_separator_def split: option.splits)
  from g obtain v where "read_digits 10 (Some 3) 0 0 s = Some (v, r)"
    by (auto simp: read_number_def split: option.splits prod.splits if_splits)
  from read_digits_consumes [OF this] obtain p where p: "s = p @ r" "\<forall>c \<in> set p. to_digit 10 c \<noteq> None"
    by blast
  from rest have "r = CHR ''.'' # r'" by (cases r) (auto split: if_splits)
  with p show ?thesis by blast
qed

lemma show_hex_no_dot: "CHR ''.'' \<notin> set (show_hex g)"
proof -
  have "c \<noteq> CHR ''.''" if "digits_value 16 acc s = Some v" and "c \<in> set s" for acc s v c
    using that by (induction s arbitrary: acc) (auto split: option.splits)
  then show ?thesis using digits_value_show [of 16 g] by (auto simp: show_hex_def)
qed

abbreviation group_end :: "string \<Rightarrow> bool" where
  "group_end r \<equiv> r = [] \<or> hd r = CHR '':'' \<or> hd r = CHR '']''"

text \<open>What may follow an address: nothing, or the closing bracket of a socket address.\<close>

abbreviation addr_end :: "string \<Rightarrow> bool" where
  "addr_end r \<equiv> r = [] \<or> hd r = CHR '']''"

lemma to_digit_bracket [simp]: "to_digit b CHR '']'' = None"
  by (simp add: to_digit_def ascii_digit_def ascii_lower_def ascii_upper_def)

lemma read_ipv4_addr_hex_None:
  assumes "group_end r"
  shows "read_ipv4_addr (show_hex g @ r) = None"
proof (rule ccontr)
  assume "read_ipv4_addr (show_hex g @ r) \<noteq> None"
  then obtain x where "read_ipv4_addr (show_hex g @ r) = Some x" by blast
  from read_ipv4_addr_dot [OF this] obtain p q
    where eq: "show_hex g @ r = p @ CHR ''.'' # q" and p: "\<forall>c \<in> set p. to_digit 10 c \<noteq> None" by blast
  from eq consider us where "show_hex g = p @ us" "us @ r = CHR ''.'' # q"
    | us where "p = show_hex g @ us" "r = us @ CHR ''.'' # q"
    by (auto simp: append_eq_append_conv2)
  then show False
  proof cases
    case 1
    then show False using show_hex_no_dot [of g] assms by (cases us) auto
  next
    case 2
    then show False using p assms by (cases us) auto
  qed
qed

fun groups_text :: "nat \<Rightarrow> nat list \<Rightarrow> string" where
  "groups_text i [] = []"
| "groups_text i (g # gs) = (if 0 < i then '':'' else []) @ show_hex g @ groups_text (Suc i) gs"

lemma groups_text_Suc: "gs \<noteq> [] \<Longrightarrow> groups_text (Suc i) gs = '':'' @ show_segments gs"
proof (induction gs arbitrary: i)
  case (Cons g gs)
  then show ?case by (cases gs) (auto simp: show_segments_def)
qed simp

lemma groups_text_0: "groups_text 0 gs = show_segments gs"
proof (cases gs)
  case (Cons g gs')
  show ?thesis
  proof (cases gs')
    case Nil
    with Cons show ?thesis by (simp add: show_segments_def)
  next
    case (Cons h hs)
    with \<open>gs = g # gs'\<close> groups_text_Suc [of gs' 0] show ?thesis
      by (simp add: show_segments_def del: groups_text.simps) (simp add: groups_text.simps(2) [of 0])
  qed
qed (simp add: show_segments_def)

lemma group_end_groups_text: "0 < i \<Longrightarrow> group_end r \<Longrightarrow> group_end (groups_text i gs @ r)"
  by (cases gs) auto

lemma read_groups_text:
  "(\<And>g. g \<in> set gs \<Longrightarrow> g < 65536) \<Longrightarrow> group_end r \<Longrightarrow> i + length gs \<le> limit \<Longrightarrow>
   read_groups limit i (groups_text i gs @ r) =
     (let ((gs', b), r') = read_groups limit (i + length gs) r in ((gs @ gs', b), r'))"
proof (induction gs arbitrary: i)
  case Nil
  then show ?case by (simp add: Let_def split: prod.splits)
next
  case (Cons g gs)
  let ?t = "groups_text (Suc i) gs @ r"
  have e: "group_end ?t" using Cons.prems by (intro group_end_groups_text) auto
  then have d: "?t = [] \<or> to_digit 16 (hd ?t) = None" by auto
  have num: "read_number 16 (Some 4) True 65535 (show_hex g @ ?t) = Some (g, ?t)"
    using Cons.prems d by (intro read_number_show_hex) auto
  have no4: "read_ipv4_addr (show_hex g @ ?t) = None" using e by (rule read_ipv4_addr_hex_None)
  have IH: "read_groups limit (Suc i) ?t =
      (let ((gs', b), r') = read_groups limit (Suc i + length gs) r in ((gs @ gs', b), r'))"
    using Cons.prems by (intro Cons.IH) auto
  let ?s = "groups_text i (g # gs) @ r"
  have sep4: "read_separator CHR '':'' i read_ipv4_addr ?s = None"
    and sepN: "read_separator CHR '':'' i (read_number 16 (Some 4) True 65535) ?s = Some (g, ?t)"
    using num no4 by (cases "i = 0"; simp add: read_separator_def)+
  have "\<not> limit \<le> i" using Cons.prems by simp
  then have "read_groups limit i ?s = (let ((gs, b), r') = read_groups limit (Suc i) ?t in ((g # gs, b), r'))"
    by (subst read_groups.simps) (simp add: sep4 sepN del: groups_text.simps)
  then show ?case using IH by (simp add: Let_def split: prod.splits del: groups_text.simps)
qed

lemma read_ipv4_addr_colon_None:
  assumes e: "group_end s"
  shows "read_ipv4_addr s = None"
proof (rule ccontr)
  assume "read_ipv4_addr s \<noteq> None"
  then obtain x where "read_ipv4_addr s = Some x" by blast
  from read_ipv4_addr_dot [OF this] obtain p r
    where "s = p @ CHR ''.'' # r" and "\<forall>c \<in> set p. to_digit 10 c \<noteq> None" by blast
  with e show False by (cases p) auto
qed

text \<open>Where reading groups stops: at the end of the text or in front of a double colon.\<close>

lemma read_groups_stop:
  assumes "addr_end r \<or> r = '':'' @ t \<and> (0 < i \<longrightarrow> group_end t \<and> t \<noteq> [])"
  shows "read_groups limit i r = (([], False), r)"
proof -
  have noneN: "read_number 16 (Some 4) True 65535 s = None" if "group_end s" for s
    using that by (cases s) (auto simp: read_number_def)
  have "read_separator CHR '':'' i read_ipv4_addr r = None"
    and "read_separator CHR '':'' i (read_number 16 (Some 4) True 65535) r = None"
    using assms read_ipv4_addr_colon_None [of r] read_ipv4_addr_colon_None [of t] noneN [of r] noneN [of t]
    by (cases r; auto simp: read_separator_def)+
  then show ?thesis by (subst read_groups.simps) simp
qed

section \<open>The longest run of zeros\<close>

definition zero_run :: "nat list \<Rightarrow> nat \<times> nat \<Rightarrow> bool" where
  "zero_run gs sp \<longleftrightarrow> fst sp + snd sp \<le> length gs \<and> take (snd sp) (drop (fst sp) gs) = replicate (snd sp) 0"

lemma zero_run_extend:
  assumes "zero_run (pre @ g # gs) (start, n)" and "start + n = length pre" and "g = 0"
  shows "zero_run (pre @ g # gs) (start, Suc n)"
proof -
  have "drop start (pre @ g # gs) = drop start pre @ g # gs" and "length (drop start pre) = n"
    using assms(2) by auto
  with assms show ?thesis by (auto simp: zero_run_def replicate_append_same [symmetric])
qed

lemma zero_span_run:
  "zero_run (pre @ gs) lon \<Longrightarrow> zero_run (pre @ gs) cur \<Longrightarrow>
   snd cur = 0 \<or> fst cur + snd cur = length pre \<Longrightarrow>
   zero_run (pre @ gs) (zero_span (length pre) gs lon cur)"
proof (induction gs arbitrary: pre lon cur)
  case Nil
  then show ?case by simp
next
  case (Cons g gs)
  let ?w = "pre @ g # gs"
  let ?cur = "if snd cur = 0 then (length pre, 1) else (fst cur, snd cur + 1)"
  show ?case
  proof (cases "g = 0")
    case True
    have "zero_run ?w (length pre, 0)" by (simp add: zero_run_def)
    with True zero_run_extend [of pre g gs "length pre" 0]
      zero_run_extend [of pre g gs "fst cur" "snd cur"] Cons.prems
    have c: "zero_run ?w ?cur" by auto
    let ?lon = "if snd lon < snd ?cur then ?cur else lon"
    have "zero_run ((pre @ [g]) @ gs) (zero_span (length (pre @ [g])) gs ?lon ?cur)"
      by (rule Cons.IH) (use c Cons.prems in auto)
    with True show ?thesis by (simp add: Let_def)
  next
    case False
    have "zero_run ((pre @ [g]) @ gs) (zero_span (length (pre @ [g])) gs lon (0, 0))"
      by (rule Cons.IH) (use Cons.prems in \<open>auto simp: zero_run_def\<close>)
    with False show ?thesis by simp
  qed
qed

lemma zero_span_decomp:
  assumes "zero_span 0 gs (0, 0) (0, 0) = (start, n)"
  shows "gs = take start gs @ replicate n 0 @ drop (start + n) gs \<and> start + n \<le> length gs"
proof -
  have "zero_run ([] @ gs) (zero_span (length ([] :: nat list)) gs (0, 0) (0, 0))"
    by (rule zero_span_run) (simp_all add: zero_run_def)
  with assms have run: "take n (drop start gs) = replicate n 0" "start + n \<le> length gs"
    by (simp_all add: zero_run_def)
  have "take n (drop start gs) @ drop (start + n) gs = drop start gs"
    by (metis add.commute append_take_drop_id drop_drop)
  with run show ?thesis by simp
qed

section \<open>Round trip\<close>

lemma of_nat_unat_id: "of_nat (unat a) = (a :: 'a::len word)"
  by simp

lemma to_ipv4_mapped_SomeD:
  assumes "to_ipv4_mapped a = Some v"
  shows "a = ipv6_of_segments ([0, 0, 0, 0, 0] @ [65535, unat v div 65536, unat v mod 65536])"
proof -
  from assms have hi: "unat a div 4294967296 = 65535" and v: "v = of_nat (unat a mod 4294967296)"
    by (auto simp: to_ipv4_mapped_def split: if_splits)
  have "unat v = unat a mod 4294967296" unfolding v by (rule unat_of_nat_u32) simp
  moreover have "unat a = unat a div 4294967296 * 4294967296 + unat a mod 4294967296"
    by (rule div_mult_mod_eq [symmetric])
  moreover have "unat v = unat v div 65536 * 65536 + unat v mod 65536"
    by (rule div_mult_mod_eq [symmetric])
  moreover have "V = m \<Longrightarrow> A = 65535 * 4294967296 + m \<Longrightarrow> V = q * 65536 + r \<Longrightarrow>
      (65535 * 65536 + q) * 65536 + r = A" for V m A q r :: nat
    by simp
  ultimately have "(65535 * 65536 + unat v div 65536) * 65536 + unat v mod 65536 = unat a"
    unfolding hi by blast
  then have "of_nat ((65535 * 65536 + unat v div 65536) * 65536 + unat v mod 65536) = a"
    by (metis of_nat_unat_id)
  then show ?thesis by (simp only: ipv6_of_segments_def append.simps foldl.simps mult_0 add_0)
qed

lemma read_ipv6_addr_mapped:
  assumes "to_ipv4_mapped a = Some v" and e: "addr_end e"
  shows "read_ipv6_addr (''::ffff:'' @ show_ipv4 v @ e) = Some (a, e)"
proof -
  have hex: "show_hex 65535 = ''ffff''"
    by (simp add: show_hex_def show_nat_base.simps digit_char_def)
  have zeros: "replicate 5 (0 :: nat) = [0, 0, 0, 0, 0]" by (simp add: numeral_eq_Suc)
  have head: "read_groups 8 0 (''::ffff:'' @ show_ipv4 v @ e) = (([], False), ''::ffff:'' @ show_ipv4 v @ e)"
    by (rule read_groups_stop [where t = "'':ffff:'' @ show_ipv4 v @ e"]) simp
  have v4: "read_groups 7 1 ('':'' @ show_ipv4 v @ e) = (([unat v div 65536, unat v mod 65536], True), e)"
  proof -
    have "e = [] \<or> to_digit 10 (hd e) = None" using e by auto
    from read_ipv4_addr_show [OF this, of v] show ?thesis by (subst read_groups.simps) (simp add: read_separator_def)
  qed
  have "read_groups 7 0 (groups_text 0 [65535] @ '':'' @ show_ipv4 v @ e) =
      (([65535, unat v div 65536, unat v mod 65536], True), e)"
    using v4 by (subst read_groups_text) simp_all
  then have tail: "read_groups 7 0 (''ffff:'' @ show_ipv4 v @ e) =
      (([65535, unat v div 65536, unat v mod 65536], True), e)"
    by (simp add: hex)
  show ?thesis using to_ipv4_mapped_SomeD [OF assms(1)]
    by (simp add: read_ipv6_addr_def head [simplified] tail [simplified] zeros)
qed

lemma read_ipv6_addr_full:
  assumes "to_ipv4_mapped a = None" and e: "addr_end e"
  shows "read_ipv6_addr (show_segments (segments a) @ e) = Some (a, e)"
proof -
  have "read_groups 8 0 (groups_text 0 (segments a) @ e) = ((segments a, False), e)"
    using read_groups_stop [of e _ 8 8] e
    by (subst read_groups_text) (auto simp: segments_less)
  then show ?thesis by (simp add: read_ipv6_addr_def groups_text_0 ipv6_of_segments_segments)
qed

lemma read_ipv6_addr_compressed:
  assumes gs: "gs = head @ replicate n 0 @ tail" and len: "length gs = 8" and n: "1 < n"
    and small: "\<And>g. g \<in> set gs \<Longrightarrow> g < 65536" and e: "addr_end e"
  shows "read_ipv6_addr (show_segments head @ ''::'' @ show_segments tail @ e) = Some (ipv6_of_segments gs, e)"
proof -
  have lens: "length head + n + length tail = 8" using gs len by simp
  let ?t = "''::'' @ show_segments tail @ e"
  have stop: "read_groups 8 (length head) ?t = (([], False), ?t)"
    by (rule read_groups_stop [where t = "'':'' @ show_segments tail @ e"]) simp
  have "read_groups 8 0 (groups_text 0 head @ ?t) = ((head, False), ?t)"
    using stop small gs lens by (subst read_groups_text) simp_all
  then have h: "read_groups 8 0 (show_segments head @ ?t) = ((head, False), ?t)"
    by (simp add: groups_text_0)
  have "read_groups (7 - length head) 0 (groups_text 0 tail @ e) = ((tail, False), e)"
    using read_groups_stop [of e] e small gs lens n by (subst read_groups_text) auto
  then have t: "read_groups (7 - length head) 0 (show_segments tail @ e) = ((tail, False), e)"
    by (simp add: groups_text_0)
  have "length head \<noteq> 8" and "8 - length head - length tail = n" and "8 - (length head + 1) = 7 - length head"
    using lens n by auto
  then show ?thesis using h t by (simp add: read_ipv6_addr_def gs)
qed

lemma read_ipv6_addr_show_end:
  assumes e: "addr_end e"
  shows "read_ipv6_addr (show_ipv6 a @ e) = Some (a, e)"
proof (cases "to_ipv4_mapped a")
  case (Some v)
  then show ?thesis by (simp only: show_ipv6_def option.case read_ipv6_addr_mapped [OF Some e] append.assoc)
next
  case None
  obtain start n where sp: "zero_span 0 (segments a) (0, 0) (0, 0) = (start, n)" by fastforce
  show ?thesis
  proof (cases "1 < n")
    case True
    from zero_span_decomp [OF sp] have "segments a = take start (segments a) @ replicate n 0 @ drop (start + n) (segments a)"
      by blast
    from read_ipv6_addr_compressed [OF this _ True _ e] show ?thesis using None sp True
      by (simp add: show_ipv6_def Let_def segments_less ipv6_of_segments_segments)
  next
    case False
    with None sp show ?thesis by (simp add: show_ipv6_def Let_def read_ipv6_addr_full [OF _ e])
  qed
qed

lemma read_ipv6_addr_show: "read_ipv6_addr (show_ipv6 a) = Some (a, [])"
  using read_ipv6_addr_show_end [of "[]" a] by simp

lemma parse_ipv6_show: "parse_ipv6 (show_ipv6 a) = Some a"
  by (simp add: parse_ipv6_def parse_with_def read_ipv6_addr_show)

section \<open>Addresses of either family\<close>

lemma read_ipv4_addr_segments_None:
  assumes "group_end r"
  shows "read_ipv4_addr (show_segments gs @ r) = None"
proof (cases gs)
  case Nil
  then show ?thesis using assms by (simp add: show_segments_def read_ipv4_addr_colon_None)
next
  case (Cons g gs')
  have "group_end (groups_text (Suc 0) gs' @ r)" using assms by (intro group_end_groups_text) simp_all
  then have "read_ipv4_addr (show_hex g @ groups_text (Suc 0) gs' @ r) = None"
    by (rule read_ipv4_addr_hex_None)
  then show ?thesis by (simp add: groups_text_0 [symmetric] Cons)
qed

lemma read_ipv4_addr_show_ipv6: "read_ipv4_addr (show_ipv6 a) = None"
proof (cases "to_ipv4_mapped a")
  case (Some v)
  then show ?thesis by (simp add: show_ipv6_def read_ipv4_addr_colon_None)
next
  case None
  obtain start n where sp: "zero_span 0 (segments a) (0, 0) (0, 0) = (start, n)" by fastforce
  have "read_ipv4_addr (show_segments (take start (segments a)) @ ''::'' @ t) = None" for t
    by (rule read_ipv4_addr_segments_None) simp
  moreover have "read_ipv4_addr (show_segments (segments a) @ []) = None"
    by (rule read_ipv4_addr_segments_None) simp
  ultimately show ?thesis using None sp by (simp add: show_ipv6_def Let_def)
qed

lemma parse_ip_show: "parse_ip (show_ip a) = Some a"
proof (cases a)
  case (V4 v)
  then show ?thesis by (simp add: parse_ip_show_ipv4)
next
  case (V6 v)
  then show ?thesis
    by (simp add: parse_ip_def parse_with_def read_ip_addr_def read_ipv4_addr_show_ipv6 read_ipv6_addr_show)
qed

lemma digits_value_chars: "digits_value b acc s = Some v \<Longrightarrow> c \<in> set s \<Longrightarrow> to_digit b c \<noteq> None"
  by (induction s arbitrary: acc) (auto split: option.splits)

definition address_char :: "char \<Rightarrow> bool" where
  "address_char c \<longleftrightarrow> to_digit 16 c \<noteq> None \<or> c = CHR '':'' \<or> c = CHR ''.''"

lemma show_segments_chars: "c \<in> set (show_segments gs) \<Longrightarrow> address_char c"
proof -
  assume "c \<in> set (show_segments gs)"
  then consider "c = CHR '':''" | g where "c \<in> set (show_hex g)"
    using set_join [of "'':''" "map show_hex gs"] by (auto simp: show_segments_def)
  then show ?thesis
    using digits_value_show [of 16] digits_value_chars [of 16 0]
    by cases (auto simp: address_char_def show_hex_def)
qed

lemma show_ipv4_address_chars: "c \<in> set (show_ipv4 a) \<Longrightarrow> address_char c"
  using show_ipv4_chars [of c a] by (auto simp: address_char_def to_digit_def ascii_digit_def Let_def)

lemma address_char_lits: "address_char CHR '':''" "address_char CHR ''f''"
  by (simp_all add: address_char_def to_digit_def ascii_digit_def ascii_lower_def)

lemma show_ipv6_chars: "c \<in> set (show_ipv6 a) \<Longrightarrow> address_char c"
proof -
  assume c: "c \<in> set (show_ipv6 a)"
  obtain start n where sp: "zero_span 0 (segments a) (0, 0) (0, 0) = (start, n)" by fastforce
  from c consider "c \<in> set ''::ffff:''" | v where "c \<in> set (show_ipv4 v)"
    | gs where "c \<in> set (show_segments gs)"
    unfolding show_ipv6_def Let_def sp prod.case
    by (cases "to_ipv4_mapped a") (simp_all split: if_splits, blast+)
  then show ?thesis
    by cases (auto simp: address_char_lits show_ipv4_address_chars show_segments_chars)
qed

lemma show_ip_chars: "c \<in> set (show_ip a) \<Longrightarrow> address_char c"
  by (cases a) (simp_all add: show_ipv4_address_chars show_ipv6_chars)

lemma plain_address: "address_char c \<Longrightarrow> plain c \<and> c \<noteq> CHR ''#''"
  by (auto simp: address_char_def plain_def ws1_def to_digit_def ascii_digit_def ascii_lower_def ascii_upper_def Let_def split: if_splits)

lemma address_char_not_whitespace: "address_char c \<Longrightarrow> \<not> is_ascii_whitespace c"
  by (auto simp: address_char_def is_ascii_whitespace_def to_digit_def Let_def ascii_digit_def
      ascii_lower_def ascii_upper_def split: if_splits)

lemma show_ip_not_Nil: "show_ip a \<noteq> []"
proof
  assume "show_ip a = []"
  then have "parse_ip [] = Some a" using parse_ip_show [of a] by simp
  moreover have "parse_ip [] = None" by code_simp
  ultimately show False by simp
qed

lemma token_show_ip: "token (show_ip a)"
  using show_ip_not_Nil show_ip_chars address_char_not_whitespace
  by (force simp: token_def list_all_iff)

section \<open>Socket addresses\<close>

lemma read_port_53: "read_port '':53'' = Some (53, [])"
  by code_simp

lemma parse_socket_addr_v4: "parse_socket_addr (show_ipv4 a @ '':53'') = Some (SockV4 a 53)"
proof -
  have "read_ipv4_addr (show_ipv4 a @ '':53'') = Some (a, '':53'')" by (rule read_ipv4_addr_show) simp
  then have "read_socket_addr_v4 (show_ipv4 a @ '':53'') = Some (SockV4 a 53, [])"
    by (simp only: read_socket_addr_v4_def option.case prod.case read_port_53 option.map)
  then show ?thesis by (simp add: parse_socket_addr_def parse_with_def)
qed

lemma parse_socket_addr_v6: "parse_socket_addr (''['' @ show_ipv6 a @ '']:53'') = Some (SockV6 a 53)"
proof -
  have four: "(4 :: nat) = Suc 3" by simp
  have "read_number 10 (Some 3) False 255 (''['' @ s) = None" for s
    by (simp add: read_number_def to_digit_def ascii_digit_def ascii_lower_def ascii_upper_def)
  then have "read_octets 0 4 (''['' @ s) = None" for s
    unfolding four by (simp only: read_octets.simps read_separator_def less_irrefl if_False option.case)
  then have v4: "read_socket_addr_v4 (''['' @ show_ipv6 a @ '']:53'') = None"
    by (simp only: read_socket_addr_v4_def read_ipv4_addr_def option.case)
  have "read_ipv6_addr (show_ipv6 a @ '']:53'') = Some (a, '']:53'')" by (rule read_ipv6_addr_show_end) simp
  moreover have "read_scope_id '']:53'' = None" by code_simp
  ultimately have "read_socket_addr_v6 (''['' @ show_ipv6 a @ '']:53'') = Some (SockV6 a 53, [])"
    using read_port_53 by (simp add: read_socket_addr_v6_def)
  with v4 show ?thesis by (simp add: parse_socket_addr_def parse_with_def)
qed

end
