(* ===== verification/Ipset.thy ===== *)
theory Ipset
  imports Trust Rust_Ipv6
begin

text \<open>
  Writing an address list to the kernel (\<^verbatim>\<open>src/src/ipset.rs\<close>). The \<^verbatim>\<open>ipset\<close> program is not part of the
  repository: what its \<^verbatim>\<open>restore\<close> mode does with one line is a parameter, and the laws of its manual
  are a named hypothesis.
\<close>

section \<open>Model\<close>

definition IPSET_CANDIDATES :: "string list" where
  "IPSET_CANDIDATES = [''/usr/sbin/ipset'', ''/sbin/ipset'', ''/usr/bin/ipset'']"

definition ipv6_ipset_name :: "string \<Rightarrow> string" where
  "ipv6_ipset_name name = name @ ''-v6''"

definition add_line :: "string \<Rightarrow> string \<Rightarrow> ip_addr \<Rightarrow> string" where
  "add_line name ipv6_name ip =
     (let ipset = (case ip of V4 _ \<Rightarrow> name | V6 _ \<Rightarrow> ipv6_name)
      in ''add '' @ ipset @ '' '' @ show_ip ip @ '' -exist'' @ [CHR 0x0A])"

definition restore_payload :: "string \<Rightarrow> ip_addr list \<Rightarrow> string" where
  "restore_payload name ips =
     (let ipv6_name = ipv6_ipset_name name
      in ''flush '' @ name @ [CHR 0x0A] @ ''flush '' @ ipv6_name @ [CHR 0x0A] @
         concat (map (add_line name ipv6_name) ips))"

definition resolve_ipset_binary :: "'w host \<Rightarrow> ('w, string) cmd" where
  "resolve_ipset_binary h = resolve_ipset_from h IPSET_CANDIDATES"

definition restore_command :: "string \<Rightarrow> command" where
  "restore_command binary =
     \<lparr>program = binary, cmd_args = [''restore''], env_cleared = True, working_dir = ''/'',
      cmd_stdin = StdioPiped, cmd_stdout = StdioPiped, cmd_stderr = StdioPiped, kill_on_drop = True\<rparr>"

definition update_ipset :: "'w host \<Rightarrow> string \<Rightarrow> ip_addr list \<Rightarrow> ('w, unit) cmd" where
  "update_ipset h name ips =
     bindc (resolve_ipset_binary h) (\<lambda>ipset_binary.
     bindc (sys_output_stdin h (restore_command ipset_binary) (restore_payload name ips)) (\<lambda>res.
       if \<not> status_success res
       then fail (Msg (''ipset restore failed: '' @ trim (from_utf8_lossy (out_stderr res)) @
              ''; stdout: '' @ trim (from_utf8_lossy (out_stdout res))))
       else ret ()))"

section \<open>The payload as commands\<close>

definition add_words :: "string \<Rightarrow> ip_addr \<Rightarrow> string list" where
  "add_words name ip =
     [''add'', case ip of V4 _ \<Rightarrow> name | V6 _ \<Rightarrow> ipv6_ipset_name name, show_ip ip, ''-exist'']"

definition restore_words :: "string \<Rightarrow> ip_addr list \<Rightarrow> string list list" where
  "restore_words name ips =
     [''flush'', name] # [''flush'', ipv6_ipset_name name] # map (add_words name) ips"

lemmas token_show = token_show_ip [of "V4 _", simplified] token_show_ip [of "V6 _", simplified]

lemma token_ipv6_ipset_name: "token name \<Longrightarrow> token (ipv6_ipset_name name)"
  unfolding ipv6_ipset_name_def by (erule token_append) code_simp

lemma token_lits: "token ''add''" "token ''flush''" "token ''-exist''"
  by code_simp+

lemma restore_payload_words:
  "restore_payload name ips = concat (map (\<lambda>ws. join '' '' ws @ [CHR 0x0A]) (restore_words name ips))"
proof -
  have "add_line name (ipv6_ipset_name name) ip = join '' '' (add_words name ip) @ [CHR 0x0A]" for ip
    by (simp add: add_line_def add_words_def)
  then have "add_line name (ipv6_ipset_name name) = (\<lambda>ip. join '' '' (add_words name ip) @ [CHR 0x0A])" by blast
  then show ?thesis by (simp add: restore_payload_def restore_words_def Let_def comp_def)
qed

lemma restore_payload_lines:
  assumes "token name"
  shows "map split_ascii_whitespace (lines (restore_payload name ips)) = restore_words name ips"
  unfolding restore_payload_words
  using assms by (intro lines_of_tokens)
    (auto simp: restore_words_def add_words_def token_lits token_ipv6_ipset_name token_show
      split: ip_addr.splits)

section \<open>The kernel sets\<close>

text \<open>
  \<open>sets w\<close> are the kernel's sets of addresses in a world, \<open>storable\<close> the addresses a set can hold.
  \<^verbatim>\<open>ipset restore\<close> executes the lines of its input one after another and stops with an error at
  the first that fails.
\<close>

fun restore_all :: "(string list \<Rightarrow> 'w \<Rightarrow> 'w option) \<Rightarrow> string list list \<Rightarrow> 'w \<Rightarrow> bool \<times> 'w" where
  "restore_all exec [] w = (True, w)"
| "restore_all exec (l # ls) w =
     (case exec l w of None \<Rightarrow> (False, w) | Some w' \<Rightarrow> restore_all exec ls w')"

definition ipset_laws ::
  "'w host \<Rightarrow> (string list \<Rightarrow> 'w \<Rightarrow> 'w option) \<Rightarrow> ('w \<Rightarrow> string \<Rightarrow> ip_addr set option)
     \<Rightarrow> (string \<Rightarrow> ip_addr \<Rightarrow> bool) \<Rightarrow> bool" where
  "ipset_laws h exec sets storable \<longleftrightarrow>
     (\<forall>n S w. sets w n = Some S \<longrightarrow>
        (\<exists>w'. exec [''flush'', n] w = Some w' \<and> sets w' = (sets w)(n \<mapsto> {}))) \<and>
     (\<forall>n S a w. sets w n = Some S \<longrightarrow> storable n a \<longrightarrow>
        (\<exists>w'. exec [''add'', n, show_ip a, ''-exist''] w = Some w' \<and> sets w' = (sets w)(n \<mapsto> insert a S))) \<and>
     (\<forall>b \<in> set IPSET_CANDIDATES. \<forall>payload w good w'.
        restore_all exec (map split_ascii_whitespace (lines payload)) w = (good, w') \<longrightarrow>
        (\<exists>res. host_output_stdin h (restore_command b) payload w = (Inr res, w') \<and>
           status_success res = good))"

lemma ipset_flush:
  "ipset_laws h exec sets storable \<Longrightarrow> sets w n = Some S \<Longrightarrow>
     \<exists>w'. exec [''flush'', n] w = Some w' \<and> sets w' = (sets w)(n \<mapsto> {})"
  by (simp add: ipset_laws_def)

lemma ipset_add:
  "ipset_laws h exec sets storable \<Longrightarrow> sets w n = Some S \<Longrightarrow> storable n a \<Longrightarrow>
     \<exists>w'. exec [''add'', n, show_ip a, ''-exist''] w = Some w' \<and> sets w' = (sets w)(n \<mapsto> insert a S)"
  by (simp add: ipset_laws_def)

lemma ipset_restore:
  assumes "ipset_laws h exec sets storable" and "b \<in> set IPSET_CANDIDATES"
    and "restore_all exec (map split_ascii_whitespace (lines payload)) w = (good, w')"
  shows "\<exists>res. host_output_stdin h (restore_command b) payload w = (Inr res, w') \<and> status_success res = good"
  using assms unfolding ipset_laws_def by blast

abbreviation set_for :: "string \<Rightarrow> ip_addr \<Rightarrow> string" where
  "set_for name a \<equiv> (case a of V4 _ \<Rightarrow> name | V6 _ \<Rightarrow> ipv6_ipset_name name)"

lemma ipv6_ipset_name_neq [simp]: "ipv6_ipset_name name \<noteq> name" "name \<noteq> ipv6_ipset_name name"
  by (simp_all add: ipv6_ipset_name_def)

lemma restore_adds:
  assumes laws: "ipset_laws h exec sets storable"
    and "sets w name = Some S4" and "sets w (ipv6_ipset_name name) = Some S6"
    and "\<And>a. a \<in> set ips \<Longrightarrow> storable (set_for name a) a"
  shows "\<exists>w'. restore_all exec (map (add_words name) ips) w = (True, w') \<and>
     sets w' = (sets w)(name \<mapsto> S4 \<union> {a \<in> set ips. \<exists>x. a = V4 x},
                        ipv6_ipset_name name \<mapsto> S6 \<union> {a \<in> set ips. \<exists>x. a = V6 x})"
  using assms(2-)
proof (induction ips arbitrary: w S4 S6)
  case Nil
  then show ?case by (auto simp: fun_eq_iff)
next
  case (Cons a ips)
  let ?n = "set_for name a"
  obtain S where S: "sets w ?n = Some S" using Cons.prems by (cases a) auto
  have "storable ?n a" using Cons.prems by simp
  then obtain w1 where e: "exec (add_words name a) w = Some w1"
    and w1: "sets w1 = (sets w)(?n \<mapsto> insert a S)"
    using ipset_add [OF laws S] by (auto simp: add_words_def)
  define T4 T6 where "T4 = (case a of V4 _ \<Rightarrow> insert a S4 | V6 _ \<Rightarrow> S4)"
    and "T6 = (case a of V4 _ \<Rightarrow> S6 | V6 _ \<Rightarrow> insert a S6)"
  have t: "sets w1 name = Some T4" "sets w1 (ipv6_ipset_name name) = Some T6"
    using Cons.prems S w1 by (cases a; simp add: T4_def T6_def)+
  have "\<And>b. b \<in> set ips \<Longrightarrow> storable (set_for name b) b" using Cons.prems by simp
  from Cons.IH [OF t this] obtain w' where
    "restore_all exec (map (add_words name) ips) w1 = (True, w')"
    and "sets w' = (sets w1)(name \<mapsto> T4 \<union> {a \<in> set ips. \<exists>x. a = V4 x},
                        ipv6_ipset_name name \<mapsto> T6 \<union> {a \<in> set ips. \<exists>x. a = V6 x})" by blast
  moreover have "T4 \<union> {b \<in> set ips. \<exists>x. b = V4 x} = S4 \<union> {b \<in> set (a # ips). \<exists>x. b = V4 x}"
    and "T6 \<union> {b \<in> set ips. \<exists>x. b = V6 x} = S6 \<union> {b \<in> set (a # ips). \<exists>x. b = V6 x}"
    by (cases a; auto simp: T4_def T6_def)+
  moreover have "(sets w1)(name \<mapsto> X, ipv6_ipset_name name \<mapsto> Y) = (sets w)(name \<mapsto> X, ipv6_ipset_name name \<mapsto> Y)" for X Y
    unfolding w1 by (cases a) (auto simp: fun_eq_iff)
  ultimately show ?case using e by auto
qed

lemma update_ipset_run:
  assumes "find (trusted_in h w) IPSET_CANDIDATES = Some b"
  shows "update_ipset h name ips w =
    (case host_output_stdin h (restore_command b) (restore_payload name ips) w of
       (Inl e, w') \<Rightarrow> Some (Inl e, w')
     | (Inr res, w') \<Rightarrow>
         Some (if status_success res then Inr ()
               else Inl (Msg (''ipset restore failed: '' @ trim (from_utf8_lossy (out_stderr res)) @
                 ''; stdout: '' @ trim (from_utf8_lossy (out_stdout res)))), w'))"
  using assms
  by (auto simp: update_ipset_def resolve_ipset_binary_def bindc_def resolve_ipset_from_eq sys_output_stdin_def
      fail_def ret_def split: prod.splits sum.splits)

lemma update_ipset_laws:
  assumes laws: "ipset_laws h exec sets storable"
    and b: "find (trusted_in h w) IPSET_CANDIDATES = Some b" and name: "token name"
  shows "\<exists>r. update_ipset h name ips w = Some (r, snd (restore_all exec (restore_words name ips) w)) \<and>
     (r = Inr () \<longleftrightarrow> fst (restore_all exec (restore_words name ips) w))"
proof -
  obtain ok w' where r: "restore_all exec (restore_words name ips) w = (ok, w')" by fastforce
  have "b \<in> set IPSET_CANDIDATES" using b by (auto simp: find_Some_iff)
  moreover have "restore_all exec (map split_ascii_whitespace (lines (restore_payload name ips))) w = (ok, w')"
    unfolding restore_payload_lines [OF name] by (rule r)
  ultimately obtain res where "host_output_stdin h (restore_command b) (restore_payload name ips) w = (Inr res, w')"
    and "status_success res = ok"
    using ipset_restore [OF laws] by blast
  then show ?thesis by (auto simp: update_ipset_run [OF b] r)
qed

lemma update_ipset_sets:
  assumes "ipset_laws h exec sets storable"
    and "find (trusted_in h w) IPSET_CANDIDATES = Some b" and "token name"
    and "sets w name = Some S4" and "sets w (ipv6_ipset_name name) = Some S6"
    and "\<forall>a \<in> set ips. storable (set_for name a) a"
  shows "\<exists>w'. update_ipset h name ips w = Some (Inr (), w') \<and>
     sets w' = (sets w)(name \<mapsto> {a \<in> set ips. \<exists>x. a = V4 x},
                        ipv6_ipset_name name \<mapsto> {a \<in> set ips. \<exists>x. a = V6 x})"
proof -
  let ?n6 = "ipv6_ipset_name name"
  obtain w1 where w1: "exec [''flush'', name] w = Some w1" "sets w1 = (sets w)(name \<mapsto> {})"
    using ipset_flush [OF assms(1,4)] by blast
  have "sets w1 ?n6 = Some S6" using w1 assms(5) by simp
  then obtain w2 where w2: "exec [''flush'', ?n6] w1 = Some w2" "sets w2 = (sets w1)(?n6 \<mapsto> {})"
    using ipset_flush [OF assms(1)] by blast
  have "sets w2 name = Some {}" "sets w2 ?n6 = Some {}" using w1 w2 by simp_all
  moreover have "\<And>a. a \<in> set ips \<Longrightarrow> storable (set_for name a) a" using assms(6) by blast
  ultimately obtain w' where r: "restore_all exec (map (add_words name) ips) w2 = (True, w')"
    and s: "sets w' = (sets w2)(name \<mapsto> {} \<union> {a \<in> set ips. \<exists>x. a = V4 x},
                        ?n6 \<mapsto> {} \<union> {a \<in> set ips. \<exists>x. a = V6 x})"
    using restore_adds [OF assms(1)] by blast
  have "restore_all exec (restore_words name ips) w = (True, w')"
    using w1 w2 r by (simp add: restore_words_def)
  then have "update_ipset h name ips w = Some (Inr (), w')"
    using update_ipset_laws [OF assms(1-3), of ips] by auto
  moreover have "sets w' = (sets w)(name \<mapsto> {a \<in> set ips. \<exists>x. a = V4 x}, ?n6 \<mapsto> {a \<in> set ips. \<exists>x. a = V6 x})"
    unfolding s w1 w2 by (auto simp: fun_eq_iff)
  ultimately show ?thesis by blast
qed

section \<open>Properties\<close>

text \<open>
  C8: Updating an ipset makes the kernel hold exactly the given addresses: with a trusted \<^verbatim>\<open>ipset\<close>
  that follows its manual, existing sets for both families and a name that is one word, the
  update succeeds, the IPv4 set holds exactly the IPv4 addresses of the list and the IPv6 set
  exactly the IPv6 addresses, and no other set changes.
\<close>

theorem update_ipset_exact:
  assumes "ipset_laws h exec sets storable"
    and "find (trusted_in h w) IPSET_CANDIDATES = Some b" and "token name"
    and "sets w name = Some S4" and "sets w (ipv6_ipset_name name) = Some S6"
    and "\<forall>a \<in> set ips. storable (set_for name a) a"
  shows "\<exists>w'. update_ipset h name ips w = Some (Inr (), w') \<and>
     sets w' = (sets w)(name \<mapsto> {a \<in> set ips. \<exists>x. a = V4 x},
                        ipv6_ipset_name name \<mapsto> {a \<in> set ips. \<exists>x. a = V6 x})"
  using assms by (rule update_ipset_sets)

text \<open>A host whose only inhabitants are kernel sets and an \<^verbatim>\<open>ipset\<close> program that follows the laws.\<close>

type_synonym kernel_sets = "string \<Rightarrow> ip_addr set option"

definition sets_exec :: "string list \<Rightarrow> kernel_sets \<Rightarrow> kernel_sets option" where
  "sets_exec l k =
     (case l of
        [c, n] \<Rightarrow> if c = ''flush'' \<and> k n \<noteq> None then Some (k(n \<mapsto> {})) else None
      | [c, n, a, f] \<Rightarrow>
          (case (k n, parse_ip a) of
             (Some S, Some ip) \<Rightarrow> if c = ''add'' \<and> f = ''-exist'' then Some (k(n \<mapsto> insert ip S)) else None
           | _ \<Rightarrow> None)
      | _ \<Rightarrow> None)"

definition sets_host :: "kernel_sets host" where
  "sets_host =
     \<lparr>host_output = (\<lambda>_ w. (Inl (IoError ''no such process''), w)),
      host_output_stdin = (\<lambda>_ payload w.
        (case restore_all sets_exec (map split_ascii_whitespace (lines payload)) w of
           (good, w') \<Rightarrow> (Inr \<lparr>status_success = good, out_stdout = [], out_stderr = []\<rparr>, w'))),
      host_spawn = (\<lambda>_ w. (Inl (IoError ''no such process''), w)),
      host_metadata = (\<lambda>_ _. Some \<lparr>md_is_file = True, md_uid = 0, md_mode = 0x1ED\<rparr>),
      host_read_file = (\<lambda>_ _. Inl (IoError ''no such file'')),
      host_current_exe = (\<lambda>_. Inl (IoError ''no such file'')),
      host_exchange = (\<lambda>_ _ w. (Inl (IoError ''refused''), w)),
      host_sleep = (\<lambda>_ w. w),
      host_println = (\<lambda>_ w. w),
      host_eprintln = (\<lambda>_ w. w)\<rparr>"

lemma sets_host_laws: "ipset_laws sets_host sets_exec (\<lambda>k. k) (\<lambda>_ _. True)"
  by (auto simp: ipset_laws_def sets_exec_def parse_ip_show sets_host_def)

lemma sets_host_trusted: "find (trusted_in sets_host w) IPSET_CANDIDATES = Some ''/usr/sbin/ipset''"
proof -
  have "is_trusted_binary sets_host ''/usr/sbin/ipset'' w = Some (Inr True, w)"
    by (simp add: is_trusted_binary_def bindc_def sys_metadata_def sets_host_def ret_def)
  then have "trusted_in sets_host w ''/usr/sbin/ipset''" by (simp add: is_trusted_binary_eq)
  then show ?thesis by (simp add: IPSET_CANDIDATES_def)
qed

theorem update_ipset_exact_witness:
  "\<exists>w'. update_ipset sets_host ''web'' [V4 1, V6 2, V4 3] [''web'' \<mapsto> {V4 9}, ''web-v6'' \<mapsto> {}] = Some (Inr (), w') \<and>
     w' ''web'' = Some {V4 1, V4 3} \<and> w' ''web-v6'' = Some {V6 2}"
proof -
  let ?w = "[''web'' \<mapsto> {V4 9}, ''web-v6'' \<mapsto> {}] :: kernel_sets"
  have tok: "token ''web''" and n6: "ipv6_ipset_name ''web'' = ''web-v6''"
    by code_simp+
  note exact = update_ipset_exact [where h = sets_host and exec = sets_exec and sets = "\<lambda>k. k" and
      storable = "\<lambda>_ _. True" and w = ?w and b = "''/usr/sbin/ipset''" and name = "''web''" and
      ips = "[V4 1, V6 2, V4 3]" and ?S4.0 = "{V4 9}" and ?S6.0 = "{}"]
  have "\<exists>w'. update_ipset sets_host ''web'' [V4 1, V6 2, V4 3] ?w = Some (Inr (), w') \<and>
      w' = ?w(''web'' \<mapsto> {a \<in> set [V4 1, V6 2, V4 3]. \<exists>x. a = V4 x},
              ipv6_ipset_name ''web'' \<mapsto> {a \<in> set [V4 1, V6 2, V4 3]. \<exists>x. a = V6 x})"
    by (rule exact [OF sets_host_laws sets_host_trusted tok]) (simp_all add: n6)
  then obtain w' where "update_ipset sets_host ''web'' [V4 1, V6 2, V4 3] ?w = Some (Inr (), w')"
    and w': "w' = ?w(''web'' \<mapsto> {a \<in> set [V4 1, V6 2, V4 3]. \<exists>x. a = V4 x},
                 ''web-v6'' \<mapsto> {a \<in> set [V4 1, V6 2, V4 3]. \<exists>x. a = V6 x})"
    unfolding n6 by blast
  moreover have "{a \<in> set [V4 1, V6 2, V4 3]. \<exists>x. a = V4 x} = {V4 1, V4 3}"
    "{a \<in> set [V4 1, V6 2, V4 3]. \<exists>x. a = V6 x} = {V6 2}" by auto
  ultimately show ?thesis by simp
qed

end
