(* ===== verification/Helper_Rules.thy ===== *)
theory Helper_Rules
  imports Netfilter Ipset
begin

text \<open>
  The packet filter rules of a network (\<^verbatim>\<open>src/src/helper.rs\<close>, from \<^verbatim>\<open>ensure_docker_iptables_rules\<close> to
  \<^verbatim>\<open>ensure_rootless_dns_redirects\<close>), argument by argument as the code builds them, and what the
  chains look like and do with a packet afterwards.
\<close>

section \<open>Model\<close>

definition PODMAN_OUTPUT_CHAIN :: string where
  "PODMAN_OUTPUT_CHAIN = ''DOCKERWALL-OUTPUT''"

definition ROOTLESS_DNS_IP :: u32 where
  "ROOTLESS_DNS_IP = ipv4_new 198 18 0 1"

definition ROOTLESS_DNS_CIDR :: string where
  "ROOTLESS_DNS_CIDR = ''198.18.0.1/32''"

definition ROOTLESS_DNS_REDIRECT_CIDR :: string where
  "ROOTLESS_DNS_REDIRECT_CIDR = ''127.0.0.1/32''"

record network_plan =
  plan_name :: string
  plan_subnet :: string
  plan_gateway :: string
  plan_dns_port :: u16

definition ensure_docker_iptables_rules :: "'w host \<Rightarrow> string \<Rightarrow> network_plan \<Rightarrow> ('w, unit) cmd" where
  "ensure_docker_iptables_rules h binary plan = seqc
     [ensure_rule_present h binary
        [''-I'', ''DOCKER-USER'', ''1'', ''-m'', ''comment'', ''--comment'', ''dockerwall:established'',
         ''-m'', ''conntrack'', ''--ctstate'', ''ESTABLISHED,RELATED'', ''-j'', ''ACCEPT''],
      ensure_rule_present h binary
        [''-I'', ''DOCKER-USER'', ''2'', ''-m'', ''comment'', ''--comment'',
         ''dockerwall:'' @ plan_name plan @ '':allow'', ''-s'', plan_subnet plan,
         ''-m'', ''set'', ''--match-set'', plan_name plan, ''dst'', ''-j'', ''ACCEPT''],
      ensure_rule_present h binary
        [''-I'', ''DOCKER-USER'', ''3'', ''-m'', ''comment'', ''--comment'',
         ''dockerwall:'' @ plan_name plan @ '':allow-local'', ''-s'', plan_subnet plan,
         ''-d'', ''172.16.0.0/12'', ''-j'', ''ACCEPT''],
      ensure_rule_present h binary
        [''-I'', ''DOCKER-USER'', ''4'', ''-m'', ''comment'', ''--comment'',
         ''dockerwall:'' @ plan_name plan @ '':drop'', ''-s'', plan_subnet plan, ''-j'', ''DROP''],
      ensure_rule_present h binary
        [''-t'', ''nat'', ''-I'', ''PREROUTING'', ''-m'', ''comment'', ''--comment'',
         ''dockerwall:'' @ plan_name plan @ '':dns-udp'', ''-s'', plan_subnet plan,
         ''-p'', ''udp'', ''--dport'', ''53'', ''-j'', ''DNAT'', ''--to-destination'',
         plan_gateway plan @ '':'' @ show_nat (unat (plan_dns_port plan))],
      ensure_rule_present h binary
        [''-t'', ''nat'', ''-I'', ''PREROUTING'', ''-m'', ''comment'', ''--comment'',
         ''dockerwall:'' @ plan_name plan @ '':dns-tcp'', ''-s'', plan_subnet plan,
         ''-p'', ''tcp'', ''--dport'', ''53'', ''-j'', ''DNAT'', ''--to-destination'',
         plan_gateway plan @ '':'' @ show_nat (unat (plan_dns_port plan))]]"

definition ensure_rootless_dns_redirects ::
  "'w host \<Rightarrow> string \<Rightarrow> string \<Rightarrow> string \<Rightarrow> u16 \<Rightarrow> ('w, unit) cmd" where
  "ensure_rootless_dns_redirects h binary name source_cidr dns_port = seqc
     (map (\<lambda>(chain, protocol).
        ensure_rule_present h binary
          [''-t'', ''nat'', ''-I'', chain, ''1'', ''-s'', source_cidr, ''-d'', ROOTLESS_DNS_CIDR,
           ''-p'', protocol, ''--dport'', ''53'', ''-m'', ''comment'', ''--comment'',
           ''dockerwall:'' @ name @ '':dns-'' @ chain @ ''-'' @ protocol,
           ''-j'', ''REDIRECT'', ''--to-ports'', show_nat (unat dns_port)])
        [(''OUTPUT'', ''udp''), (''OUTPUT'', ''tcp''), (''PREROUTING'', ''udp''), (''PREROUTING'', ''tcp'')])"

definition ensure_rootless_podman_ipv6_rules ::
  "'w host \<Rightarrow> string \<Rightarrow> string \<Rightarrow> string \<Rightarrow> ('w, unit) cmd" where
  "ensure_rootless_podman_ipv6_rules h binary name source_cidr = seqc
     ([ensure_chain h binary PODMAN_OUTPUT_CHAIN,
       ensure_rule_present h binary
         [''-I'', ''OUTPUT'', ''1'', ''-s'', source_cidr, ''-m'', ''comment'', ''--comment'',
          ''dockerwall:'' @ name @ '':output-hook'', ''-j'', PODMAN_OUTPUT_CHAIN],
       ensure_rule_present h binary
         [''-I'', PODMAN_OUTPUT_CHAIN, ''1'', ''-s'', source_cidr, ''-m'', ''comment'', ''--comment'',
          ''dockerwall:'' @ name @ '':established'', ''-m'', ''conntrack'', ''--ctstate'',
          ''ESTABLISHED,RELATED'', ''-j'', ''ACCEPT'']] @
      map (\<lambda>(position, icmp_type).
        ensure_rule_present h binary
          [''-I'', PODMAN_OUTPUT_CHAIN, position, ''-s'', source_cidr, ''-p'', ''ipv6-icmp'',
           ''-m'', ''icmp6'', ''--icmpv6-type'', icmp_type, ''-m'', ''comment'', ''--comment'',
           ''dockerwall:'' @ name @ '':'' @ icmp_type, ''-j'', ''ACCEPT''])
        [(''2'', ''neighbor-solicitation''), (''3'', ''neighbor-advertisement'')] @
      [ensure_rule_present h binary
         [''-I'', PODMAN_OUTPUT_CHAIN, ''4'', ''-s'', source_cidr, ''-m'', ''comment'', ''--comment'',
          ''dockerwall:'' @ name @ '':allow'', ''-m'', ''set'', ''--match-set'', ipv6_ipset_name name,
          ''dst'', ''-j'', ''ACCEPT''],
       ensure_rule_present h binary
         [''-I'', PODMAN_OUTPUT_CHAIN, ''5'', ''-s'', source_cidr, ''-m'', ''comment'', ''--comment'',
          ''dockerwall:'' @ name @ '':drop'', ''-j'', ''DROP'']])"

text \<open>The first part of \<^verbatim>\<open>ensure_rootless_podman_rules\<close>: the chain, its hook and the filter rules.\<close>

definition podman_filter_rules ::
  "'w host \<Rightarrow> string \<Rightarrow> string \<Rightarrow> string \<Rightarrow> u16 \<Rightarrow> ('w, unit) cmd" where
  "podman_filter_rules h binary name source_cidr dns_port =
     (let dns_destination = (if dns_port = 53 then ROOTLESS_DNS_CIDR else ROOTLESS_DNS_REDIRECT_CIDR)
      in seqc
     [ensure_chain h binary PODMAN_OUTPUT_CHAIN,
      ensure_rule_present h binary
        [''-I'', ''OUTPUT'', ''1'', ''-s'', source_cidr, ''-m'', ''comment'', ''--comment'',
         ''dockerwall:'' @ name @ '':output-hook'', ''-j'', PODMAN_OUTPUT_CHAIN],
      ensure_rule_present h binary
        [''-I'', PODMAN_OUTPUT_CHAIN, ''1'', ''-s'', source_cidr, ''-m'', ''comment'', ''--comment'',
         ''dockerwall:'' @ name @ '':established'', ''-m'', ''conntrack'', ''--ctstate'',
         ''ESTABLISHED,RELATED'', ''-j'', ''ACCEPT''],
      ensure_rule_present h binary
        [''-I'', PODMAN_OUTPUT_CHAIN, ''2'', ''-s'', source_cidr, ''-d'', dns_destination,
         ''-p'', ''udp'', ''--dport'', show_nat (unat dns_port), ''-m'', ''comment'', ''--comment'',
         ''dockerwall:'' @ name @ '':dns-udp'', ''-j'', ''ACCEPT''],
      ensure_rule_present h binary
        [''-I'', PODMAN_OUTPUT_CHAIN, ''3'', ''-s'', source_cidr, ''-d'', dns_destination,
         ''-p'', ''tcp'', ''--dport'', show_nat (unat dns_port), ''-m'', ''comment'', ''--comment'',
         ''dockerwall:'' @ name @ '':dns-tcp'', ''-j'', ''ACCEPT''],
      ensure_rule_present h binary
        [''-I'', PODMAN_OUTPUT_CHAIN, ''4'', ''-s'', source_cidr, ''-m'', ''comment'', ''--comment'',
         ''dockerwall:'' @ name @ '':allow'', ''-m'', ''set'', ''--match-set'', name, ''dst'',
         ''-j'', ''ACCEPT''],
      ensure_rule_present h binary
        [''-I'', PODMAN_OUTPUT_CHAIN, ''5'', ''-s'', source_cidr, ''-m'', ''comment'', ''--comment'',
         ''dockerwall:'' @ name @ '':drop'', ''-j'', ''DROP'']])"

definition ensure_rootless_podman_rules ::
  "'w host \<Rightarrow> string \<Rightarrow> string \<Rightarrow> string \<Rightarrow> string \<Rightarrow> string option \<Rightarrow> string \<Rightarrow> u16 \<Rightarrow> ('w, unit) cmd" where
  "ensure_rootless_podman_rules h binary ip6tables_binary name source_cidr source_ipv6_cidr interface dns_port = seqc
     [podman_filter_rules h binary name source_cidr dns_port,
      (if dns_port \<noteq> 53 then ensure_rootless_dns_redirects h binary name source_cidr dns_port else ret ()),
      ensure_rule_present h binary
        [''-t'', ''nat'', ''-I'', ''POSTROUTING'', ''1'', ''-s'', source_cidr, ''-o'', interface,
         ''-m'', ''comment'', ''--comment'', ''dockerwall:'' @ name @ '':masquerade'', ''-j'', ''MASQUERADE''],
      (case source_ipv6_cidr of
         Some cidr \<Rightarrow> ensure_rootless_podman_ipv6_rules h ip6tables_binary name cidr
       | None \<Rightarrow> ret ())]"

section \<open>The rules as options and targets\<close>

definition docker_accepts :: "network_plan \<Rightarrow> (string list list \<times> string list) list" where
  "docker_accepts plan =
     [([frag_comment ''dockerwall:established'', frag_established], [''ACCEPT'']),
      ([frag_comment (''dockerwall:'' @ plan_name plan @ '':allow''), frag_source (plan_subnet plan),
        frag_set (plan_name plan)], [''ACCEPT'']),
      ([frag_comment (''dockerwall:'' @ plan_name plan @ '':allow-local''), frag_source (plan_subnet plan),
        frag_dest ''172.16.0.0/12''], [''ACCEPT''])]"

definition docker_drop :: "network_plan \<Rightarrow> string list list \<times> string list" where
  "docker_drop plan =
     ([frag_comment (''dockerwall:'' @ plan_name plan @ '':drop''), frag_source (plan_subnet plan)], [''DROP''])"

definition docker_dnat :: "network_plan \<Rightarrow> string \<Rightarrow> string list list \<times> string list" where
  "docker_dnat plan protocol =
     ([frag_comment (''dockerwall:'' @ plan_name plan @ '':dns-'' @ protocol), frag_source (plan_subnet plan),
       [''-p'', protocol], [''--dport'', ''53'']],
      [''DNAT'', ''--to-destination'', plan_gateway plan @ '':'' @ show_nat (unat (plan_dns_port plan))])"

definition podman_hook :: "string \<Rightarrow> string \<Rightarrow> string list list \<times> string list" where
  "podman_hook name source =
     ([frag_source source, frag_comment (''dockerwall:'' @ name @ '':output-hook'')], [PODMAN_OUTPUT_CHAIN])"

definition podman_dns :: "string \<Rightarrow> string \<Rightarrow> u16 \<Rightarrow> string \<Rightarrow> string list list \<times> string list" where
  "podman_dns name source port protocol =
     ([frag_source source,
       frag_dest (if port = 53 then ROOTLESS_DNS_CIDR else ROOTLESS_DNS_REDIRECT_CIDR),
       [''-p'', protocol], [''--dport'', show_nat (unat port)],
       frag_comment (''dockerwall:'' @ name @ '':dns-'' @ protocol)], [''ACCEPT''])"

definition podman_accepts :: "string \<Rightarrow> string \<Rightarrow> u16 \<Rightarrow> (string list list \<times> string list) list" where
  "podman_accepts name source port =
     [([frag_source source, frag_comment (''dockerwall:'' @ name @ '':established''), frag_established], [''ACCEPT'']),
      podman_dns name source port ''udp'', podman_dns name source port ''tcp'',
      ([frag_source source, frag_comment (''dockerwall:'' @ name @ '':allow''), frag_set name], [''ACCEPT''])]"

definition podman_icmp :: "string \<Rightarrow> string \<Rightarrow> string \<Rightarrow> string list list \<times> string list" where
  "podman_icmp name source icmp_type =
     ([frag_source source, [''-p'', ''ipv6-icmp''], [''-m'', ''icmp6'', ''--icmpv6-type'', icmp_type],
       frag_comment (''dockerwall:'' @ name @ '':'' @ icmp_type)], [''ACCEPT''])"

definition podman_ipv6_accepts :: "string \<Rightarrow> string \<Rightarrow> (string list list \<times> string list) list" where
  "podman_ipv6_accepts name source =
     [([frag_source source, frag_comment (''dockerwall:'' @ name @ '':established''), frag_established], [''ACCEPT'']),
      podman_icmp name source ''neighbor-solicitation'', podman_icmp name source ''neighbor-advertisement'',
      ([frag_source source, frag_comment (''dockerwall:'' @ name @ '':allow''), frag_set (ipv6_ipset_name name)],
       [''ACCEPT''])]"

definition podman_drop :: "string \<Rightarrow> string \<Rightarrow> string list list \<times> string list" where
  "podman_drop name source =
     ([frag_source source, frag_comment (''dockerwall:'' @ name @ '':drop'')], [''DROP''])"

definition podman_redirect :: "string \<Rightarrow> string \<Rightarrow> u16 \<Rightarrow> string \<Rightarrow> string \<Rightarrow> string list list \<times> string list" where
  "podman_redirect name source port chain protocol =
     ([frag_source source, frag_dest ROOTLESS_DNS_CIDR, [''-p'', protocol], [''--dport'', ''53''],
       frag_comment (''dockerwall:'' @ name @ '':dns-'' @ chain @ ''-'' @ protocol)],
      [''REDIRECT'', ''--to-ports'', show_nat (unat port)])"

definition podman_masquerade :: "string \<Rightarrow> string \<Rightarrow> string \<Rightarrow> string list list \<times> string list" where
  "podman_masquerade name source interface =
     ([frag_source source, [''-o'', interface], frag_comment (''dockerwall:'' @ name @ '':masquerade'')],
      [''MASQUERADE''])"

lemmas block_defs = podman_redirect_def podman_masquerade_def docker_accepts_def docker_drop_def docker_dnat_def podman_hook_def podman_dns_def
  podman_accepts_def podman_icmp_def podman_ipv6_accepts_def podman_drop_def

lemma show_positions:
  "show_nat (Suc 0) = ''1''" "show_nat (Suc (Suc 0)) = ''2''" "show_nat (Suc (Suc (Suc 0))) = ''3''"
  "show_nat (Suc (Suc (Suc (Suc 0)))) = ''4''" "show_nat (Suc (Suc (Suc (Suc (Suc 0))))) = ''5''"
  by code_simp+

lemma ensure_docker_iptables_rules_blocks:
  "ensure_docker_iptables_rules h b plan =
     seqc (block_commands h b ''filter'' ''DOCKER-USER'' 0 (docker_accepts plan @ [docker_drop plan]) @
       map (\<lambda>r. ensure_rule_present h b (table_args ''nat'' @ ''-I'' # ''PREROUTING'' # spec_of r))
         [docker_dnat plan ''udp'', docker_dnat plan ''tcp''])"
  unfolding ensure_docker_iptables_rules_def
  by (simp add: block_commands_def block_defs spec_of_def table_args_def show_positions)

lemma podman_filter_rules_blocks:
  "podman_filter_rules h b name source port =
     seqc ([ensure_chain h b PODMAN_OUTPUT_CHAIN] @
       block_commands h b ''filter'' ''OUTPUT'' 0 [podman_hook name source] @
       block_commands h b ''filter'' PODMAN_OUTPUT_CHAIN 0 (podman_accepts name source port @ [podman_drop name source]))"
  unfolding podman_filter_rules_def Let_def
  by (simp add: block_commands_def block_defs spec_of_def table_args_def show_positions)

text \<open>Rules that all go to the first position: the last one ends up on top.\<close>

definition stack_commands ::
  "'w host \<Rightarrow> string \<Rightarrow> string \<Rightarrow> string \<Rightarrow> (string list list \<times> string list) list \<Rightarrow> ('w, unit) cmd list" where
  "stack_commands h b t ch rules =
     map (\<lambda>r. ensure_rule_present h b (table_args t @ ''-I'' # ch # show_nat (Suc 0) # spec_of r)) rules"

lemma ensure_rootless_dns_redirects_stacks:
  "ensure_rootless_dns_redirects h b name source port =
     seqc (stack_commands h b ''nat'' ''OUTPUT'' (map (podman_redirect name source port ''OUTPUT'') [''udp'', ''tcp'']) @
       stack_commands h b ''nat'' ''PREROUTING'' (map (podman_redirect name source port ''PREROUTING'') [''udp'', ''tcp'']))"
  unfolding ensure_rootless_dns_redirects_def
  by (simp add: stack_commands_def block_defs spec_of_def table_args_def show_positions)

lemma ensure_rootless_podman_rules_blocks:
  "ensure_rootless_podman_rules h b b6 name source source6 interface port = seqc
     [podman_filter_rules h b name source port,
      (if port \<noteq> 53 then ensure_rootless_dns_redirects h b name source port else ret ()),
      seqc (stack_commands h b ''nat'' ''POSTROUTING'' [podman_masquerade name source interface]),
      (case source6 of Some c \<Rightarrow> ensure_rootless_podman_ipv6_rules h b6 name c | None \<Rightarrow> ret ())]"
  unfolding ensure_rootless_podman_rules_def
  by (simp add: stack_commands_def block_defs spec_of_def table_args_def show_positions)

lemma ensure_rootless_podman_ipv6_rules_blocks:
  "ensure_rootless_podman_ipv6_rules h b name source =
     seqc ([ensure_chain h b PODMAN_OUTPUT_CHAIN] @
       block_commands h b ''filter'' ''OUTPUT'' 0 [podman_hook name source] @
       block_commands h b ''filter'' PODMAN_OUTPUT_CHAIN 0 (podman_ipv6_accepts name source @ [podman_drop name source]))"
  unfolding ensure_rootless_podman_ipv6_rules_def
  by (simp add: block_commands_def block_defs spec_of_def table_args_def show_positions)

lemma podman_chain_name: "user_chain_name PODMAN_OUTPUT_CHAIN"
  by (simp add: user_chain_name_def PODMAN_OUTPUT_CHAIN_def)

section \<open>Each block guards its source\<close>

lemma neq_by_last: "last s \<noteq> last t \<Longrightarrow> s \<noteq> t"
  by auto

lemma docker_comments_distinct:
  "name @ '':allow'' \<noteq> ''established''" "name @ '':allow-local'' \<noteq> ''established''"
  "name @ '':drop'' \<noteq> ''established''"
  "''established'' \<noteq> name @ '':allow''" "''established'' \<noteq> name @ '':allow-local''"
  "''established'' \<noteq> name @ '':drop''"
  by (rule neq_by_last; simp)+

lemmas block_simps = block_defs spec_ok_def fragment_def one_value_options_def modules_def rule_comment_def
  docker_comments_distinct PODMAN_OUTPUT_CHAIN_def

interpretation docker: guarded_block "plan_subnet plan" "docker_accepts plan" "docker_drop plan" for plan
  by unfold_locales (auto simp: block_simps)

interpretation podman: guarded_block source "podman_accepts name source port" "podman_drop name source"
  for name source port
  by unfold_locales (auto simp: block_simps)

interpretation podman6: guarded_block source "podman_ipv6_accepts name source" "podman_drop name source"
  for name source
  by unfold_locales (auto simp: block_simps)

section \<open>Running the rule commands\<close>

lemma front_runs:
  assumes laws: "iptables_laws h nf" and b: "iptables_binary b" and key: "key = (family_of b, ''nat'', ch)"
    and valid: "nf_valid nf w key (spec_of r)" and ns: "nf_chains nf w key = Some ns"
    and r: "spec_ok r" "spec_of r = ''-m'' # rest"
  shows "\<exists>w'. ensure_rule_present h b (table_args ''nat'' @ ''-I'' # ch # spec_of r) w = Some (Inr (), w') \<and>
     same_filter nf w w' \<and>
     nf_chains nf w' = (nf_chains nf w)(key \<mapsto> nf_rule nf (spec_of r) # removeAll (nf_rule nf (spec_of r)) ns)"
proof -
  have "parse_u32 ''-m'' = None" by code_simp
  from ensure_rule_present_front [OF laws b valid ns key _ _ r this] show ?thesis by auto
qed

lemma docker_dnat_spec: "spec_ok (docker_dnat plan protocol)"
  "\<exists>rest. spec_of (docker_dnat plan protocol) = ''-m'' # rest"
  by (simp_all add: block_simps spec_of_def)

lemma docker_dnat_distinct:
  "match_laws nf \<Longrightarrow> nf_rule nf (spec_of (docker_dnat plan ''udp'')) \<noteq> nf_rule nf (spec_of (docker_dnat plan ''tcp''))"
proof
  assume laws: "match_laws nf"
    and "nf_rule nf (spec_of (docker_dnat plan ''udp'')) = nf_rule nf (spec_of (docker_dnat plan ''tcp''))"
  then have "{c. frag_comment c \<in> set (fst (docker_dnat plan ''udp''))} = {c. frag_comment c \<in> set (fst (docker_dnat plan ''tcp''))}"
    using match_laws_rule(3) [OF laws docker_dnat_spec(1)] by metis
  then show False by (auto simp: docker_dnat_def)
qed

definition docker_chains ::
  "('w, 'r, 'p) netfilter \<Rightarrow> network_plan \<Rightarrow> 'r list \<Rightarrow> 'r list \<Rightarrow> (chain_key \<Rightarrow> 'r list option)
     \<Rightarrow> (chain_key \<Rightarrow> 'r list option)" where
  "docker_chains nf plan rs ns cs =
     cs((Inet, ''filter'', ''DOCKER-USER'') \<mapsto>
          rules_of nf (docker_accepts plan @ [docker_drop plan]) @
          without (rules_of nf (docker_accepts plan @ [docker_drop plan])) rs,
        (Inet, ''nat'', ''PREROUTING'') \<mapsto>
          rules_of nf [docker_dnat plan ''tcp'', docker_dnat plan ''udp''] @
          without (rules_of nf [docker_dnat plan ''udp'', docker_dnat plan ''tcp'']) ns)"

definition docker_valid :: "('w, 'r, 'p) netfilter \<Rightarrow> network_plan \<Rightarrow> 'w \<Rightarrow> bool" where
  "docker_valid nf plan w \<longleftrightarrow>
     (\<forall>r \<in> set (docker_accepts plan @ [docker_drop plan]).
        nf_valid nf w (Inet, ''filter'', ''DOCKER-USER'') (spec_of r)) \<and>
     (\<forall>r \<in> set [docker_dnat plan ''udp'', docker_dnat plan ''tcp''].
        nf_valid nf w (Inet, ''nat'', ''PREROUTING'') (spec_of r))"

lemma family_iptables: "b \<in> set IPTABLES_CANDIDATES \<Longrightarrow> family_of b = Inet \<and> iptables_binary b"
  by (auto simp: family_of_def IPTABLES_CANDIDATES_def IP6TABLES_CANDIDATES_def iptables_binary_def)

lemma family_ip6tables: "b \<in> set IP6TABLES_CANDIDATES \<Longrightarrow> family_of b = Inet6 \<and> iptables_binary b"
  by (auto simp: family_of_def IPTABLES_CANDIDATES_def IP6TABLES_CANDIDATES_def iptables_binary_def)

lemma docker_rules_run:
  assumes laws: "iptables_laws h nf" "match_laws nf" and b: "b \<in> set IPTABLES_CANDIDATES"
    and valid: "docker_valid nf plan w"
    and rs: "nf_chains nf w (Inet, ''filter'', ''DOCKER-USER'') = Some rs"
    and ns: "nf_chains nf w (Inet, ''nat'', ''PREROUTING'') = Some ns"
  shows "\<exists>w'. ensure_docker_iptables_rules h b plan w = Some (Inr (), w') \<and> same_filter nf w w' \<and>
     nf_chains nf w' = docker_chains nf plan rs ns (nf_chains nf w)"
proof -
  let ?fk = "(Inet, ''filter'', ''DOCKER-USER'')" and ?nk = "(Inet, ''nat'', ''PREROUTING'')"
  let ?rules = "docker_accepts plan @ [docker_drop plan]"
  let ?udp = "docker_dnat plan ''udp''" and ?tcp = "docker_dnat plan ''tcp''"
  let ?cmd = "\<lambda>r. ensure_rule_present h b (table_args ''nat'' @ ''-I'' # ''PREROUTING'' # spec_of r)"
  note bb = family_iptables [OF b, THEN conjunct2] and fam = family_iptables [OF b, THEN conjunct1]
  have "\<And>r. r \<in> set ?rules \<Longrightarrow> nf_valid nf w ?fk (spec_of r)"
    using valid unfolding docker_valid_def by blast
  moreover have "distinct ([] @ rules_of nf ?rules)" using docker.distinct_rules [OF laws(2)] by simp
  ultimately obtain w1 where w1: "seqc (block_commands h b ''filter'' ''DOCKER-USER'' 0 ?rules) w = Some (Inr (), w1)"
    "same_filter nf w w1" "nf_chains nf w1 = (nf_chains nf w)(?fk \<mapsto> rules_of nf ?rules @ without (rules_of nf ?rules) rs)"
    using block_runs [OF laws(1) bb, of ?fk "''filter''" "''DOCKER-USER''" ?rules w "[]" rs] rs
    by (auto simp: fam docker_accepts_def)
  have "nf_valid nf w1 ?nk (spec_of ?udp)" using valid same_filter_valid [OF w1(2)]
    by (simp add: docker_valid_def)
  moreover have "nf_chains nf w1 ?nk = Some ns" using w1(3) ns by simp
  ultimately obtain w2 where w2: "?cmd ?udp w1 = Some (Inr (), w2)" "same_filter nf w1 w2"
    "nf_chains nf w2 = (nf_chains nf w1)(?nk \<mapsto> nf_rule nf (spec_of ?udp) # removeAll (nf_rule nf (spec_of ?udp)) ns)"
    using front_runs [OF laws(1) bb, of ?nk "''PREROUTING''" w1 ?udp ns] docker_dnat_spec by (metis fam)
  have "nf_valid nf w2 ?nk (spec_of ?tcp)" using valid
      same_filter_valid [OF w1(2)] same_filter_valid [OF w2(2)] by (simp add: docker_valid_def)
  moreover have "nf_chains nf w2 ?nk = Some (nf_rule nf (spec_of ?udp) # removeAll (nf_rule nf (spec_of ?udp)) ns)"
    using w2(3) by simp
  ultimately obtain w3 where w3: "?cmd ?tcp w2 = Some (Inr (), w3)" "same_filter nf w2 w3"
    "nf_chains nf w3 = (nf_chains nf w2)(?nk \<mapsto> nf_rule nf (spec_of ?tcp) #
       removeAll (nf_rule nf (spec_of ?tcp)) (nf_rule nf (spec_of ?udp) # removeAll (nf_rule nf (spec_of ?udp)) ns))"
    using front_runs [OF laws(1) bb, of ?nk "''PREROUTING''" w2 ?tcp] docker_dnat_spec by (metis fam)
  have "seqc (block_commands h b ''filter'' ''DOCKER-USER'' 0 ?rules @ map ?cmd [?udp, ?tcp]) w = Some (Inr (), w3)"
    unfolding seqc_append using w1(1) w2(1) w3(1) by (simp add: bindc_def ret_def)
  moreover have "nf_chains nf w3 = docker_chains nf plan rs ns (nf_chains nf w)"
    unfolding docker_chains_def w3(3) w2(3) w1(3) using docker_dnat_distinct [OF laws(2), of plan]
    by (simp add: without_Cons)
  moreover have "same_filter nf w w3" using w1(2) w2(2) w3(2) by (blast intro: same_filter_trans)
  ultimately show ?thesis unfolding ensure_docker_iptables_rules_blocks by blast
qed

subsection \<open>A hook into the policy chain\<close>

lemma POC_not_builtin: "PODMAN_OUTPUT_CHAIN \<notin> set builtin_chains" "''OUTPUT'' \<in> set builtin_chains"
  by (simp_all add: PODMAN_OUTPUT_CHAIN_def builtin_chains_def)

lemma podman_hook_spec: "spec_ok (podman_hook name source)" "snd (podman_hook name source) = [PODMAN_OUTPUT_CHAIN]"
  by (simp_all add: block_simps)

definition policy_valid ::
  "('w, 'r, 'p) netfilter \<Rightarrow> family \<Rightarrow> (string list list \<times> string list) \<Rightarrow> (string list list \<times> string list) list
     \<Rightarrow> 'w \<Rightarrow> bool" where
  "policy_valid nf f hook rules w \<longleftrightarrow>
     nf_valid nf w (f, ''filter'', ''OUTPUT'') (spec_of (fst hook, [''ACCEPT''])) \<and>
     (\<forall>r \<in> set rules. nf_valid nf w (f, ''filter'', PODMAN_OUTPUT_CHAIN) (spec_of r))"

definition policy_chains ::
  "('w, 'r, 'p) netfilter \<Rightarrow> family \<Rightarrow> (string list list \<times> string list) \<Rightarrow> (string list list \<times> string list) list
     \<Rightarrow> 'r list \<Rightarrow> (chain_key \<Rightarrow> 'r list option) \<Rightarrow> (chain_key \<Rightarrow> 'r list option)" where
  "policy_chains nf f hook rules os cs =
     cs((f, ''filter'', ''OUTPUT'') \<mapsto> nf_rule nf (spec_of hook) # removeAll (nf_rule nf (spec_of hook)) os,
        (f, ''filter'', PODMAN_OUTPUT_CHAIN) \<mapsto> rules_of nf rules @ without (rules_of nf rules)
          (case cs (f, ''filter'', PODMAN_OUTPUT_CHAIN) of Some rs \<Rightarrow> rs | None \<Rightarrow> []))"

lemma policy_runs:
  assumes laws: "iptables_laws h nf" and bb: "iptables_binary b" and f: "family_of b = f"
    and hook: "spec_ok hook" "snd hook = [PODMAN_OUTPUT_CHAIN]"
    and valid: "policy_valid nf f hook rules w"
    and dist: "distinct (rules_of nf rules)" and len: "length rules < 4294967295"
    and os: "nf_chains nf w (f, ''filter'', ''OUTPUT'') = Some os"
  shows "\<exists>w'. seqc ([ensure_chain h b PODMAN_OUTPUT_CHAIN] @ block_commands h b ''filter'' ''OUTPUT'' 0 [hook] @
       block_commands h b ''filter'' PODMAN_OUTPUT_CHAIN 0 rules) w = Some (Inr (), w') \<and>
     same_filter nf w w' \<and> nf_chains nf w' = policy_chains nf f hook rules os (nf_chains nf w)"
proof -
  let ?ok = "(f, ''filter'', ''OUTPUT'')" and ?pk = "(f, ''filter'', PODMAN_OUTPUT_CHAIN)"
  let ?old = "case nf_chains nf w ?pk of Some rs \<Rightarrow> rs | None \<Rightarrow> []"
  have keys: "?ok \<noteq> ?pk" by (simp add: PODMAN_OUTPUT_CHAIN_def)
  obtain w1 where w1: "ensure_chain h b PODMAN_OUTPUT_CHAIN w = Some (Inr (), w1)" "same_filter nf w w1"
    "nf_chains nf w1 = (nf_chains nf w)(?pk \<mapsto> ?old)"
  proof -
    obtain w1 where "ensure_chain h b PODMAN_OUTPUT_CHAIN w = Some (Inr (), w1)" "same_filter nf w w1"
      and c: "nf_chains nf w1 = (if nf_chains nf w ?pk = None then (nf_chains nf w)(?pk \<mapsto> []) else nf_chains nf w)"
      using ensure_chain_runs [OF laws bb podman_chain_name, of w] unfolding f by blast
    moreover have "nf_chains nf w1 = (nf_chains nf w)(?pk \<mapsto> ?old)"
      unfolding c by (cases "nf_chains nf w ?pk") (simp_all add: fun_upd_idem)
    ultimately show thesis using that by blast
  qed
  have "nf_valid nf w1 ?ok (spec_of (fst hook, [''ACCEPT'']))"
    using valid same_filter_valid [OF w1(2)] by (simp add: policy_valid_def)
  then have "nf_valid nf w1 ?ok (spec_of hook)"
    using iptables_jump [OF laws POC_not_builtin(2,1), of w1 f "fst hook"] w1(3) hook by (cases hook) simp
  then obtain w2 where w2: "seqc (block_commands h b ''filter'' ''OUTPUT'' 0 [hook]) w1 = Some (Inr (), w2)"
    "same_filter nf w1 w2"
    "nf_chains nf w2 = (nf_chains nf w1)(?ok \<mapsto> nf_rule nf (spec_of hook) # removeAll (nf_rule nf (spec_of hook)) os)"
    using block_runs [OF laws bb, of ?ok "''filter''" "''OUTPUT''" "[hook]" w1 "[]" os] w1(3) os keys
    by (auto simp: f without_Cons)
  have "\<And>r. r \<in> set rules \<Longrightarrow> nf_valid nf w2 ?pk (spec_of r)"
    using valid same_filter_valid [OF w1(2)] same_filter_valid [OF w2(2)] by (simp add: policy_valid_def)
  then obtain w3 where w3: "seqc (block_commands h b ''filter'' PODMAN_OUTPUT_CHAIN 0 rules) w2 = Some (Inr (), w3)"
    "same_filter nf w2 w3"
    "nf_chains nf w3 = (nf_chains nf w2)(?pk \<mapsto> rules_of nf rules @ without (rules_of nf rules) ?old)"
    using block_runs [OF laws bb, of ?pk "''filter''" PODMAN_OUTPUT_CHAIN rules w2 "[]" ?old] w2(3) w1(3) keys dist len
    by (auto simp: f)
  have "seqc ([ensure_chain h b PODMAN_OUTPUT_CHAIN] @ block_commands h b ''filter'' ''OUTPUT'' 0 [hook] @
       block_commands h b ''filter'' PODMAN_OUTPUT_CHAIN 0 rules) w = Some (Inr (), w3)"
    using w1(1) w2(1) w3(1) by (simp add: seqc_append bindc_def)
  moreover have "nf_chains nf w3 = policy_chains nf f hook rules os (nf_chains nf w)"
    unfolding policy_chains_def w3(3) w2(3) w1(3) using keys by (auto simp: fun_eq_iff)
  moreover have "same_filter nf w w3" using w1(2) w2(2) w3(2) by (blast intro: same_filter_trans)
  ultimately show ?thesis by blast
qed

lemma stack_runs:
  assumes laws: "iptables_laws h nf" and bb: "iptables_binary b"
    and key: "key = (family_of b, t, ch)" and t: "t \<noteq> ''-I''" "t \<noteq> ''-A''"
    and "\<And>r. r \<in> set rules \<Longrightarrow> nf_valid nf w key (spec_of r)"
    and "distinct (rules_of nf rules)" and "nf_chains nf w key = Some ns"
  shows "\<exists>w'. seqc (stack_commands h b t ch rules) w = Some (Inr (), w') \<and> same_filter nf w w' \<and>
     nf_chains nf w' = (nf_chains nf w)(key \<mapsto> rev (rules_of nf rules) @ without (rules_of nf rules) ns)"
  using assms(6-)
proof (induction rules arbitrary: w ns)
  case Nil
  then show ?case
    by (intro exI [of _ w]) (auto simp: stack_commands_def ret_def same_filter_def fun_upd_idem)
next
  case (Cons r rules)
  let ?r = "nf_rule nf (spec_of r)"
  have "nf_valid nf w key (spec_of r)" using Cons.prems(1) by simp
  from ensure_rule_present_at [OF laws bb this Cons.prems(3) key t, of 0]
  obtain w1 where w1: "ensure_rule_present h b (table_args t @ ''-I'' # ch # show_nat (Suc 0) # spec_of r) w = Some (Inr (), w1)"
    "same_filter nf w w1" "nf_chains nf w1 = (nf_chains nf w)(key \<mapsto> ?r # removeAll ?r ns)"
    by (auto simp: insert_at_def)
  have "\<And>r'. r' \<in> set rules \<Longrightarrow> nf_valid nf w1 key (spec_of r')"
    using Cons.prems(1) same_filter_valid [OF w1(2)] by simp
  moreover have "distinct (rules_of nf rules)" using Cons.prems(2) by simp
  moreover have "nf_chains nf w1 key = Some (?r # removeAll ?r ns)" using w1(3) by simp
  ultimately obtain w' where w': "seqc (stack_commands h b t ch rules) w1 = Some (Inr (), w')" "same_filter nf w1 w'"
    "nf_chains nf w' = (nf_chains nf w1)(key \<mapsto> rev (rules_of nf rules) @ without (rules_of nf rules) (?r # removeAll ?r ns))"
    using Cons.IH by blast
  have "without (rules_of nf rules) (?r # removeAll ?r ns) = ?r # without (rules_of nf (r # rules)) ns"
    using Cons.prems(2) by (simp add: without_Cons) (simp add: without_def)
  with w1 w' same_filter_trans [OF w1(2) w'(2)] show ?case
    by (auto simp: stack_commands_def bindc_def)
qed

lemma podman_redirect_spec: "spec_ok (podman_redirect name source port chain protocol)"
  by (simp add: block_simps)

lemma podman_redirects_distinct:
  assumes "match_laws nf"
  shows "distinct (rules_of nf (map (podman_redirect name source port chain) [''udp'', ''tcp'']))"
proof -
  let ?r = "\<lambda>pr. nf_rule nf (spec_of (podman_redirect name source port chain pr))"
  let ?c = "\<lambda>pr. ''dockerwall:'' @ name @ '':dns-'' @ chain @ ''-'' @ pr"
  have c: "nf_comments nf (?r pr) = {?c pr}" for pr
    unfolding match_laws_rule(3) [OF assms podman_redirect_spec] by (simp add: podman_redirect_def)
  have "?r ''udp'' \<noteq> ?r ''tcp''"
  proof
    assume "?r ''udp'' = ?r ''tcp''"
    then have "{?c ''udp''} = {?c ''tcp''}" unfolding c [symmetric] by (rule arg_cong)
    then show False by simp
  qed
  then show ?thesis by simp
qed

text \<open>A step that succeeds, keeps matching and touches only some chains.\<close>

definition touches_only :: "('w, 'r, 'p) netfilter \<Rightarrow> (chain_key \<Rightarrow> bool) \<Rightarrow> 'w \<Rightarrow> 'w \<Rightarrow> bool" where
  "touches_only nf K w w' \<longleftrightarrow>
     same_filter nf w w' \<and> (\<forall>key. \<not> K key \<longrightarrow> nf_chains nf w' key = nf_chains nf w key)"

abbreviation nat_key :: "chain_key \<Rightarrow> bool" where
  "nat_key key \<equiv> fst key = Inet \<and> fst (snd key) = ''nat''"

definition nat_ready :: "('w, 'r, 'p) netfilter \<Rightarrow> 'w \<Rightarrow> bool" where
  "nat_ready nf w \<longleftrightarrow>
     list_all (\<lambda>ch. nf_chains nf w (Inet, ''nat'', ch) \<noteq> None) [''OUTPUT'', ''PREROUTING'', ''POSTROUTING'']"

definition redirects_valid :: "('w, 'r, 'p) netfilter \<Rightarrow> string \<Rightarrow> string \<Rightarrow> u16 \<Rightarrow> 'w \<Rightarrow> bool" where
  "redirects_valid nf name source port w \<longleftrightarrow>
     (\<forall>ch \<in> {''OUTPUT'', ''PREROUTING''}. \<forall>pr \<in> {''udp'', ''tcp''}.
        nf_valid nf w (Inet, ''nat'', ch) (spec_of (podman_redirect name source port ch pr)))"

definition redirect_chain :: "('w, 'r, 'p) netfilter \<Rightarrow> string \<Rightarrow> string \<Rightarrow> u16 \<Rightarrow> string \<Rightarrow> 'w \<Rightarrow> bool" where
  "redirect_chain nf name source port ch w \<longleftrightarrow>
     (\<exists>tail. nf_chains nf w (Inet, ''nat'', ch) =
        Some (rules_of nf (map (podman_redirect name source port ch) [''tcp'', ''udp'']) @ tail))"

lemma redirect_stack_runs:
  assumes laws: "iptables_laws h nf" "match_laws nf" and b: "b \<in> set IPTABLES_CANDIDATES"
    and valid: "redirects_valid nf name source port w" and ch: "ch \<in> {''OUTPUT'', ''PREROUTING''}"
    and ns: "nf_chains nf w (Inet, ''nat'', ch) = Some ns"
  shows "\<exists>w'. seqc (stack_commands h b ''nat'' ch (map (podman_redirect name source port ch) [''udp'', ''tcp''])) w =
       Some (Inr (), w') \<and> touches_only nf (\<lambda>key. key = (Inet, ''nat'', ch)) w w' \<and>
     redirect_chain nf name source port ch w'"
proof -
  let ?rules = "map (podman_redirect name source port ch) [''udp'', ''tcp'']"
  have "nf_valid nf w (Inet, ''nat'', ch) (spec_of r)" if "r \<in> set ?rules" for r
    using valid ch that by (auto simp: redirects_valid_def)
  then obtain w' where "seqc (stack_commands h b ''nat'' ch ?rules) w = Some (Inr (), w')" "same_filter nf w w'"
    and "nf_chains nf w' = (nf_chains nf w)((Inet, ''nat'', ch) \<mapsto> rev (rules_of nf ?rules) @ without (rules_of nf ?rules) ns)"
    using stack_runs [OF laws(1) family_iptables [OF b, THEN conjunct2], of "(Inet, ''nat'', ch)" "''nat''" ch ?rules w ns]
      podman_redirects_distinct [OF laws(2)] ns family_iptables [OF b] by auto
  then show ?thesis by (auto simp: touches_only_def redirect_chain_def)
qed

lemma redirects_run:
  assumes laws: "iptables_laws h nf" "match_laws nf" and b: "b \<in> set IPTABLES_CANDIDATES"
    and valid: "redirects_valid nf name source port w" and ready: "nat_ready nf w"
  shows "\<exists>w'. ensure_rootless_dns_redirects h b name source port w = Some (Inr (), w') \<and>
     touches_only nf (\<lambda>key. nat_key key \<and> snd (snd key) \<noteq> ''POSTROUTING'') w w' \<and> nat_ready nf w' \<and>
     redirect_chain nf name source port ''OUTPUT'' w' \<and> redirect_chain nf name source port ''PREROUTING'' w'"
proof -
  obtain os where "nf_chains nf w (Inet, ''nat'', ''OUTPUT'') = Some os" using ready by (auto simp: nat_ready_def)
  then obtain w1 where w1: "seqc (stack_commands h b ''nat'' ''OUTPUT''
      (map (podman_redirect name source port ''OUTPUT'') [''udp'', ''tcp''])) w = Some (Inr (), w1)"
    "touches_only nf (\<lambda>key. key = (Inet, ''nat'', ''OUTPUT'')) w w1" "redirect_chain nf name source port ''OUTPUT'' w1"
    using redirect_stack_runs [OF laws b valid, of "''OUTPUT''"] by blast
  have "redirects_valid nf name source port w1"
    using valid w1(2) by (auto simp: redirects_valid_def touches_only_def intro: same_filter_valid)
  moreover obtain ps where "nf_chains nf w1 (Inet, ''nat'', ''PREROUTING'') = Some ps"
    using ready w1(2) by (auto simp: nat_ready_def touches_only_def)
  ultimately obtain w2 where w2: "seqc (stack_commands h b ''nat'' ''PREROUTING''
      (map (podman_redirect name source port ''PREROUTING'') [''udp'', ''tcp''])) w1 = Some (Inr (), w2)"
    "touches_only nf (\<lambda>key. key = (Inet, ''nat'', ''PREROUTING'')) w1 w2" "redirect_chain nf name source port ''PREROUTING'' w2"
    using redirect_stack_runs [OF laws b, of name source port w1 "''PREROUTING''"] by blast
  have "ensure_rootless_dns_redirects h b name source port w = Some (Inr (), w2)"
    unfolding ensure_rootless_dns_redirects_stacks seqc_append using w1(1) w2(1) by (simp add: bindc_def)
  moreover have "touches_only nf (\<lambda>key. nat_key key \<and> snd (snd key) \<noteq> ''POSTROUTING'') w w2"
    using w1(2) w2(2) by (auto simp: touches_only_def intro: same_filter_trans)
  moreover have out: "nf_chains nf w2 (Inet, ''nat'', ''OUTPUT'') = nf_chains nf w1 (Inet, ''nat'', ''OUTPUT'')"
    "nf_chains nf w2 (Inet, ''nat'', ''POSTROUTING'') = nf_chains nf w (Inet, ''nat'', ''POSTROUTING'')"
    using w1(2) w2(2) by (simp_all add: touches_only_def)
  moreover have "redirect_chain nf name source port ''OUTPUT'' w2" using w1(3) out(1) by (simp add: redirect_chain_def)
  moreover have "nat_ready nf w2" using w1(3) w2(3) ready out by (auto simp: nat_ready_def redirect_chain_def)
  ultimately show ?thesis using w2(3) by blast
qed

definition podman_valid ::
  "('w, 'r, 'p) netfilter \<Rightarrow> string \<Rightarrow> string \<Rightarrow> string option \<Rightarrow> string \<Rightarrow> u16 \<Rightarrow> 'w \<Rightarrow> bool" where
  "podman_valid nf name source source6 interface port w \<longleftrightarrow>
     policy_valid nf Inet (podman_hook name source) (podman_accepts name source port @ [podman_drop name source]) w \<and>
     redirects_valid nf name source port w \<and>
     nf_valid nf w (Inet, ''nat'', ''POSTROUTING'') (spec_of (podman_masquerade name source interface)) \<and>
     (\<forall>c. source6 = Some c \<longrightarrow>
        policy_valid nf Inet6 (podman_hook name c) (podman_ipv6_accepts name c @ [podman_drop name c]) w)"

lemma policy_valid_same: "same_filter nf w w' \<Longrightarrow> policy_valid nf f hook rules w \<Longrightarrow> policy_valid nf f hook rules w'"
  by (auto simp: policy_valid_def intro: same_filter_valid)

lemma podman_valid_same:
  "same_filter nf w w' \<Longrightarrow> podman_valid nf name source source6 interface port w \<Longrightarrow>
     podman_valid nf name source source6 interface port w'"
  unfolding podman_valid_def redirects_valid_def by (blast intro: same_filter_valid policy_valid_same)

lemma podman_filter_run:
  assumes laws: "iptables_laws h nf" "match_laws nf" and b: "b \<in> set IPTABLES_CANDIDATES"
    and valid: "podman_valid nf name source source6 interface port w"
    and os: "nf_chains nf w (Inet, ''filter'', ''OUTPUT'') = Some os"
  shows "\<exists>w'. podman_filter_rules h b name source port w = Some (Inr (), w') \<and> same_filter nf w w' \<and>
     nf_chains nf w' = policy_chains nf Inet (podman_hook name source)
       (podman_accepts name source port @ [podman_drop name source]) os (nf_chains nf w)"
  unfolding podman_filter_rules_blocks using valid family_iptables [OF b]
  by (intro policy_runs [OF laws(1) _ _ podman_hook_spec _ podman.distinct_rules [OF laws(2)] _ os])
    (auto simp: podman_valid_def podman_accepts_def)

lemma podman_ipv6_run:
  assumes laws: "iptables_laws h nf" "match_laws nf" and b: "b \<in> set IP6TABLES_CANDIDATES"
    and valid: "podman_valid nf name source (Some c) interface port w"
    and os: "nf_chains nf w (Inet6, ''filter'', ''OUTPUT'') = Some os"
  shows "\<exists>w'. ensure_rootless_podman_ipv6_rules h b name c w = Some (Inr (), w') \<and> same_filter nf w w' \<and>
     nf_chains nf w' = policy_chains nf Inet6 (podman_hook name c)
       (podman_ipv6_accepts name c @ [podman_drop name c]) os (nf_chains nf w)"
  unfolding ensure_rootless_podman_ipv6_rules_blocks using valid family_ip6tables [OF b]
  by (intro policy_runs [OF laws(1) _ _ podman_hook_spec _ podman6.distinct_rules [OF laws(2)] _ os])
    (auto simp: podman_valid_def podman_ipv6_accepts_def)

lemma masquerade_run:
  assumes laws: "iptables_laws h nf" and b: "b \<in> set IPTABLES_CANDIDATES"
    and valid: "podman_valid nf name source source6 interface port w"
    and ns: "nf_chains nf w (Inet, ''nat'', ''POSTROUTING'') = Some ns"
  shows "\<exists>w'. seqc (stack_commands h b ''nat'' ''POSTROUTING'' [podman_masquerade name source interface]) w = Some (Inr (), w') \<and>
     touches_only nf (\<lambda>key. key = (Inet, ''nat'', ''POSTROUTING'')) w w'"
  using stack_runs [OF laws family_iptables [OF b, THEN conjunct2], of "(Inet, ''nat'', ''POSTROUTING'')" "''nat''"
      "''POSTROUTING''" "[podman_masquerade name source interface]" w ns] ns valid family_iptables [OF b]
  by (auto simp: podman_valid_def touches_only_def)

lemma policy_chains_other: "fst key \<noteq> f \<or> fst (snd key) \<noteq> ''filter'' \<Longrightarrow> policy_chains nf f hook rules os cs key = cs key"
  by (cases key) (auto simp: policy_chains_def)

lemma policy_chains_cong:
  "(\<And>ch. cs (f, ''filter'', ch) = cs' (f, ''filter'', ch)) \<Longrightarrow>
     policy_chains nf f hook rules os cs (f, ''filter'', c) = policy_chains nf f hook rules os cs' (f, ''filter'', c)"
  by (simp add: policy_chains_def)

lemma podman_v4_run:
  assumes laws: "iptables_laws h nf" "match_laws nf" and b: "b \<in> set IPTABLES_CANDIDATES"
    and valid: "podman_valid nf name source source6 interface port w"
    and os: "nf_chains nf w (Inet, ''filter'', ''OUTPUT'') = Some os" and ready: "nat_ready nf w"
  shows "\<exists>w'. seqc [podman_filter_rules h b name source port,
      (if port \<noteq> 53 then ensure_rootless_dns_redirects h b name source port else ret ()),
      seqc (stack_commands h b ''nat'' ''POSTROUTING'' [podman_masquerade name source interface])] w = Some (Inr (), w') \<and>
     same_filter nf w w' \<and>
     (\<forall>key. fst (snd key) = ''filter'' \<longrightarrow> nf_chains nf w' key = policy_chains nf Inet (podman_hook name source)
       (podman_accepts name source port @ [podman_drop name source]) os (nf_chains nf w) key) \<and>
     (port \<noteq> 53 \<longrightarrow> redirect_chain nf name source port ''OUTPUT'' w' \<and> redirect_chain nf name source port ''PREROUTING'' w')"
proof -
  obtain w1 where w1: "podman_filter_rules h b name source port w = Some (Inr (), w1)" "same_filter nf w w1"
    "nf_chains nf w1 = policy_chains nf Inet (podman_hook name source)
       (podman_accepts name source port @ [podman_drop name source]) os (nf_chains nf w)"
    using podman_filter_run [OF laws b valid os] by blast
  have ready1: "nat_ready nf w1" using ready by (simp add: nat_ready_def w1(3) policy_chains_other)
  have valid1: "podman_valid nf name source source6 interface port w1" using podman_valid_same [OF w1(2) valid] .
  have "\<exists>w2. (if port \<noteq> 53 then ensure_rootless_dns_redirects h b name source port else ret ()) w1 = Some (Inr (), w2) \<and>
      touches_only nf (\<lambda>key. nat_key key \<and> snd (snd key) \<noteq> ''POSTROUTING'') w1 w2 \<and> nat_ready nf w2 \<and>
      (port \<noteq> 53 \<longrightarrow> redirect_chain nf name source port ''OUTPUT'' w2 \<and> redirect_chain nf name source port ''PREROUTING'' w2)"
  proof (cases "port = 53")
    case True
    then show ?thesis using ready1 by (auto simp: ret_def touches_only_def same_filter_refl)
  next
    case False
    then show ?thesis using redirects_run [OF laws b _ ready1, of name source port] valid1
      by (auto simp: podman_valid_def)
  qed
  then obtain w2 where w2: "(if port \<noteq> 53 then ensure_rootless_dns_redirects h b name source port else ret ()) w1 = Some (Inr (), w2)"
    "touches_only nf (\<lambda>key. nat_key key \<and> snd (snd key) \<noteq> ''POSTROUTING'') w1 w2" "nat_ready nf w2"
    "port \<noteq> 53 \<longrightarrow> redirect_chain nf name source port ''OUTPUT'' w2 \<and> redirect_chain nf name source port ''PREROUTING'' w2"
    by blast
  have s2: "same_filter nf w1 w2" using w2(2) by (simp add: touches_only_def)
  obtain ns where "nf_chains nf w2 (Inet, ''nat'', ''POSTROUTING'') = Some ns" using w2(3) by (auto simp: nat_ready_def)
  then obtain w3 where w3: "seqc (stack_commands h b ''nat'' ''POSTROUTING'' [podman_masquerade name source interface]) w2 = Some (Inr (), w3)"
    "touches_only nf (\<lambda>key. key = (Inet, ''nat'', ''POSTROUTING'')) w2 w3"
    using masquerade_run [OF laws(1) b podman_valid_same [OF s2 valid1]] by blast
  have "seqc [podman_filter_rules h b name source port,
      (if port \<noteq> 53 then ensure_rootless_dns_redirects h b name source port else ret ()),
      seqc (stack_commands h b ''nat'' ''POSTROUTING'' [podman_masquerade name source interface])] w = Some (Inr (), w3)"
    using w1(1) w2(1) w3(1) by (simp only: seqc.simps bindc_ret_unit bindc_def option.case prod.case sum.case)
  moreover have "nf_chains nf w3 key = nf_chains nf w1 key" if "fst (snd key) = ''filter''" for key
    using that w2(2) w3(2) by (cases key) (simp add: touches_only_def)
  moreover have "redirect_chain nf name source port ch w3 = redirect_chain nf name source port ch w2"
    if "ch \<noteq> ''POSTROUTING''" for ch
    using that w3(2) by (simp add: redirect_chain_def touches_only_def)
  moreover have "same_filter nf w w3"
    using w1(2) s2 w3(2) by (auto simp: touches_only_def intro: same_filter_trans)
  ultimately show ?thesis using w2(4) by (intro exI [of _ w3]) (simp add: w1(3))
qed

lemma podman_rules_run:
  assumes laws: "iptables_laws h nf" "match_laws nf"
    and b: "b \<in> set IPTABLES_CANDIDATES" "b6 \<in> set IP6TABLES_CANDIDATES"
    and valid: "podman_valid nf name source source6 interface port w"
    and os: "nf_chains nf w (Inet, ''filter'', ''OUTPUT'') = Some os" and ready: "nat_ready nf w"
    and os6: "nf_chains nf w (Inet6, ''filter'', ''OUTPUT'') = Some os6"
  shows "\<exists>w'. ensure_rootless_podman_rules h b b6 name source source6 interface port w = Some (Inr (), w') \<and>
     same_filter nf w w' \<and>
     (\<forall>ch. nf_chains nf w' (Inet, ''filter'', ch) = policy_chains nf Inet (podman_hook name source)
       (podman_accepts name source port @ [podman_drop name source]) os (nf_chains nf w) (Inet, ''filter'', ch)) \<and>
     (\<forall>ch c. source6 = Some c \<longrightarrow> nf_chains nf w' (Inet6, ''filter'', ch) = policy_chains nf Inet6 (podman_hook name c)
       (podman_ipv6_accepts name c @ [podman_drop name c]) os6 (nf_chains nf w) (Inet6, ''filter'', ch)) \<and>
     (port \<noteq> 53 \<longrightarrow> redirect_chain nf name source port ''OUTPUT'' w' \<and> redirect_chain nf name source port ''PREROUTING'' w')"
proof -
  let ?v4 = "[podman_filter_rules h b name source port,
      (if port \<noteq> 53 then ensure_rootless_dns_redirects h b name source port else ret ()),
      seqc (stack_commands h b ''nat'' ''POSTROUTING'' [podman_masquerade name source interface])]"
  let ?v6 = "case source6 of Some c \<Rightarrow> ensure_rootless_podman_ipv6_rules h b6 name c | None \<Rightarrow> ret ()"
  obtain w1 where w1: "seqc ?v4 w = Some (Inr (), w1)" "same_filter nf w w1"
    and f1: "\<And>key. fst (snd key) = ''filter'' \<Longrightarrow> nf_chains nf w1 key = policy_chains nf Inet (podman_hook name source)
       (podman_accepts name source port @ [podman_drop name source]) os (nf_chains nf w) key"
    and r1: "port \<noteq> 53 \<longrightarrow> redirect_chain nf name source port ''OUTPUT'' w1 \<and> redirect_chain nf name source port ''PREROUTING'' w1"
    using podman_v4_run [OF laws b(1) valid os ready] by blast
  have f6: "nf_chains nf w1 (Inet6, ''filter'', ch) = nf_chains nf w (Inet6, ''filter'', ch)" for ch
    using f1 [of "(Inet6, ''filter'', ch)"] by (simp add: policy_chains_other)
  have whole: "ensure_rootless_podman_rules h b b6 name source source6 interface port w = ?v6 w1"
    using w1(1) unfolding ensure_rootless_podman_rules_blocks seqc_append [of ?v4 "[?v6]", simplified append.simps]
    by (simp only: seqc.simps bindc_ret_unit) (simp add: bindc_def)
  show ?thesis
  proof (cases source6)
    case None
    then show ?thesis using whole w1(2) f1 r1 by (simp add: ret_def)
  next
    case (Some c)
    obtain w2 where "ensure_rootless_podman_ipv6_rules h b6 name c w1 = Some (Inr (), w2)" "same_filter nf w1 w2"
      and c2: "nf_chains nf w2 = policy_chains nf Inet6 (podman_hook name c)
       (podman_ipv6_accepts name c @ [podman_drop name c]) os6 (nf_chains nf w1)"
      using podman_ipv6_run [OF laws b(2), of name source c interface port w1 os6] podman_valid_same [OF w1(2) valid] Some f6 os6
      by auto
    moreover have "nf_chains nf w2 (Inet6, ''filter'', ch) = policy_chains nf Inet6 (podman_hook name c)
       (podman_ipv6_accepts name c @ [podman_drop name c]) os6 (nf_chains nf w) (Inet6, ''filter'', ch)" for ch
      unfolding c2 by (rule policy_chains_cong) (rule f6)
    moreover have "nf_chains nf w2 (Inet, t, ch) = nf_chains nf w1 (Inet, t, ch)" for t ch
      unfolding c2 by (simp add: policy_chains_other)
    ultimately show ?thesis using whole Some f1 r1 same_filter_trans [OF w1(2)]
      by (auto simp: redirect_chain_def)
  qed
qed

end
