(* ===== verification/Domain_State.thy ===== *)
theory Domain_State
  imports Rust_Net
begin

text \<open>
  The policy state of the daemon (\<^verbatim>\<open>src/src/state.rs\<close>): the managed ipsets with their allowed
  domain patterns and the addresses learned so far, the pattern matcher, and the update that a
  DNS answer causes. The laws relate the byte-level matcher to the labels of a domain name.
\<close>

section \<open>Model\<close>

record managed_ipset =
  allowed_domain_patterns :: "string list"
  ips :: "ip_addr list"

type_synonym state_map = "(string, managed_ipset) hash_map"

definition normalize_domain :: "string \<Rightarrow> string" where
  "normalize_domain name = to_ascii_lowercase (trim_end_matches CHR ''.'' name)"

definition domain_matches_pattern :: "string \<Rightarrow> string \<Rightarrow> bool" where
  "domain_matches_pattern domain pattern =
     (let d = normalize_domain domain; p = normalize_domain pattern
      in case strip_prefix p ''*.'' of
           Some sfx \<Rightarrow> d = sfx \<or> ends_with d (''.'' @ sfx)
         | None \<Rightarrow> d = p)"

definition any_pattern_matches :: "string list \<Rightarrow> string \<Rightarrow> bool" where
  "any_pattern_matches patterns domain = list_ex (\<lambda>p. domain_matches_pattern domain p) patterns"

definition is_domain_accepted_by_network :: "state_map \<Rightarrow> string \<Rightarrow> string \<Rightarrow> bool" where
  "is_domain_accepted_by_network st domain network_name =
     (case hm_get st network_name of
        Some m \<Rightarrow> any_pattern_matches (allowed_domain_patterns m) domain
      | None \<Rightarrow> False)"

fun matches_current_ipset :: "managed_ipset \<Rightarrow> string list \<Rightarrow> bool \<Rightarrow> bool" where
  "matches_current_ipset m [] flag = flag"
| "matches_current_ipset m (d # ds) flag =
     matches_current_ipset m ds
       (if any_pattern_matches (allowed_domain_patterns m) d then True else flag)"

fun apply_loop ::
  "(ip_addr list \<Rightarrow> ip_addr list) \<Rightarrow> string list \<Rightarrow> ip_addr list \<Rightarrow> state_map
     \<Rightarrow> (string \<times> ip_addr list) list \<times> state_map" where
  "apply_loop ip_order domains resolved [] = ([], [])"
| "apply_loop ip_order domains resolved ((name, m) # rest) =
     (if \<not> matches_current_ipset m domains False
      then (let (changed, rest') = apply_loop ip_order domains resolved rest
            in (changed, (name, m) # rest'))
      else
        (let m' = m\<lparr>ips := hs_extend (ips m) resolved\<rparr>;
             (changed, rest') = apply_loop ip_order domains resolved rest
         in (if length (ips m') \<noteq> length (ips m) then (name, ip_order (ips m')) # changed else changed,
             (name, m') # rest')))"

definition apply_resolved_ips ::
  "(state_map \<Rightarrow> state_map) \<Rightarrow> (ip_addr list \<Rightarrow> ip_addr list) \<Rightarrow> string list \<Rightarrow> ip_addr list
     \<Rightarrow> state_map \<Rightarrow> (string \<times> ip_addr list) list \<times> state_map" where
  "apply_resolved_ips order ip_order domains resolved st =
     (if domains = [] \<or> resolved = [] then ([], st)
      else apply_loop ip_order domains resolved (order st))"

text \<open>Well-formed state: one entry per name, and every address set really a set.\<close>

definition wf_state :: "state_map \<Rightarrow> bool" where
  "wf_state st \<longleftrightarrow> keys_distinct st \<and> list_all (\<lambda>(_, m). distinct (ips m)) st"

section \<open>Domain names and their labels\<close>

abbreviation labels :: "string \<Rightarrow> string list" where
  "labels \<equiv> split CHR ''.''"

text \<open>What a pattern promises, over the labels of a normalised name.\<close>

definition pattern_admits :: "string \<Rightarrow> string \<Rightarrow> bool" where
  "pattern_admits pattern domain =
     (case labels (normalize_domain pattern) of
        lab # base \<Rightarrow>
          if lab = ''*'' \<and> base \<noteq> [] then suffix base (labels (normalize_domain domain))
          else labels (normalize_domain domain) = lab # base
      | [] \<Rightarrow> False)"

lemma normalize_domain_idem [simp]: "normalize_domain (normalize_domain d) = normalize_domain d"
  by (simp add: normalize_domain_def trim_dots_lowercase)

lemma normalize_domain_lowercase [simp]:
  "normalize_domain (to_ascii_lowercase d) = normalize_domain d"
  by (simp add: normalize_domain_def trim_dots_lowercase)

lemma normalize_domain_dot [simp]: "normalize_domain (d @ ''.'') = normalize_domain d"
  by (simp add: normalize_domain_def)

lemma suffix_labels: "suffix (labels q) (labels d) \<longleftrightarrow> d = q \<or> suffix (''.'' @ q) d"
proof
  assume "suffix (labels q) (labels d)"
  then obtain xs where xs: "labels d = xs @ labels q" by (auto simp: suffix_def)
  show "d = q \<or> suffix (''.'' @ q) d"
  proof (cases xs)
    case Nil
    with xs show ?thesis by (simp add: split_inject)
  next
    case (Cons y ys)
    then have "d = join ''.'' xs @ ''.'' @ q"
      using join_split [of "CHR ''.''" d] join_split [of "CHR ''.''" q] xs
        join_append [of xs "labels q" "''.''"] by simp
    then show ?thesis by (auto simp: suffix_def)
  qed
next
  assume "d = q \<or> suffix (''.'' @ q) d"
  then show "suffix (labels q) (labels d)"
    by (auto simp: suffix_def split_append_sep)
qed

lemma labels_wildcard: "labels (''*.'' @ q) = ''*'' # labels q"
  using split_append_sep [of "CHR ''.''" "''*''" q] by simp

lemma labels_Cons_wildcard: "labels p = ''*'' # base \<Longrightarrow> base \<noteq> [] \<Longrightarrow> p = ''*.'' @ join ''.'' base"
  using join_split [of "CHR ''.''" p] by (cases base) auto

lemma domain_matches_pattern_admits: "domain_matches_pattern d p = pattern_admits p d"
proof (cases "strip_prefix (normalize_domain p) ''*.''")
  case (Some q)
  then have p: "normalize_domain p = ''*.'' @ q" by (simp add: strip_prefix_Some_iff)
  have "pattern_admits p d \<longleftrightarrow> suffix (labels q) (labels (normalize_domain d))"
    unfolding pattern_admits_def p labels_wildcard by simp
  then show ?thesis
    unfolding domain_matches_pattern_def Let_def Some by (simp add: ends_with_def suffix_labels)
next
  case None
  obtain lab base where l: "labels (normalize_domain p) = lab # base"
    by (cases "labels (normalize_domain p)") auto
  have "\<not> (lab = ''*'' \<and> base \<noteq> [])"
  proof
    assume "lab = ''*'' \<and> base \<noteq> []"
    with l have "normalize_domain p = ''*.'' @ join ''.'' base" by (auto dest: labels_Cons_wildcard)
    with None show False by (simp add: strip_prefix_None_iff)
  qed
  with l have "pattern_admits p d \<longleftrightarrow> labels (normalize_domain d) = labels (normalize_domain p)"
    by (auto simp: pattern_admits_def)
  then show ?thesis
    unfolding domain_matches_pattern_def Let_def None by (simp add: split_inject)
qed

section \<open>The policy interface\<close>

text \<open>
  What the statistics and the proxy rely on: a policy looks at the normalised name only, an empty
  list of patterns admits nothing, and a list admits what one of its patterns admits.
\<close>

locale domain_policy =
  fixes accepts :: "string list \<Rightarrow> string \<Rightarrow> bool"
    and norm :: "string \<Rightarrow> string"
  assumes accepts_norm: "accepts ps (norm d) = accepts ps d"
    and accepts_Nil: "\<not> accepts [] d"
    and accepts_Cons: "accepts (p # ps) d \<longleftrightarrow> accepts [p] d \<or> accepts ps d"
begin

lemma accepts_iff: "accepts ps d \<longleftrightarrow> (\<exists>p \<in> set ps. accepts [p] d)"
proof (induction ps)
  case Nil
  then show ?case by (simp add: accepts_Nil)
next
  case (Cons p ps)
  then show ?case by (simp add: accepts_Cons [of p ps])
qed

lemma accepts_mono: "set ps \<subseteq> set qs \<Longrightarrow> accepts ps d \<Longrightarrow> accepts qs d"
  using accepts_iff by blast

lemma accepts_same_norm: "norm d = norm e \<Longrightarrow> accepts ps d = accepts ps e"
  by (metis accepts_norm)

end

lemma domain_matches_pattern_norm [simp]:
  "domain_matches_pattern (normalize_domain d) p = domain_matches_pattern d p"
  by (simp add: domain_matches_pattern_def)

interpretation policy: domain_policy any_pattern_matches normalize_domain
  by unfold_locales (simp_all add: any_pattern_matches_def)

section \<open>Applying a DNS answer\<close>

lemma matches_current_ipset_iff:
  "matches_current_ipset m ds flag \<longleftrightarrow>
     flag \<or> (\<exists>d \<in> set ds. any_pattern_matches (allowed_domain_patterns m) d)"
  by (induction ds arbitrary: flag) auto

abbreviation learns :: "string list \<Rightarrow> managed_ipset \<Rightarrow> bool" where
  "learns domains m \<equiv> \<exists>d \<in> set domains. any_pattern_matches (allowed_domain_patterns m) d"

definition learn :: "string list \<Rightarrow> ip_addr list \<Rightarrow> managed_ipset \<Rightarrow> managed_ipset" where
  "learn domains resolved m =
     (if learns domains m then m\<lparr>ips := hs_extend (ips m) resolved\<rparr> else m)"

lemma learn_patterns [simp]:
  "allowed_domain_patterns (learn domains resolved m) = allowed_domain_patterns m"
  by (simp add: learn_def)

lemma distinct_learn: "distinct (ips m) \<Longrightarrow> distinct (ips (learn domains resolved m))"
  by (simp add: learn_def distinct_hs_extend)

lemma apply_loop_eq:
  "apply_loop ip_order domains resolved st =
     (map (\<lambda>(n, m). (n, ip_order (ips (learn domains resolved m))))
        (filter (\<lambda>(n, m). learns domains m \<and> \<not> set resolved \<subseteq> set (ips m)) st),
      map (\<lambda>(n, m). (n, learn domains resolved m)) st)"
proof (induction st)
  case Nil
  then show ?case by simp
next
  case (Cons x st)
  obtain n m where x: "x = (n, m)" by (cases x)
  show ?case
    by (simp add: x Cons matches_current_ipset_iff learn_def length_hs_extend_eq_iff Let_def)
qed

lemma apply_loop_state:
  "snd (apply_loop ip_order domains resolved st) = map (\<lambda>(n, m). (n, learn domains resolved m)) st"
  by (simp add: apply_loop_eq)

lemma apply_resolved_ips_changed:
  assumes "iteration_order order"
  shows "set (fst (apply_resolved_ips order ip_order domains resolved st)) =
     {(n, ip_order (ips (learn domains resolved m))) | n m.
        (n, m) \<in> set st \<and> learns domains m \<and> \<not> set resolved \<subseteq> set (ips m)}"
proof -
  have "set (order st) = set st" using assms by (rule iteration_order_set)
  then show ?thesis by (auto simp: apply_resolved_ips_def apply_loop_eq image_iff)
qed

lemma map_of_map_snd: "map_of (map (\<lambda>(k, v). (k, f v)) xs) k = map_option f (map_of xs k)"
  by (induction xs) auto

lemma apply_resolved_ips_get:
  assumes "iteration_order order" and "keys_distinct st"
  shows "hm_get (snd (apply_resolved_ips order ip_order domains resolved st)) n =
           map_option (learn domains resolved) (hm_get st n)"
proof (cases "domains = [] \<or> resolved = []")
  case True
  then have "learn domains resolved m = m" for m
    by (cases "resolved = []") (auto simp: learn_def)
  then have "learn domains resolved = (\<lambda>m. m)" by blast
  with True show ?thesis by (simp add: apply_resolved_ips_def option.map_ident)
next
  case False
  with assms show ?thesis
    by (simp add: apply_resolved_ips_def apply_loop_state map_of_map_snd iteration_order_map_of)
qed

lemma wf_state_apply:
  assumes "iteration_order order" and "wf_state st"
  shows "wf_state (snd (apply_resolved_ips order ip_order domains resolved st))"
proof (cases "domains = [] \<or> resolved = []")
  case True
  with assms show ?thesis by (simp add: apply_resolved_ips_def)
next
  case False
  have fst_id: "map (fst \<circ> (\<lambda>(n, m). (n, learn domains resolved m))) xs = map fst xs" for xs :: state_map
    by auto
  from assms have "keys_distinct (order st)" and "\<forall>(n, m) \<in> set (order st). distinct (ips m)"
    by (auto simp: wf_state_def iteration_order_distinct iteration_order_set list_all_iff)
  with False show ?thesis
    by (auto simp: wf_state_def apply_resolved_ips_def apply_loop_state fst_id
        list_all_iff distinct_hs_extend distinct_learn)
qed

lemma wf_state_iff: "keys_distinct st \<Longrightarrow> wf_state st \<longleftrightarrow> (\<forall>n m. hm_get st n = Some m \<longrightarrow> distinct (ips m))"
  by (force simp: wf_state_def list_all_iff map_of_eq_Some_iff)

lemma wf_state_insert:
  assumes "wf_state st" and "distinct (ips m)"
  shows "wf_state (hm_insert n m st)"
proof -
  have "keys_distinct st" using assms by (simp add: wf_state_def)
  with assms show ?thesis by (simp add: wf_state_iff distinct_update hm.get_ins)
qed

lemma wf_state_remove:
  assumes "wf_state st"
  shows "wf_state (hm_remove n st)"
proof -
  have "keys_distinct st" using assms by (simp add: wf_state_def)
  with assms show ?thesis by (simp add: wf_state_iff distinct_delete hm.get_rmv)
qed

section \<open>Properties\<close>

text \<open>
  C6: The byte-level matcher decides the label-wise meaning of a pattern: after normalisation
  (ASCII lower case, trailing dots removed) a pattern \<^verbatim>\<open>*.base\<close> admits exactly the names whose
  labels end with the labels of \<^verbatim>\<open>base\<close> (the base itself included, a name such as
  \<^verbatim>\<open>notbase\<close> excluded), and every other pattern admits exactly the name with the same labels.
\<close>

theorem domain_matches_pattern_labels:
  "domain_matches_pattern domain pattern \<longleftrightarrow>
     (case labels (normalize_domain pattern) of
        lab # base \<Rightarrow>
          if lab = ''*'' \<and> base \<noteq> [] then suffix base (labels (normalize_domain domain))
          else labels (normalize_domain domain) = lab # base
      | [] \<Rightarrow> False)"
  by (simp add: domain_matches_pattern_admits pattern_admits_def)

text \<open>
  C9: Applying a DNS answer to a well-formed state keeps it well-formed, keeps every set and its
  patterns, adds the resolved addresses to exactly the sets one of whose patterns admits one of the
  names of the answer, and reports exactly the sets that really grew, each with its complete
  new contents, whatever the iteration orders of the hash map and the hash sets are.
\<close>

theorem apply_resolved_ips_correct:
  assumes "iteration_order order" and "iteration_order ip_order" and "wf_state st"
    and "apply_resolved_ips order ip_order domains resolved st = (changed, st')"
  shows "wf_state st' \<and>
     (\<forall>n. hm_get st' n = map_option (learn domains resolved) (hm_get st n)) \<and>
     (\<forall>n m. hm_get st n = Some m \<longrightarrow>
        set (ips (learn domains resolved m)) =
          set (ips m) \<union> (if learns domains m then set resolved else {})) \<and>
     (\<forall>n addrs. (n, addrs) \<in> set changed \<longleftrightarrow>
        (\<exists>m m'. hm_get st n = Some m \<and> hm_get st' n = Some m' \<and>
           addrs = ip_order (ips m') \<and> set (ips m') \<noteq> set (ips m)))"
proof -
  have kd: "keys_distinct st" using assms(3) by (simp add: wf_state_def)
  have st': "st' = snd (apply_resolved_ips order ip_order domains resolved st)"
    and ch: "changed = fst (apply_resolved_ips order ip_order domains resolved st)"
    using assms(4) by simp_all
  have get: "hm_get st' n = map_option (learn domains resolved) (hm_get st n)" for n
    unfolding st' using assms(1) kd by (rule apply_resolved_ips_get)
  have ips: "set (ips (learn domains resolved m)) =
      set (ips m) \<union> (if learns domains m then set resolved else {})" for m
    by (simp add: learn_def)
  have mem: "hm_get st n = Some m \<longleftrightarrow> (n, m) \<in> set st" for n m
    using kd by (simp add: map_of_eq_Some_iff)
  have grew: "learns domains m \<and> \<not> set resolved \<subseteq> set (ips m) \<longleftrightarrow>
      set (ips (learn domains resolved m)) \<noteq> set (ips m)" for m
    unfolding ips by auto
  have "(n, addrs) \<in> set changed \<longleftrightarrow>
        (\<exists>m m'. hm_get st n = Some m \<and> hm_get st' n = Some m' \<and>
           addrs = ip_order (ips m') \<and> set (ips m') \<noteq> set (ips m))" for n addrs
    unfolding ch apply_resolved_ips_changed [OF assms(1)] get mem [symmetric]
    by (cases "hm_get st n") (auto simp: grew)
  with get ips wf_state_apply [OF assms(1,3)] show ?thesis unfolding st' by blast
qed

definition sample_state :: state_map where
  "sample_state =
     [(''web'', \<lparr>allowed_domain_patterns = [''*.example.com''], ips = [V4 1]\<rparr>),
      (''db'', \<lparr>allowed_domain_patterns = [''db.test''], ips = []\<rparr>)]"

theorem apply_resolved_ips_correct_witness:
  "(''web'', [V4 1, V4 2]) \<in>
     set (fst (apply_resolved_ips rev (\<lambda>xs. xs) [''WWW.Example.com.''] [V4 2] sample_state)) \<and>
   hm_get (snd (apply_resolved_ips rev (\<lambda>xs. xs) [''WWW.Example.com.''] [V4 2] sample_state)) ''db'' =
     Some \<lparr>allowed_domain_patterns = [''db.test''], ips = []\<rparr>"
proof -
  let ?r = "apply_resolved_ips rev (\<lambda>xs. xs) [''WWW.Example.com.''] [V4 2] sample_state"
  have wf: "wf_state sample_state" by code_simp
  have spec: "(\<forall>n. hm_get (snd ?r) n =
        map_option (learn [''WWW.Example.com.''] [V4 2]) (hm_get sample_state n)) \<and>
      (\<forall>n addrs. (n, addrs) \<in> set (fst ?r) \<longleftrightarrow>
        (\<exists>m m'. hm_get sample_state n = Some m \<and> hm_get (snd ?r) n = Some m' \<and>
           addrs = ips m' \<and> set (ips m') \<noteq> set (ips m)))"
    using apply_resolved_ips_correct [OF iteration_order_rev iteration_order_id wf, of
      "[''WWW.Example.com.'']" "[V4 2]" "fst ?r" "snd ?r"] by auto
  have web: "map_option (learn [''WWW.Example.com.''] [V4 2]) (hm_get sample_state ''web'') =
      Some \<lparr>allowed_domain_patterns = [''*.example.com''], ips = [V4 1, V4 2]\<rparr>"
    and web0: "hm_get sample_state ''web'' =
      Some \<lparr>allowed_domain_patterns = [''*.example.com''], ips = [V4 1]\<rparr>"
    and db: "map_option (learn [''WWW.Example.com.''] [V4 2]) (hm_get sample_state ''db'') =
      Some \<lparr>allowed_domain_patterns = [''db.test''], ips = []\<rparr>"
    by code_simp+
  have "(''web'', [V4 1, V4 2]) \<in> set (fst ?r)"
    using spec web web0 by (auto simp: insert_eq_iff)
  with spec db show ?thesis by simp
qed

end
