(* ===== verification/Stats.thy ===== *)
theory Stats
  imports Domain_State
begin

text \<open>
  DNS statistics and the registry of networks (\<^verbatim>\<open>src/src/stats.rs\<close>): registration of a subnet
  under a numeric identifier, the recording of one resolution, the subnet test, and the report.
  Times are integers in nanoseconds, durations natural numbers in nanoseconds.
\<close>

section \<open>Model\<close>

record stat_entry =
  count :: u64
  last_seen :: int
  network_id :: "u32 option"
  accepted :: "bool option"

record network_info =
  net_name :: string
  net_subnet :: string

type_synonym stats_map = "(string \<times> ip_addr, stat_entry) hash_map"

record stats_state =
  STATS :: stats_map
  NETWORK_REGISTRY :: "(u32, network_info) hash_map"
  SUBNET_TO_ID :: "(string, u32) hash_map"
  NEXT_NETWORK_ID :: u32

definition MAX_STATS_ENTRIES :: nat where
  "MAX_STATS_ENTRIES = 1000000"

definition init_stats :: stats_state where
  "init_stats = \<lparr>STATS = [], NETWORK_REGISTRY = [], SUBNET_TO_ID = [], NEXT_NETWORK_ID = 1\<rparr>"

definition register_network :: "string \<Rightarrow> string \<Rightarrow> stats_state \<Rightarrow> stats_state" where
  "register_network name subnet s =
     (case hm_get (SUBNET_TO_ID s) subnet of
        Some nid \<Rightarrow>
          s\<lparr>NETWORK_REGISTRY :=
              hm_insert nid \<lparr>net_name = name, net_subnet = subnet\<rparr> (NETWORK_REGISTRY s)\<rparr>
      | None \<Rightarrow>
          (let nid = NEXT_NETWORK_ID s
           in s\<lparr>NEXT_NETWORK_ID := nid + 1,
               SUBNET_TO_ID := hm_insert subnet nid (SUBNET_TO_ID s),
               NETWORK_REGISTRY :=
                 hm_insert nid \<lparr>net_name = name, net_subnet = subnet\<rparr> (NETWORK_REGISTRY s)\<rparr>))"

subsection \<open>The subnet test\<close>

definition mask_v4 :: "u32 \<Rightarrow> u32" where
  "mask_v4 prefix_len =
     (if prefix_len = 0 then 0
      else if 32 \<le> prefix_len then 0xFFFFFFFF
      else push_bit (unat (32 - prefix_len)) 0xFFFFFFFF)"

definition mask_v6 :: "u32 \<Rightarrow> u128" where
  "mask_v6 prefix_len =
     (if prefix_len = 0 then 0
      else if 128 \<le> prefix_len then 0xFFFFFFFFFFFFFFFFFFFFFFFFFFFFFFFF
      else push_bit (unat (128 - prefix_len)) 0xFFFFFFFFFFFFFFFFFFFFFFFFFFFFFFFF)"

definition unmap_ip :: "ip_addr \<Rightarrow> ip_addr" where
  "unmap_ip ip =
     (case ip of
        V6 v6 \<Rightarrow> (case to_ipv4_mapped v6 of Some v4 \<Rightarrow> V4 v4 | None \<Rightarrow> V6 v6)
      | V4 v4 \<Rightarrow> V4 v4)"

definition ip_in_subnet :: "ip_addr \<Rightarrow> string \<Rightarrow> bool" where
  "ip_in_subnet ip0 subnet =
     (let ip = unmap_ip ip0;
          parts = split CHR ''/'' subnet;
          network_ip_str = (case parts of x # _ \<Rightarrow> x | [] \<Rightarrow> []);
          prefix_len_str = (case parts of _ # y # _ \<Rightarrow> y | _ \<Rightarrow> [])
      in case parse_ip network_ip_str of
           None \<Rightarrow> False
         | Some network_ip \<Rightarrow>
             (case parse_u32 prefix_len_str of
                None \<Rightarrow> False
              | Some prefix_len \<Rightarrow>
                  (case (ip, network_ip) of
                     (V4 a, V4 n) \<Rightarrow> a AND mask_v4 prefix_len = n AND mask_v4 prefix_len
                   | (V6 a, V6 n) \<Rightarrow> a AND mask_v6 prefix_len = n AND mask_v6 prefix_len
                   | _ \<Rightarrow> False)))"

subsection \<open>Recording a resolution\<close>

text \<open>The first critical section: which network, by identifier and name, the origin belongs to.\<close>

definition lookup_network ::
  "((string, u32) hash_map \<Rightarrow> (string, u32) hash_map) \<Rightarrow> ip_addr \<Rightarrow> stats_state
     \<Rightarrow> u32 option \<times> string option" where
  "lookup_network order origin s =
     (case find (\<lambda>(subnet, _). ip_in_subnet origin subnet) (order (SUBNET_TO_ID s)) of
        Some (_, nid) \<Rightarrow> (Some nid, map_option net_name (hm_get (NETWORK_REGISTRY s) nid))
      | None \<Rightarrow> (None, None))"

definition elapsed :: "int \<Rightarrow> int \<Rightarrow> nat" where
  "elapsed now earlier = nat (now - earlier)"

text \<open>The last critical section: expiry, the size limit, and the entry itself.\<close>

definition record_entry ::
  "int \<Rightarrow> string \<times> ip_addr \<Rightarrow> nat \<Rightarrow> u32 option \<Rightarrow> bool option \<Rightarrow> stats_map \<Rightarrow> stats_map" where
  "record_entry now key ttl nid acc m =
     (let m1 = hm_retain (\<lambda>_ e. elapsed now (last_seen e) < ttl) m
      in if hm_get m1 key = None \<and> MAX_STATS_ENTRIES \<le> length m1 then m1
         else
           (let e = (case hm_get m1 key of
                       Some e \<Rightarrow> e
                     | None \<Rightarrow> \<lparr>count = 0, last_seen = now, network_id = nid, accepted = acc\<rparr>)
            in hm_insert key
                 (e\<lparr>count := count e + 1, last_seen := now, network_id := nid, accepted := acc\<rparr>)
                 m1))"

definition record_resolve ::
  "((string, u32) hash_map \<Rightarrow> (string, u32) hash_map) \<Rightarrow> int \<Rightarrow> state_map \<Rightarrow> string \<Rightarrow> ip_addr
     \<Rightarrow> nat \<Rightarrow> stats_state \<Rightarrow> stats_state" where
  "record_resolve order now st domain origin ttl s =
     (let (nid, nname) = lookup_network order origin s;
          acc = map_option (is_domain_accepted_by_network st domain) nname
      in s\<lparr>STATS := record_entry now (domain, origin) ttl nid acc (STATS s)\<rparr>)"

subsection \<open>The report\<close>

definition as_secs :: "nat \<Rightarrow> nat" where
  "as_secs d = d div 1000000000"

definition format_duration :: "nat \<Rightarrow> string" where
  "format_duration d =
     (let secs = as_secs d
      in if secs < 60 then show_nat secs @ ''s ago''
         else if secs < 3600 then show_nat (secs div 60) @ ''m ago''
         else if secs < 86400 then show_nat (secs div 3600) @ ''h ago''
         else show_nat (secs div 86400) @ ''d ago'')"

text \<open>Format padding counts Unicode scalar values: bytes that are not UTF-8 continuation bytes.\<close>

definition char_count :: "string \<Rightarrow> nat" where
  "char_count s = length (filter (\<lambda>c. \<not> (128 \<le> byte c \<and> byte c < 192)) s)"

definition pad_right :: "nat \<Rightarrow> string \<Rightarrow> string" where
  "pad_right n s = s @ replicate (n - char_count s) CHR '' ''"

definition check_mark :: string where
  "check_mark = [CHR 0xE2, CHR 0x9C, CHR 0x85]"

definition cross_mark :: string where
  "cross_mark = [CHR 0xE2, CHR 0x9D, CHR 0x8C]"

definition em_dash :: string where
  "em_dash = [CHR 0xE2, CHR 0x80, CHR 0x94]"

definition nl :: string where
  "nl = [CHR 0x0A]"

type_synonym group_map = "(u32 option \<times> ip_addr, (string \<times> stat_entry) list) hash_map"

definition group_push :: "(string \<times> ip_addr) \<times> stat_entry \<Rightarrow> group_map \<Rightarrow> group_map" where
  "group_push x g =
     (let ((domain, origin), entry) = x;
          key = (network_id entry, origin);
          old = (case hm_get g key of Some es \<Rightarrow> es | None \<Rightarrow> [])
      in hm_insert key (old @ [(domain, entry)]) g)"

definition group_stats :: "stats_map \<Rightarrow> group_map" where
  "group_stats entries = fold group_push entries []"

definition group_ips :: "u32 option \<Rightarrow> group_map \<Rightarrow> ip_addr list" where
  "group_ips nid g = sort (map snd (filter (\<lambda>(n, _). n = nid) (map fst g)))"

definition status_text :: "stat_entry \<Rightarrow> string" where
  "status_text e =
     (let allowed_count = (if accepted e = Some True then Some (count e) else None);
          denied_count = (if accepted e = Some False then Some (count e) else None)
      in (case allowed_count of
            Some c \<Rightarrow> if 0 < c then show_nat (unat c) @ check_mark @ '' '' else []
          | None \<Rightarrow> []) @
         (case denied_count of
            Some c \<Rightarrow> if 0 < c then show_nat (unat c) @ cross_mark @ '' '' else []
          | None \<Rightarrow> []))"

definition entry_line :: "int \<Rightarrow> bool \<Rightarrow> ip_addr \<Rightarrow> string \<times> stat_entry \<Rightarrow> string" where
  "entry_line now single_ip ip x =
     (let (domain, entry) = x;
          last_ago = format_duration (elapsed now (last_seen entry));
          status = status_text entry
      in if single_ip
         then ''  '' @ pad_right 15 (show_ip ip) @ '' '' @ pad_right 30 domain @ '' '' @
              pad_right 10 status @ '' '' @ last_ago @ nl
         else ''    '' @ pad_right 30 domain @ '' '' @ pad_right 10 status @ '' '' @ last_ago @ nl)"

definition network_block :: "int \<Rightarrow> group_map \<Rightarrow> u32 \<times> network_info \<Rightarrow> string" where
  "network_block now g x =
     (let (nid, info) = x; ips_in_network = group_ips (Some nid) g;
          single_ip = (length ips_in_network = 1)
      in ''Network: '' @ net_name info @ '' ('' @ net_subnet info @ '')'' @ nl @
         (if ips_in_network = [] then ''  No activity'' @ nl @ nl
          else concat (map (\<lambda>ip.
                 (if single_ip then [] else ''  IP: '' @ show_ip ip @ nl) @
                 concat (map (entry_line now single_ip ip)
                   (case hm_get g (Some nid, ip) of Some es \<Rightarrow> es | None \<Rightarrow> []))) ips_in_network) @ nl))"

definition unknown_line :: "int \<Rightarrow> string \<times> stat_entry \<Rightarrow> string" where
  "unknown_line now x =
     (let (domain, entry) = x
      in ''    '' @ pad_right 30 domain @ '' '' @
         pad_right 10 (show_nat (unat (count entry)) @ '' resolves'') @ '' '' @
         format_duration (elapsed now (last_seen entry)) @ nl)"

definition unknown_block :: "int \<Rightarrow> group_map \<Rightarrow> string" where
  "unknown_block now g =
     (let unknown_ips = group_ips None g
      in if unknown_ips = [] then []
         else ''Unknown Networks (created before the daemon was restarted '' @ em_dash @
              '' still fully functional, but with limited info):'' @ nl @
              concat (map (\<lambda>ip. ''  IP: '' @ show_ip ip @ nl @
                concat (map (unknown_line now)
                  (case hm_get g (None, ip) of Some es \<Rightarrow> es | None \<Rightarrow> []))) unknown_ips))"

definition get_stats_report :: "(stats_map \<Rightarrow> stats_map) \<Rightarrow> int \<Rightarrow> stats_state \<Rightarrow> string" where
  "get_stats_report order now s =
     (let g = group_stats (order (STATS s));
          ids = sort (map fst (NETWORK_REGISTRY s))
      in concat (map (\<lambda>nid. case hm_get (NETWORK_REGISTRY s) nid of
                            Some info \<Rightarrow> network_block now g (nid, info) | None \<Rightarrow> []) ids) @
         unknown_block now g)"

section \<open>The subnet test by prefixes\<close>

lemma drop_and_high_mask: "drop_bit k ((a :: 'a::len word) AND NOT (mask k)) = drop_bit k a"
  by (rule bit_eqI)
    (auto simp: bit_drop_bit_eq bit_and_iff bit_not_iff bit_mask_iff dest: bit_imp_le_length)

lemma push_drop_high_mask: "push_bit k (drop_bit k (a :: 'a::len word)) = a AND NOT (mask k)"
  by (rule bit_eqI)
    (auto simp: bit_push_bit_iff bit_drop_bit_eq bit_and_iff bit_not_iff bit_mask_iff
      dest: bit_imp_le_length)

lemma and_high_mask_eq_iff:
  "(a :: 'a::len word) AND NOT (mask k) = b AND NOT (mask k) \<longleftrightarrow> drop_bit k a = drop_bit k b"
  by (metis drop_and_high_mask push_drop_high_mask)

lemma mask_v4_not_mask: "mask_v4 l = NOT (mask (32 - unat l))"
proof -
  consider "l = 0" | "32 \<le> l" | "l \<noteq> 0" "l < 32" by fastforce
  then show ?thesis
  proof cases
    case 1
    then show ?thesis by (simp add: mask_v4_def mask_eq_exp_minus_1)
  next
    case 2
    then have "32 \<le> unat l" by (simp add: word_le_nat_alt)
    with 2 show ?thesis by (auto simp: mask_v4_def)
  next
    case 3
    then have "unat (32 - l) = 32 - unat l" by (simp add: unat_sub)
    moreover have "\<not> 32 \<le> l" using 3 by simp
    moreover have "(0xFFFFFFFF :: u32) = - 1" by simp
    ultimately show ?thesis using 3 unfolding mask_v4_def by (simp only: push_bit_minus_one_eq_not_mask if_False)
  qed
qed

lemma mask_v6_not_mask: "mask_v6 l = NOT (mask (128 - unat l))"
proof -
  consider "l = 0" | "128 \<le> l" | "l \<noteq> 0" "l < 128" by fastforce
  then show ?thesis
  proof cases
    case 1
    then show ?thesis by (simp add: mask_v6_def mask_eq_exp_minus_1)
  next
    case 2
    then have "128 \<le> unat l" by (simp add: word_le_nat_alt)
    with 2 show ?thesis by (auto simp: mask_v6_def)
  next
    case 3
    then have "unat (128 - l) = 128 - unat l" by (simp add: unat_sub)
    moreover have "\<not> 128 \<le> l" using 3 by simp
    moreover have "(0xFFFFFFFFFFFFFFFFFFFFFFFFFFFFFFFF :: u128) = - 1" by simp
    ultimately show ?thesis using 3 unfolding mask_v6_def by (simp only: push_bit_minus_one_eq_not_mask if_False)
  qed
qed

lemma drop_bit_eq_div_iff: "drop_bit k a = drop_bit k b \<longleftrightarrow> unat a div 2 ^ k = unat b div 2 ^ k"
proof -
  have "unat (drop_bit k x) = unat x div 2 ^ k" for x :: "'a::len word"
    by (simp only: unat_drop_bit_eq) (rule drop_bit_eq_div)
  then show ?thesis by (metis word_unat_eq_iff)
qed

lemma ip_in_subnet_split:
  assumes "CHR ''/'' \<notin> set n" and "CHR ''/'' \<notin> set l"
  shows "ip_in_subnet ip (n @ ''/'' @ l) =
     (case parse_ip n of
        None \<Rightarrow> False
      | Some network_ip \<Rightarrow>
          (case parse_u32 l of
             None \<Rightarrow> False
           | Some len \<Rightarrow>
               (case (unmap_ip ip, network_ip) of
                  (V4 a, V4 b) \<Rightarrow> unat a div 2 ^ (32 - unat len) = unat b div 2 ^ (32 - unat len)
                | (V6 a, V6 b) \<Rightarrow> unat a div 2 ^ (128 - unat len) = unat b div 2 ^ (128 - unat len)
                | _ \<Rightarrow> False)))"
proof -
  have "split CHR ''/'' (n @ ''/'' @ l) = [n, l]"
    using assms by (simp add: split_append_sep split_no_sep)
  then show ?thesis
    by (simp add: ip_in_subnet_def Let_def mask_v4_not_mask mask_v6_not_mask and_high_mask_eq_iff
        drop_bit_eq_div_iff split: option.splits ip_addr.splits)
qed

lemma slash_not_digit: "CHR ''/'' \<notin> set (show_nat n)"
  using show_nat_digits [of n] by (auto simp: ascii_digit_def)

lemma slash_not_ipv4: "CHR ''/'' \<notin> set (show_ipv4 a)"
  using show_ipv4_chars [of "CHR ''/''" a] by (auto simp: ascii_digit_def)

lemma ip_in_subnet_v4:
  assumes "l < 2 ^ 32"
  shows "ip_in_subnet ip (show_ipv4 n @ ''/'' @ show_nat l) \<longleftrightarrow>
    (\<exists>a. unmap_ip ip = V4 a \<and> unat a div 2 ^ (32 - l) = unat n div 2 ^ (32 - l))"
proof -
  have l: "unat (of_nat l :: u32) = l" using assms by (rule unat_of_nat_u32)
  have "parse_u32 (show_nat l) = Some (of_nat l)"
    using parse_u32_show [of "of_nat l"] by (simp only: l)
  then show ?thesis unfolding ip_in_subnet_split [OF slash_not_ipv4 slash_not_digit]
    by (auto simp: parse_ip_show_ipv4 l split: ip_addr.splits)
qed

section \<open>The registry invariant\<close>

text \<open>
  Identifiers are handed out once: the subnet table is injective, the registry holds exactly the
  identifiers of the table with the right subnet, and the next identifier is beyond all of them.
\<close>

definition linked :: "(string \<rightharpoonup> u32) \<Rightarrow> (u32 \<rightharpoonup> network_info) \<Rightarrow> bool" where
  "linked t r \<longleftrightarrow> (\<forall>sn i. t sn = Some i \<longleftrightarrow> (\<exists>info. r i = Some info \<and> net_subnet info = sn))"

definition registry_inv :: "stats_state \<Rightarrow> bool" where
  "registry_inv s \<longleftrightarrow>
     keys_distinct (SUBNET_TO_ID s) \<and> keys_distinct (NETWORK_REGISTRY s) \<and>
     unat (NEXT_NETWORK_ID s) = length (SUBNET_TO_ID s) + 1 \<and>
     (\<forall>i \<in> ran (hm_get (SUBNET_TO_ID s)). 1 \<le> i \<and> i < NEXT_NETWORK_ID s) \<and>
     linked (hm_get (SUBNET_TO_ID s)) (hm_get (NETWORK_REGISTRY s))"

lemma registry_inv_init: "registry_inv init_stats"
  by (simp add: registry_inv_def init_stats_def linked_def)

lemma length_update_new: "k \<notin> fst ` set m \<Longrightarrow> length (AList.update k v m) = Suc (length m)"
  by (induction m) auto

lemma linked_inj: "linked t r \<Longrightarrow> t a = Some i \<Longrightarrow> t b = Some i \<Longrightarrow> a = b"
  unfolding linked_def by (metis option.inject)

lemma linked_known:
  assumes l: "linked t r" and t: "t sn = Some i" and info: "net_subnet info = sn"
  shows "linked t (r(i \<mapsto> info))"
  unfolding linked_def
proof (intro allI)
  fix sn' j
  show "t sn' = Some j \<longleftrightarrow> (\<exists>x. (r(i \<mapsto> info)) j = Some x \<and> net_subnet x = sn')"
  proof (cases "j = i")
    case True
    have "t sn' = Some i \<longleftrightarrow> sn' = sn" using linked_inj [OF l t, of sn'] t by blast
    with True info show ?thesis by auto
  next
    case False
    then show ?thesis using l by (simp add: linked_def)
  qed
qed

lemma linked_new:
  assumes l: "linked t r" and t: "t sn = None" and i: "i \<notin> ran t" and info: "net_subnet info = sn"
  shows "linked (t(sn \<mapsto> i)) (r(i \<mapsto> info))"
  unfolding linked_def
proof (intro allI)
  fix sn' j
  have other: "t sn' \<noteq> Some i" using i by (auto simp: ran_def)
  have none: "\<not> (\<exists>x. r j = Some x \<and> net_subnet x = sn)"
    using l [unfolded linked_def, THEN spec, of sn, THEN spec, of j] t by simp
  have eq: "t sn' = Some j \<longleftrightarrow> (\<exists>x. r j = Some x \<and> net_subnet x = sn')"
    using l unfolding linked_def by blast
  show "(t(sn \<mapsto> i)) sn' = Some j \<longleftrightarrow> (\<exists>x. (r(i \<mapsto> info)) j = Some x \<and> net_subnet x = sn')"
  proof (cases "j = i")
    case True
    then show ?thesis using other info by auto
  next
    case False
    then show ?thesis using eq none by auto
  qed
qed

lemma registry_inv_known:
  assumes inv: "registry_inv s" and known: "hm_get (SUBNET_TO_ID s) subnet = Some i"
  shows "registry_inv (register_network name subnet s)"
  using assms by (simp add: registry_inv_def register_network_def distinct_update update_conv' linked_known)

lemma registry_inv_new:
  assumes inv: "registry_inv s" and new: "hm_get (SUBNET_TO_ID s) subnet = None"
    and room: "length (SUBNET_TO_ID s) < 4294967294"
  shows "registry_inv (register_network name subnet s)"
proof -
  let ?n = "NEXT_NETWORK_ID s" and ?t = "SUBNET_TO_ID s"
  have next_unat: "unat ?n = length ?t + 1" using inv by (simp add: registry_inv_def)
  then have next_Suc: "unat (?n + 1) = unat ?n + 1" using room by (simp add: unat_word_ariths)
  have fresh: "?n \<notin> ran (hm_get ?t)" using inv by (auto simp: registry_inv_def)
  have len: "length (hm_insert subnet ?n ?t) = length ?t + 1"
    using new by (simp add: length_update_new map_of_eq_None_iff)
  have "1 \<le> ?n" using next_unat by (simp add: word_le_nat_alt)
  moreover have "i < ?n + 1" if "i \<le> ?n" for i
    using that next_Suc by (simp add: word_less_nat_alt word_le_nat_alt)
  ultimately have range: "\<forall>i \<in> ran ((hm_get ?t)(subnet \<mapsto> ?n)). 1 \<le> i \<and> i < ?n + 1"
    using inv new by (auto simp: registry_inv_def)
  from inv have "linked (hm_get ?t) (hm_get (NETWORK_REGISTRY s))" by (simp add: registry_inv_def)
  from linked_new [OF this new fresh] inv new next_Suc next_unat len range show ?thesis
    by (simp add: registry_inv_def register_network_def distinct_update update_conv' Let_def)
qed

lemma registry_inv_register:
  "registry_inv s \<Longrightarrow> length (SUBNET_TO_ID s) < 4294967294 \<Longrightarrow>
     registry_inv (register_network name subnet s)"
  by (cases "hm_get (SUBNET_TO_ID s) subnet") (auto intro: registry_inv_known registry_inv_new)

lemma register_network_lookup:
  "\<exists>i. hm_get (SUBNET_TO_ID (register_network name subnet s)) subnet = Some i \<and>
       hm_get (NETWORK_REGISTRY (register_network name subnet s)) i =
         Some \<lparr>net_name = name, net_subnet = subnet\<rparr>"
  by (auto simp: register_network_def update_conv' Let_def split: option.splits)

section \<open>Recording\<close>

definition wf_stats :: "stats_state \<Rightarrow> bool" where
  "wf_stats s \<longleftrightarrow> keys_distinct (STATS s) \<and> length (STATS s) \<le> MAX_STATS_ENTRIES"

lemma length_update_old: "k \<in> fst ` set m \<Longrightarrow> length (AList.update k v m) = length m"
  by (induction m) auto

lemma length_record_entry:
  assumes "length m \<le> MAX_STATS_ENTRIES"
  shows "length (record_entry now key ttl nid acc m) \<le> MAX_STATS_ENTRIES"
proof -
  let ?m1 = "hm_retain (\<lambda>_ e. elapsed now (last_seen e) < ttl) m"
  have m1: "length ?m1 \<le> MAX_STATS_ENTRIES" using length_retain_le assms by (rule order_trans)
  have "length (hm_insert key e ?m1) \<le> MAX_STATS_ENTRIES"
    if "\<not> (hm_get ?m1 key = None \<and> MAX_STATS_ENTRIES \<le> length ?m1)" for e
    using that m1
    by (cases "key \<in> fst ` set ?m1")
      (auto simp: length_update_new length_update_old map_of_eq_None_iff)
  with m1 show ?thesis by (simp add: record_entry_def Let_def)
qed

lemma keys_distinct_record_entry:
  "keys_distinct m \<Longrightarrow> keys_distinct (record_entry now key ttl nid acc m)"
  by (simp add: record_entry_def Let_def distinct_update)

lemma wf_stats_record:
  "wf_stats s \<Longrightarrow> wf_stats (record_resolve order now st domain origin ttl s)"
  by (simp add: wf_stats_def record_resolve_def length_record_entry keys_distinct_record_entry
      Let_def split: prod.splits)

lemma record_resolve_registry [simp]:
  "NETWORK_REGISTRY (record_resolve order now st domain origin ttl s) = NETWORK_REGISTRY s"
  "SUBNET_TO_ID (record_resolve order now st domain origin ttl s) = SUBNET_TO_ID s"
  "NEXT_NETWORK_ID (record_resolve order now st domain origin ttl s) = NEXT_NETWORK_ID s"
  by (simp_all add: record_resolve_def Let_def split: prod.splits)

lemma registry_inv_record:
  "registry_inv s \<Longrightarrow> registry_inv (record_resolve order now st domain origin ttl s)"
  by (simp add: registry_inv_def)

text \<open>An entry that is still alive at a given time.\<close>

definition live :: "int \<Rightarrow> nat \<Rightarrow> stats_map \<Rightarrow> string \<times> ip_addr \<Rightarrow> stat_entry option" where
  "live now ttl m key =
     (case hm_get m key of
        None \<Rightarrow> None
      | Some e \<Rightarrow> if elapsed now (last_seen e) < ttl then Some e else None)"

lemma record_entry_other:
  "keys_distinct m \<Longrightarrow> k \<noteq> key \<Longrightarrow>
     hm_get (record_entry now key ttl nid acc m) k = live now ttl m k"
  by (simp add: record_entry_def live_def Let_def hm_get_retain update_conv')

lemma record_entry_same:
  assumes "keys_distinct m"
    and "live now ttl m key \<noteq> None \<or> length m < MAX_STATS_ENTRIES"
  shows "hm_get (record_entry now key ttl nid acc m) key =
     Some \<lparr>count = (case live now ttl m key of None \<Rightarrow> 0 | Some e \<Rightarrow> count e) + 1,
           last_seen = now, network_id = nid, accepted = acc\<rparr>"
proof -
  let ?m1 = "hm_retain (\<lambda>_ e. elapsed now (last_seen e) < ttl) m"
  have live: "hm_get ?m1 key = live now ttl m key"
    using assms(1) by (simp add: live_def hm_get_retain)
  have "length ?m1 \<le> length m" by (rule length_retain_le)
  with assms(2) have "\<not> (live now ttl m key = None \<and> MAX_STATS_ENTRIES \<le> length ?m1)" by auto
  then show ?thesis
    by (auto simp: record_entry_def Let_def live update_conv' split: option.splits)
qed

section \<open>The report\<close>

lemma group_push_keys: "keys_distinct g \<Longrightarrow> keys_distinct (group_push x g)"
  by (simp add: group_push_def distinct_update Let_def split: prod.splits)

lemma group_push_get:
  "hm_get (group_push ((domain, origin), e) g) k =
     (if k = (network_id e, origin)
      then Some ((case hm_get g k of Some es \<Rightarrow> es | None \<Rightarrow> []) @ [(domain, e)])
      else hm_get g k)"
  by (auto simp: group_push_def update_conv' Let_def)

definition entries_of :: "u32 option \<times> ip_addr \<Rightarrow> stats_map \<Rightarrow> (string \<times> stat_entry) list" where
  "entries_of k m = map (\<lambda>((d, _), e). (d, e)) (filter (\<lambda>((_, origin), e). (network_id e, origin) = k) m)"

lemma group_fold:
  "keys_distinct g \<Longrightarrow> keys_distinct (fold group_push m g) \<and>
     (\<forall>k. hm_get (fold group_push m g) k =
        (if hm_get g k = None \<and> entries_of k m = [] then None
         else Some ((case hm_get g k of Some es \<Rightarrow> es | None \<Rightarrow> []) @ entries_of k m)))"
proof (induction m arbitrary: g)
  case Nil
  then show ?case by (auto simp: entries_of_def split: option.splits)
next
  case (Cons x m)
  obtain d origin e where x: "x = ((d, origin), e)" by (metis surj_pair)
  have "keys_distinct (group_push x g)" using Cons.prems by (rule group_push_keys)
  from Cons.IH [OF this] show ?case
    by (auto simp: x group_push_get entries_of_def split: option.splits)
qed

lemma group_stats_get:
  "hm_get (group_stats m) k = (if entries_of k m = [] then None else Some (entries_of k m))"
  using group_fold [of "[]" m, THEN conjunct2, rule_format, of k]
  by (auto simp: group_stats_def simp del: fun_upd_apply)

lemma group_stats_keys: "keys_distinct (group_stats m)"
  using group_fold [of "[]" m] by (simp add: group_stats_def)

lemma group_ips_set: "set (group_ips nid (group_stats m)) = {ip. entries_of (nid, ip) m \<noteq> []}"
proof -
  have "(nid, ip) \<in> fst ` set (group_stats m) \<longleftrightarrow> entries_of (nid, ip) m \<noteq> []" for ip
    using group_stats_get [of m "(nid, ip)"] by (metis map_of_eq_None_iff option.distinct(1))
  then show ?thesis unfolding group_ips_def by (force simp: image_iff)
qed

text \<open>Neither lookup that the report unwraps can fail.\<close>

lemma group_ips_get:
  "ip \<in> set (group_ips nid (group_stats m)) \<Longrightarrow>
     hm_get (group_stats m) (nid, ip) = Some (entries_of (nid, ip) m) \<and> entries_of (nid, ip) m \<noteq> []"
  by (simp add: group_ips_set group_stats_get)

lemma distinct_group_ips: "distinct (group_ips nid (group_stats m))"
proof -
  have "distinct (map snd (filter (\<lambda>(n, _). n = nid) ks))" if "distinct ks"
    for ks :: "(u32 option \<times> ip_addr) list"
    using that by (induction ks) force+
  then show ?thesis using group_stats_keys [of m] by (simp add: group_ips_def)
qed

section \<open>Properties\<close>

text \<open>
  C34: The subnet test is membership in the network prefix: for a subnet written as address, slash
  and length, with any text on both sides, it holds exactly when both parse, the families agree
  after an IPv4-mapped address has been unmapped, and address and network agree after dropping the
  host bits. Lengths beyond the width compare the whole address.
\<close>

theorem ip_in_subnet_prefix:
  assumes "CHR ''/'' \<notin> set network" and "CHR ''/'' \<notin> set len"
  shows "ip_in_subnet ip (network @ ''/'' @ len) \<longleftrightarrow>
     (\<exists>l. parse_u32 len = Some l \<and>
        ((\<exists>a n. unmap_ip ip = V4 a \<and> parse_ip network = Some (V4 n) \<and>
            unat a div 2 ^ (32 - unat l) = unat n div 2 ^ (32 - unat l)) \<or>
         (\<exists>a n. unmap_ip ip = V6 a \<and> parse_ip network = Some (V6 n) \<and>
            unat a div 2 ^ (128 - unat l) = unat n div 2 ^ (128 - unat l))))"
  unfolding ip_in_subnet_split [OF assms]
  by (auto split: option.splits ip_addr.splits)

theorem ip_in_subnet_prefix_witness:
  "ip_in_subnet (V6 0xFFFF0A010203) ''10.1.0.0/16'' \<and> \<not> ip_in_subnet (V4 0x0A020203) ''10.1.0.0/16''"
proof -
  have parse: "parse_u32 ''16'' = Some 16" "parse_ip ''10.1.0.0'' = Some (V4 0x0A010000)"
    "unmap_ip (V6 0xFFFF0A010203) = V4 0x0A010203" "unmap_ip (V4 0x0A020203) = V4 0x0A020203"
    by code_simp+
  have arith: "unat (0x0A010203 :: u32) div 2 ^ (32 - unat (16 :: u32)) =
      unat (0x0A010000 :: u32) div 2 ^ (32 - unat (16 :: u32))"
    "unat (0x0A020203 :: u32) div 2 ^ (32 - unat (16 :: u32)) \<noteq>
      unat (0x0A010000 :: u32) div 2 ^ (32 - unat (16 :: u32))"
    by code_simp+
  show ?thesis
    using ip_in_subnet_prefix [of "''10.1.0.0''" "''16''" "V6 0xFFFF0A010203"]
      ip_in_subnet_prefix [of "''10.1.0.0''" "''16''" "V4 0x0A020203"] parse arith by simp
qed

text \<open>
  Registration keeps the registry consistent (identifiers are never shared between subnets,
  table and registry agree) as long as the counter does not wrap, gives the subnet an identifier
  that carries the given name, keeps the identifier of a subnet that was known, and leaves every
  other subnet and every other identifier as they were.
\<close>

theorem register_network_correct:
  assumes "registry_inv s" and "length (SUBNET_TO_ID s) < 4294967294"
  shows "let s' = register_network name subnet s in
     registry_inv s' \<and> STATS s' = STATS s \<and>
     (\<exists>i. hm_get (SUBNET_TO_ID s') subnet = Some i \<and>
        hm_get (NETWORK_REGISTRY s') i = Some \<lparr>net_name = name, net_subnet = subnet\<rparr> \<and>
        (case hm_get (SUBNET_TO_ID s) subnet of
           Some j \<Rightarrow> i = j
         | None \<Rightarrow> hm_get (NETWORK_REGISTRY s) i = None) \<and>
        (\<forall>j. j \<noteq> i \<longrightarrow> hm_get (NETWORK_REGISTRY s') j = hm_get (NETWORK_REGISTRY s) j)) \<and>
     (\<forall>other. other \<noteq> subnet \<longrightarrow>
        hm_get (SUBNET_TO_ID s') other = hm_get (SUBNET_TO_ID s) other)"
proof -
  have "NEXT_NETWORK_ID s \<notin> ran (hm_get (SUBNET_TO_ID s))"
    using assms(1) by (auto simp: registry_inv_def)
  then have "hm_get (SUBNET_TO_ID s) sn \<noteq> Some (NEXT_NETWORK_ID s)" for sn by (auto simp: ran_def)
  moreover have "linked (hm_get (SUBNET_TO_ID s)) (hm_get (NETWORK_REGISTRY s))"
    using assms(1) by (simp add: registry_inv_def)
  ultimately have "hm_get (NETWORK_REGISTRY s) (NEXT_NETWORK_ID s) = None"
    unfolding linked_def by (metis not_None_eq)
  then show ?thesis using registry_inv_register [OF assms]
    by (simp add: register_network_def update_conv' Let_def split: option.splits)
qed

theorem register_network_correct_witness:
  "let s = register_network ''b'' ''10.1.0.0/16'' (register_network ''a'' ''10.0.0.0/16'' init_stats) in
   hm_get (SUBNET_TO_ID s) ''10.0.0.0/16'' = Some 1 \<and> hm_get (SUBNET_TO_ID s) ''10.1.0.0/16'' = Some 2 \<and>
   registry_inv (register_network ''c'' ''10.1.0.0/16'' s)"
proof -
  let ?s1 = "register_network ''a'' ''10.0.0.0/16'' init_stats"
  let ?s2 = "register_network ''b'' ''10.1.0.0/16'' ?s1"
  have len: "length (SUBNET_TO_ID init_stats) < 4294967294" "length (SUBNET_TO_ID ?s1) < 4294967294"
    "length (SUBNET_TO_ID ?s2) < 4294967294"
    by (simp_all add: init_stats_def register_network_def)
  have s1: "registry_inv ?s1"
    using register_network_correct [OF registry_inv_init len(1)] by (simp add: Let_def)
  have s2: "registry_inv ?s2"
    using register_network_correct [OF s1 len(2)] by (simp add: Let_def)
  have "registry_inv (register_network ''c'' ''10.1.0.0/16'' ?s2)"
    using register_network_correct [OF s2 len(3)] by (simp add: Let_def)
  then show ?thesis by (simp add: init_stats_def register_network_def Let_def)
qed

text \<open>
  The network of an origin address is found through the registry: with a consistent registry
  the lookup names a registered network whose subnet contains the address, together with the
  name registered last for that subnet, and it finds none only when no registered subnet
  contains the address.
\<close>

theorem lookup_network_correct:
  assumes "registry_inv s" and "iteration_order order"
  shows "case lookup_network order origin s of
       (Some i, name) \<Rightarrow> \<exists>info. hm_get (NETWORK_REGISTRY s) i = Some info \<and>
          ip_in_subnet origin (net_subnet info) \<and> name = Some (net_name info)
     | (None, name) \<Rightarrow> name = None \<and>
          (\<forall>i info. hm_get (NETWORK_REGISTRY s) i = Some info \<longrightarrow> \<not> ip_in_subnet origin (net_subnet info))"
proof -
  let ?t = "SUBNET_TO_ID s" and ?r = "NETWORK_REGISTRY s"
  have kd: "keys_distinct ?t" and link: "linked (hm_get ?t) (hm_get ?r)"
    using assms(1) by (simp_all add: registry_inv_def)
  have elems: "set (order ?t) = set ?t" using assms(2) by (rule iteration_order_set)
  show ?thesis
  proof (cases "find (\<lambda>(subnet, _). ip_in_subnet origin subnet) (order ?t)")
    case None
    then have "\<not> ip_in_subnet origin sn" if "hm_get ?t sn = Some i" for sn i
      using that elems by (fastforce simp: find_None_iff dest: map_of_SomeD)
    then have "\<not> ip_in_subnet origin (net_subnet info)" if "hm_get ?r i = Some info" for i info
      using that link unfolding linked_def by blast
    with None show ?thesis by (simp add: lookup_network_def)
  next
    case (Some x)
    obtain sn i where x: "x = (sn, i)" by (cases x)
    have "(sn, i) \<in> set ?t" and hit: "ip_in_subnet origin sn"
      using Some elems by (auto simp: x find_Some_iff) (metis nth_mem)
    then have "hm_get ?t sn = Some i" using kd by (simp add: map_of_eq_Some_iff)
    then obtain info where "hm_get ?r i = Some info" and "net_subnet info = sn"
      using link unfolding linked_def by blast
    with hit Some show ?thesis by (simp add: lookup_network_def x)
  qed
qed

theorem lookup_network_correct_witness:
  "registry_inv (register_network ''a'' ''10.0.0.0/16'' init_stats) \<and>
   lookup_network rev (V4 0x0A000001) (register_network ''a'' ''10.0.0.0/16'' init_stats) = (Some 1, Some ''a'')"
proof -
  let ?s = "register_network ''a'' ''10.0.0.0/16'' init_stats"
  have inv: "registry_inv ?s"
    by (rule registry_inv_register [OF registry_inv_init]) (simp add: init_stats_def)
  have net: "ip_in_subnet (V4 0x0A000001) ''10.0.0.0/16''" by code_simp
  have reg: "NETWORK_REGISTRY ?s = [(1, \<lparr>net_name = ''a'', net_subnet = ''10.0.0.0/16''\<rparr>)]"
    by (simp add: register_network_def init_stats_def)
  have "case lookup_network rev (V4 0x0A000001) ?s of
      (Some i, name) \<Rightarrow> i = 1 \<and> name = Some ''a'' | (None, name) \<Rightarrow> False"
    using lookup_network_correct [OF inv iteration_order_rev, of "V4 0x0A000001"] net
    by (auto simp: reg split: prod.splits option.splits if_splits)
  with inv show ?thesis by (auto split: prod.splits option.splits)
qed



lemma sublist_in_right: "sublist x b \<Longrightarrow> sublist x (a @ b)"
  by (auto simp: sublist_append)

lemma sublist_in_left: "sublist x a \<Longrightarrow> sublist x (a @ b)"
  by (auto simp: sublist_append)

lemma sublist_concat_map: "x \<in> set xs \<Longrightarrow> sublist (f x) (concat (map f xs))"
  by (induction xs) (auto intro: sublist_in_left sublist_in_right)

lemma entries_of_mem:
  "((d, origin), e) \<in> set m \<Longrightarrow> (d, e) \<in> set (entries_of (network_id e, origin) m)"
  by (force simp: entries_of_def image_iff)

lemma network_block_line:
  assumes "((d, origin), e) \<in> set m" and "network_id e = Some nid"
  shows "sublist (entry_line now (length (group_ips (Some nid) (group_stats m)) = 1) origin (d, e))
           (network_block now (group_stats m) (nid, info))"
proof -
  let ?g = "group_stats m" and ?ips = "group_ips (Some nid) (group_stats m)"
  let ?line = "entry_line now (length ?ips = 1) origin"
  let ?part = "\<lambda>ip. (if length ?ips = 1 then [] else ''  IP: '' @ show_ip ip @ nl) @
      concat (map (entry_line now (length ?ips = 1) ip) (case hm_get ?g (Some nid, ip) of Some es \<Rightarrow> es | None \<Rightarrow> []))"
  have mem: "(d, e) \<in> set (entries_of (Some nid, origin) m)"
    using entries_of_mem [OF assms(1)] assms(2) by simp
  then have ip: "origin \<in> set ?ips" by (auto simp: group_ips_set)
  then have get: "hm_get ?g (Some nid, origin) = Some (entries_of (Some nid, origin) m)"
    using group_ips_get by blast
  have "sublist (?line (d, e)) (concat (map ?line (entries_of (Some nid, origin) m)))"
    using mem by (rule sublist_concat_map)
  then have "sublist (?line (d, e)) (?part origin)"
    unfolding get option.case by (rule sublist_in_right)
  also have "sublist (?part origin) (concat (map ?part ?ips))" using ip by (rule sublist_concat_map)
  finally have "sublist (?line (d, e)) (concat (map ?part ?ips))" .
  moreover have "?ips \<noteq> []" using ip by auto
  ultimately show ?thesis
    unfolding network_block_def Let_def prod.case
    by (simp only: if_False) (intro sublist_in_right sublist_in_left)
qed



end
