(* ===== verification/Helper_Plan.thy ===== *)
theory Helper_Plan
  imports Siphash Helper_Rules Stats
begin

text \<open>
  The address plan of a Docker network (\<^verbatim>\<open>src/src/helper.rs\<close>, \<^verbatim>\<open>NetworkPlan\<close> and \<^verbatim>\<open>subnet_and_gateway\<close>): a
  subnet of 172.30.0.0/16 and a gateway in it, chosen by the hash of the name and the attempt.
\<close>

section \<open>Model\<close>

definition NETWORK_BASE_OCTET :: u8 where
  "NETWORK_BASE_OCTET = 30"

definition NETWORK_PREFIX_OCTET :: u8 where
  "NETWORK_PREFIX_OCTET = 172"

definition NETWORK_PREFIX_LENGTH :: u8 where
  "NETWORK_PREFIX_LENGTH = 28"

definition USABLE_HOSTS_PER_SUBNET :: u16 where
  "USABLE_HOSTS_PER_SUBNET = 14"

definition SUBNET_SLOTS :: u64 where
  "SUBNET_SLOTS = 256 * ucast USABLE_HOSTS_PER_SUBNET"

definition show_u8 :: "u8 \<Rightarrow> string" where
  "show_u8 n = show_nat (unat n)"

definition subnet_and_gateway :: "string \<Rightarrow> u32 \<Rightarrow> string \<times> string" where
  "subnet_and_gateway name att =
     (let slot = (ucast (default_hash name att mod SUBNET_SLOTS) :: u16);
          third = (ucast (slot div USABLE_HOSTS_PER_SUBNET) :: u8);
          fourth = (ucast (slot mod USABLE_HOSTS_PER_SUBNET) :: u8);
          stem = show_u8 NETWORK_PREFIX_OCTET @ ''.'' @ show_u8 NETWORK_BASE_OCTET @ ''.'' @ show_u8 third
      in (stem @ ''.0/'' @ show_u8 NETWORK_PREFIX_LENGTH, stem @ ''.'' @ show_u8 (fourth + 1)))"

definition network_plan_new :: "string \<Rightarrow> u16 \<Rightarrow> u32 \<Rightarrow> network_plan" where
  "network_plan_new name dns_port att =
     (let (subnet, gateway) = subnet_and_gateway name att
      in \<lparr>plan_name = name, plan_subnet = subnet, plan_gateway = gateway, plan_dns_port = dns_port\<rparr>)"

section \<open>Laws\<close>

lemma slot_octets:
  fixes x :: u64
  defines "slot \<equiv> ucast (x mod SUBNET_SLOTS) :: u16"
  shows "\<exists>t f. t < 256 \<and> f < 14 \<and> unat (ucast (slot div USABLE_HOSTS_PER_SUBNET) :: u8) = t \<and>
    unat ((ucast (slot mod USABLE_HOSTS_PER_SUBNET) :: u8) + 1) = f + 1"
proof -
  have "unat (x mod SUBNET_SLOTS) = unat x mod 3584"
    by (simp add: SUBNET_SLOTS_def USABLE_HOSTS_PER_SUBNET_def unat_mod)
  then have "unat (x mod SUBNET_SLOTS) < 3584" by simp
  then have slot: "unat slot < 3584"
    unfolding slot_def by (simp add: unsigned_ucast_eq take_bit_nat_eq_self)
  have "unat (ucast (slot div USABLE_HOSTS_PER_SUBNET) :: u8) < 256"
    using unsigned_less [of "ucast (slot div USABLE_HOSTS_PER_SUBNET) :: u8", where ?'a = nat] by simp
  moreover have m: "unat (slot mod USABLE_HOSTS_PER_SUBNET) < 14"
    by (simp add: USABLE_HOSTS_PER_SUBNET_def unat_mod)
  then have f: "unat (ucast (slot mod USABLE_HOSTS_PER_SUBNET) :: u8) = unat (slot mod USABLE_HOSTS_PER_SUBNET)"
    by (simp add: unsigned_ucast_eq take_bit_nat_eq_self)
  have "unat ((ucast (slot mod USABLE_HOSTS_PER_SUBNET) :: u8) + 1) = unat (slot mod USABLE_HOSTS_PER_SUBNET) + 1"
    using m f by (subst unat_plus_if_size) (simp add: word_size)
  ultimately show ?thesis using m by blast
qed

lemma subnet_and_gateway_octets:
  obtains t f where "t < 256" and "1 \<le> f" and "f \<le> 14"
    and "subnet_and_gateway name att = (show_ipv4 (ipv4_new 172 30 t 0) @ ''/28'', show_ipv4 (ipv4_new 172 30 t f))"
proof -
  define slot where "slot = (ucast (default_hash name att mod SUBNET_SLOTS) :: u16)"
  obtain t f where t: "t < 256" "f < 14"
    and o3: "unat (ucast (slot div USABLE_HOSTS_PER_SUBNET) :: u8) = t"
    and o4: "unat ((ucast (slot mod USABLE_HOSTS_PER_SUBNET) :: u8) + 1) = f + 1"
    using slot_octets [of "default_hash name att"] unfolding slot_def by blast
  have lits: "show_u8 NETWORK_PREFIX_OCTET = show_nat 172" "show_u8 NETWORK_BASE_OCTET = show_nat 30"
    "show_u8 NETWORK_PREFIX_LENGTH = ''28''" "show_nat 0 = ''0''"
    unfolding show_u8_def by code_simp+
  have v4: "show_ipv4 (ipv4_new 172 30 t d) = show_nat 172 @ ''.'' @ show_nat 30 @ ''.'' @ show_nat t @ ''.'' @ show_nat d"
    if "d < 256" for d
    using that t(1) by (simp add: show_ipv4_octets octets_ipv4_new)
  have "subnet_and_gateway name att = (show_ipv4 (ipv4_new 172 30 t 0) @ ''/28'', show_ipv4 (ipv4_new 172 30 t (f + 1)))"
    using t(2) unfolding subnet_and_gateway_def Let_def slot_def [symmetric] lits show_u8_def [of "ucast _"] show_u8_def [of "_ + 1"] o3 o4
    by (subst (1 2) v4) (simp_all add: lits)
  then show thesis using that [of t "f + 1"] t by simp
qed

lemma in_slash_28:
  assumes "t < 256"
  shows "ip_in_subnet ip (show_ipv4 (ipv4_new 172 30 t 0) @ ''/28'') \<longleftrightarrow> (\<exists>d < 16. unmap_ip ip = V4 (ipv4_new 172 30 t d))"
proof -
  have suf: "''/28'' = ''/'' @ show_nat 28" by code_simp
  have base: "unat (ipv4_new 172 30 t d) = 2887647232 + t * 256 + d" if "d < 256" for d
    using assms that by (simp add: unat_ipv4_new)
  have "unat a div 16 = unat (ipv4_new 172 30 t 0) div 16 \<longleftrightarrow> (\<exists>d < 16. a = ipv4_new 172 30 t d)" for a
  proof
    assume div: "unat a div 16 = unat (ipv4_new 172 30 t 0) div 16"
    define d where "d = unat a mod 16"
    have "unat (ipv4_new 172 30 t 0) div 16 = 180477952 + t * 16" using base [of 0] by simp
    moreover have "unat a = 16 * (unat a div 16) + d" unfolding d_def by (simp only: mult_div_mod_eq)
    ultimately have "unat a = 2887647232 + t * 256 + d" using div by linarith
    have d: "d < 16" unfolding d_def by simp
    then have "unat a = unat (ipv4_new 172 30 t d)" using \<open>unat a = 2887647232 + t * 256 + d\<close> base [of d] by simp
    with d show "\<exists>d < 16. a = ipv4_new 172 30 t d" by (metis word_unat_eq_iff)
  next
    assume "\<exists>d < 16. a = ipv4_new 172 30 t d"
    then obtain d where d: "d < 16" and a: "a = ipv4_new 172 30 t d" by blast
    have "(16 * (180477952 + t * 16) + d) div 16 = 180477952 + t * 16" using d by simp
    then show "unat a div 16 = unat (ipv4_new 172 30 t 0) div 16"
      unfolding a using base [of d] base [of 0] d by (simp add: algebra_simps)
  qed
  then show ?thesis unfolding suf by (subst ip_in_subnet_v4) auto
qed

section \<open>Properties\<close>

text \<open>
  C33: Every attempt yields a usable plan: the subnet is a network 172.30.t.0/28, which contains exactly
  its sixteen addresses, and the gateway is one of the fourteen host addresses of that subnet, so it
  is neither its network address nor its broadcast address.
\<close>

theorem subnet_and_gateway_valid:
  "case subnet_and_gateway name att of
     (subnet, gateway) \<Rightarrow>
       \<exists>t f. t < 256 \<and> 1 \<le> f \<and> f \<le> 14 \<and> parse_ip gateway = Some (V4 (ipv4_new 172 30 t f)) \<and>
         (\<forall>ip. ip_in_subnet ip subnet \<longleftrightarrow> (\<exists>d < 16. unmap_ip ip = V4 (ipv4_new 172 30 t d)))"
proof -
  obtain t f where t: "t < 256" "1 \<le> f" "f \<le> 14"
    and eq: "subnet_and_gateway name att = (show_ipv4 (ipv4_new 172 30 t 0) @ ''/28'', show_ipv4 (ipv4_new 172 30 t f))"
    by (rule subnet_and_gateway_octets)
  show ?thesis unfolding eq prod.case using t in_slash_28 [OF t(1)] parse_ip_show_ipv4 by blast
qed

end
