(* ===== verification/Helper_Alloc.thy ===== *)
theory Helper_Alloc
  imports Helper_Cmd Rust_Ipv6
begin

text \<open>
  Source addresses for rootless Podman (\<^verbatim>\<open>src/src/helper.rs\<close>, from \<^verbatim>\<open>default_route_interface\<close> to
  \<^verbatim>\<open>rootless_podman_source_ipv6\<close>): the interface, the stable hash of a name, the candidate addresses it
  leads to, and the two allocators that read rules and addresses back from the system.
\<close>

section \<open>Model\<close>

subsection \<open>Interfaces\<close>

definition validate_interface_name :: "string \<Rightarrow> string result" where
  "validate_interface_name interface =
     (if interface = [] \<or> 15 < length interface \<or>
         \<not> list_all (\<lambda>c. is_ascii_alphanumeric c \<or> c = CHR ''.'' \<or> c = CHR ''_'' \<or> c = CHR ''-'') interface
      then Inl (Msg (''interface name must be 1-15 ASCII alphanumeric, '' @ [CHR 0x27] @ ''.'' @ [CHR 0x27] @ '', '' @
              [CHR 0x27] @ ''_'' @ [CHR 0x27] @ '', or '' @ [CHR 0x27] @ ''-'' @ [CHR 0x27] @ '' characters''))
      else Inr interface)"

text \<open>The loop over the fields of one route: None when no field is \<^verbatim>\<open>dev\<close>.\<close>

fun route_device :: "string list \<Rightarrow> string result option" where
  "route_device [] = None"
| "route_device (field # rest) =
     (if field = ''dev''
      then Some (case rest of
                   [] \<Rightarrow> Inl (Msg ''default route has no interface'')
                 | interface # _ \<Rightarrow> validate_interface_name interface)
      else route_device rest)"

fun default_route_of :: "string list \<Rightarrow> string result" where
  "default_route_of [] = Inl (Msg ''could not determine the default-route interface'')"
| "default_route_of (route # routes) =
     (case split_ascii_whitespace route of
        [] \<Rightarrow> default_route_of routes
      | first # words \<Rightarrow>
          if first \<noteq> ''default'' then default_route_of routes
          else (case route_device words of Some r \<Rightarrow> r | None \<Rightarrow> default_route_of routes))"

definition default_route_interface :: "'w host \<Rightarrow> ('w, string) cmd" where
  "default_route_interface h =
     bindc (resolve_binary h IP_CANDIDATES) (\<lambda>ip_binary.
     bindc (run_command_checked h ip_binary [''route'', ''show'', ''default'']) (\<lambda>res.
       lift_result (default_route_of (lines (from_utf8_lossy (out_stdout res))))))"

subsection \<open>Candidate addresses\<close>

text \<open>FNV-1a over the bytes of the name, in 64-bit arithmetic that wraps.\<close>

definition fnv1a :: "string \<Rightarrow> u64" where
  "fnv1a name = fold (\<lambda>c hash. (hash XOR of_nat (byte c)) * 0x100000001b3) name 0xcbf29ce484222325"

definition rootless_podman_source_ip :: "string \<Rightarrow> u32 \<Rightarrow> u32" where
  "rootless_podman_source_ip name att =
     (let hash = fnv1a name;
          offset = (ucast (hash mod 131069) + att) mod 131069 + 2;
          base = ipv4_new 198 18 0 0
      in base + offset)"

definition rootless_podman_source_ipv6 :: "u128 \<Rightarrow> string \<Rightarrow> u32 \<Rightarrow> u128" where
  "rootless_podman_source_ipv6 pfx name att =
     (let hash = fnv1a name + ucast att
      in (pfx AND push_bit 64 (NOT 0)) OR ucast hash)"

subsection \<open>Reading rules back\<close>

fun source_field :: "string list \<Rightarrow> string option" where
  "source_field [] = None"
| "source_field (field # rest) =
     (if field = ''-s'' then (case rest of x # _ \<Rightarrow> Some x | [] \<Rightarrow> None) else source_field rest)"

definition output_rule_source_ip :: "string \<Rightarrow> u32 option" where
  "output_rule_source_ip rule =
     (case source_field (split_ascii_whitespace rule) of
        None \<Rightarrow> None
      | Some cidr \<Rightarrow> (case strip_suffix cidr ''/32'' of None \<Rightarrow> None | Some a \<Rightarrow> parse_ipv4 a))"

definition output_rule_source_ipv6 :: "string \<Rightarrow> u128 option" where
  "output_rule_source_ipv6 rule =
     (case source_field (split_ascii_whitespace rule) of
        None \<Rightarrow> None
      | Some cidr \<Rightarrow> (case strip_suffix cidr ''/128'' of None \<Rightarrow> None | Some a \<Rightarrow> parse_ipv6 a))"

definition own_marker :: "string \<Rightarrow> string" where
  "own_marker name = ''dockerwall:'' @ name @ '':output-hook''"

text \<open>The first marked line that yields an address the policy may keep.\<close>

fun reused_source :: "(string \<Rightarrow> 'a option) \<Rightarrow> ('a \<Rightarrow> bool) \<Rightarrow> string \<Rightarrow> string list \<Rightarrow> 'a option" where
  "reused_source source_of keep marker [] = None"
| "reused_source source_of keep marker (line # rest) =
     (if contains line marker
      then (case source_of line of
              Some a \<Rightarrow> if keep a then Some a else reused_source source_of keep marker rest
            | None \<Rightarrow> reused_source source_of keep marker rest)
      else reused_source source_of keep marker rest)"

subsection \<open>Allocation\<close>

definition show_to :: "'w host \<Rightarrow> string \<Rightarrow> string \<Rightarrow> string \<Rightarrow> ('w, proc_output) cmd" where
  "show_to h ip_binary family cidr =
     run_command_checked h ip_binary [''-o'', family, ''addr'', ''show'', ''to'', cidr]"

fun scan_source_ips :: "'w host \<Rightarrow> string \<Rightarrow> string \<Rightarrow> string list \<Rightarrow> nat list \<Rightarrow> ('w, u32) cmd" where
  "scan_source_ips h ip_binary name rules [] =
     fail (Msg ''all managed rootless Podman source addresses are in use'')"
| "scan_source_ips h ip_binary name rules (att # rest) =
     (let source_ip = rootless_podman_source_ip name (of_nat att);
          source_cidr = show_ipv4 source_ip @ ''/32''
      in if list_ex (\<lambda>line. contains line source_cidr) rules
         then scan_source_ips h ip_binary name rules rest
         else bindc (show_to h ip_binary ''-4'' source_cidr) (\<lambda>res.
                if out_stdout res = [] then ret source_ip
                else scan_source_ips h ip_binary name rules rest))"

definition allocate_rootless_podman_source_ip ::
  "'w host \<Rightarrow> string \<Rightarrow> string \<Rightarrow> string \<Rightarrow> ('w, u32) cmd" where
  "allocate_rootless_podman_source_ip h iptables_binary ip_binary name =
     bindc (run_command_checked h iptables_binary [''-S'', ''OUTPUT'']) (\<lambda>res.
       let rules = lines (from_utf8_lossy (out_stdout res))
       in case reused_source output_rule_source_ip (\<lambda>_. True) (own_marker name) rules of
            Some source_ip \<Rightarrow> ret source_ip
          | None \<Rightarrow> scan_source_ips h ip_binary name rules [0..<131069])"

text \<open>The address of one line of \<^verbatim>\<open>ip -o -6 addr show\<close>, when it has a prefix of length 64.\<close>

fun inet6_field :: "string list \<Rightarrow> string option" where
  "inet6_field [] = None"
| "inet6_field (field # rest) =
     (if field = ''inet6'' then (case rest of x # _ \<Rightarrow> Some x | [] \<Rightarrow> None) else inet6_field rest)"

definition prefix_of_line :: "string \<Rightarrow> u128 option" where
  "prefix_of_line line =
     (case inet6_field (split_ascii_whitespace line) of
        None \<Rightarrow> None
      | Some cidr \<Rightarrow>
          (case split_once CHR ''/'' cidr of
             None \<Rightarrow> None
           | Some (address, prefix_length) \<Rightarrow>
               if prefix_length \<noteq> ''64'' then None else parse_ipv6 address))"

fun first_prefix :: "string list \<Rightarrow> u128 option" where
  "first_prefix [] = None"
| "first_prefix (line # rest) = (case prefix_of_line line of Some a \<Rightarrow> Some a | None \<Rightarrow> first_prefix rest)"

definition rootless_podman_ipv6_prefix :: "'w host \<Rightarrow> string \<Rightarrow> string \<Rightarrow> ('w, u128 option) cmd" where
  "rootless_podman_ipv6_prefix h ip_binary interface =
     bindc (run_command_checked h ip_binary
       [''-o'', ''-6'', ''addr'', ''show'', ''dev'', interface, ''scope'', ''global'']) (\<lambda>res.
       ret (first_prefix (lines (from_utf8_lossy (out_stdout res)))))"

fun scan_source_ipv6s :: "'w host \<Rightarrow> string \<Rightarrow> u128 \<Rightarrow> string \<Rightarrow> nat list \<Rightarrow> ('w, u128 option) cmd" where
  "scan_source_ipv6s h ip_binary pfx name [] =
     fail (Msg ''all managed rootless Podman IPv6 source addresses are in use'')"
| "scan_source_ipv6s h ip_binary pfx name (att # rest) =
     (let source_ip = rootless_podman_source_ipv6 pfx name (of_nat att);
          source_cidr = show_ipv6 source_ip @ ''/128''
      in bindc (show_to h ip_binary ''-6'' source_cidr) (\<lambda>res.
           if out_stdout res = [] then ret (Some source_ip)
           else scan_source_ipv6s h ip_binary pfx name rest))"

definition same_prefix :: "u128 \<Rightarrow> u128 \<Rightarrow> bool" where
  "same_prefix a b \<longleftrightarrow> take 4 (segments a) = take 4 (segments b)"

definition allocate_rootless_podman_source_ipv6 ::
  "'w host \<Rightarrow> string \<Rightarrow> string \<Rightarrow> string \<Rightarrow> string \<Rightarrow> ('w, u128 option) cmd" where
  "allocate_rootless_podman_source_ipv6 h ip6tables_binary ip_binary interface name =
     bindc (rootless_podman_ipv6_prefix h ip_binary interface) (\<lambda>found.
       case found of
         None \<Rightarrow> ret None
       | Some pfx \<Rightarrow>
           bindc (run_command_checked h ip6tables_binary [''-S'', ''OUTPUT'']) (\<lambda>res.
             let rules = lines (from_utf8_lossy (out_stdout res))
             in case reused_source output_rule_source_ipv6 (\<lambda>a. same_prefix a pfx) (own_marker name) rules of
                  Some source_ip \<Rightarrow> ret (Some source_ip)
                | None \<Rightarrow> scan_source_ipv6s h ip_binary pfx name [0..<50]))"

definition configure_rootless_podman_source_ipv6 ::
  "'w host \<Rightarrow> string \<Rightarrow> string \<Rightarrow> u128 \<Rightarrow> ('w, unit) cmd" where
  "configure_rootless_podman_source_ipv6 h ip_binary interface source_ipv6 =
     bindc (run_command_checked h ip_binary
       [''-6'', ''addr'', ''replace'', show_ipv6 source_ipv6 @ ''/64'', ''dev'', interface,
        ''preferred_lft'', ''0'', ''valid_lft'', ''forever'']) (\<lambda>_. ret ())"

section \<open>Candidates\<close>

lemma offset_nat:
  assumes "a < 131069"
  shows "unat ((ucast ((x :: u64) mod 131069) + of_nat a :: u32) mod 131069 + 2) = (unat x mod 131069 + a) mod 131069 + 2"
proof -
  have x: "unat (x mod 131069) = unat x mod 131069" by (simp add: unat_mod)
  have "unat x mod 131069 < 131069" by (rule mod_less_divisor) simp
  then have u: "unat (ucast (x mod 131069) :: u32) = unat x mod 131069"
    using x by (simp add: unsigned_ucast_eq take_bit_nat_eq_self)
  have a: "unat (of_nat a :: u32) = a" using assms by (intro unat_of_nat_u32) simp
  have s: "unat (ucast (x mod 131069) + of_nat a :: u32) = unat x mod 131069 + a"
  proof -
    have "unat x mod 131069 + a < 4294967296" using \<open>unat x mod 131069 < 131069\<close> assms by linarith
    then show ?thesis using u a by (subst unat_plus_if_size) (simp add: word_size)
  qed
  have "unat ((ucast (x mod 131069) + of_nat a :: u32) mod 131069) = (unat x mod 131069 + a) mod 131069"
    using s by (simp add: unat_mod)
  moreover have "(unat x mod 131069 + a) mod 131069 < 131069" by simp
  ultimately show ?thesis by (subst unat_plus_if_size) (simp add: word_size)
qed

lemma unat_source_ip:
  assumes "a < 131069"
  shows "unat (rootless_podman_source_ip name (of_nat a)) = 3323068416 + ((unat (fnv1a name) mod 131069 + a) mod 131069 + 2)"
proof -
  have base: "unat (ipv4_new 198 18 0 0) = 3323068416" by code_simp
  have "(unat (fnv1a name) mod 131069 + a) mod 131069 < 131069" by simp
  then show ?thesis
    unfolding rootless_podman_source_ip_def Let_def
    by (subst unat_plus_if_size) (simp add: word_size base offset_nat [OF assms])
qed

lemma rotate_inj:
  assumes "a < n" and "b < (n :: nat)" and "(k + a) mod n = (k + b) mod n"
  shows "a = b"
proof -
  have "y = x" if "x \<le> y" "y < n" "(k + y) mod n = (k + x) mod n" for x y
  proof -
    have "n dvd y - x" using that mod_eq_dvd_iff_nat [of "k + x" "k + y" n] by simp
    then show ?thesis using that by (metis dvd_imp_le diff_is_0_eq le_antisym less_imp_diff_less not_less zero_less_diff linorder_not_le)
  qed
  then show ?thesis using assms by (metis nat_le_linear)
qed

lemma rotate_surj:
  assumes "t < (n :: nat)"
  shows "\<exists>a < n. (k + a) mod n = t"
proof -
  have "(k + (n - k mod n + t) mod n) mod n = (k mod n + (n - k mod n + t)) mod n"
    by (simp add: mod_simps)
  also have "\<dots> = (n + t) mod n" using assms by (metis add.assoc le_add_diff_inverse less_imp_le mod_less_divisor gr_zeroI not_less_zero)
  also have "\<dots> = t" using assms by simp
  finally show ?thesis using assms by (intro exI [of _ "(n - k mod n + t) mod n"]) auto
qed

text \<open>The candidates of a name are all addresses from 198.18.0.2 to 198.19.255.254, each once.\<close>

lemma source_ip_inj:
  "a < 131069 \<Longrightarrow> b < 131069 \<Longrightarrow>
     rootless_podman_source_ip name (of_nat a) = rootless_podman_source_ip name (of_nat b) \<Longrightarrow> a = b"
  by (drule arg_cong [where f = unat]) (auto simp: unat_source_ip dest: rotate_inj)

lemma source_ip_range:
  assumes "a < 131069"
  shows "3323068418 \<le> unat (rootless_podman_source_ip name (of_nat a)) \<and>
    unat (rootless_podman_source_ip name (of_nat a)) \<le> 3323199486"
proof -
  have "(unat (fnv1a name) mod 131069 + a) mod 131069 < 131069" by simp
  then show ?thesis unfolding unat_source_ip [OF assms] by linarith
qed

lemma source_ip_surj:
  assumes "3323068418 \<le> unat ip" and "unat ip \<le> 3323199486"
  shows "\<exists>a < 131069. rootless_podman_source_ip name (of_nat a) = ip"
proof -
  have "unat ip - 3323068418 < 131069" using assms by linarith
  then obtain a where a: "a < 131069" "(unat (fnv1a name) mod 131069 + a) mod 131069 = unat ip - 3323068418"
    using rotate_surj by blast
  then have "unat (rootless_podman_source_ip name (of_nat a)) = unat ip"
    using assms(1) unat_source_ip [OF a(1), of name] by linarith
  with a(1) show ?thesis by (metis word_unat_eq_iff)
qed

text \<open>The IPv6 candidates keep the upper half of the prefix and differ in the lower half.\<close>

lemma source_ipv6_halves:
  "drop_bit 64 (rootless_podman_source_ipv6 pfx name att) = drop_bit 64 pfx"
  "take_bit 64 (rootless_podman_source_ipv6 pfx name att) = ucast (fnv1a name + ucast att)"
proof -
  have low: "bit (ucast (x :: u64) :: u128) n \<longleftrightarrow> n < 64 \<and> bit x n" for x n
    using bit_imp_le_length [of x n] by (auto simp: bit_ucast_iff)
  have high: "bit (NOT (mask 64) :: u128) n \<longleftrightarrow> 64 \<le> n \<and> n < 128" for n
    by (auto simp: bit_not_iff bit_mask_iff dest: bit_imp_le_length)
  show "drop_bit 64 (rootless_podman_source_ipv6 pfx name att) = drop_bit 64 pfx"
    unfolding rootless_podman_source_ipv6_def Let_def
    by (rule bit_word_eqI) (auto dest: bit_imp_le_length simp: bit_drop_bit_eq bit_or_iff bit_and_iff low high)
  show "take_bit 64 (rootless_podman_source_ipv6 pfx name att) = ucast (fnv1a name + ucast att)"
    unfolding rootless_podman_source_ipv6_def Let_def
    by (rule bit_word_eqI) (auto simp: bit_take_bit_iff bit_or_iff bit_and_iff low high)
qed

lemma same_prefix_source_ipv6: "same_prefix (rootless_podman_source_ipv6 pfx name att) pfx"
proof -
  have half: "unat a div 65536 ^ (7 - i) = unat (drop_bit 64 a) div 65536 ^ (3 - i)" if "i < 4" for a :: u128 and i
  proof -
    have "unat (drop_bit 64 a) = unat a div 2 ^ 64" by (simp only: unat_drop_bit_eq) (rule drop_bit_eq_div)
    moreover have "(2 :: nat) ^ 64 * 65536 ^ (3 - i) = 65536 ^ (7 - i)"
    proof -
      have "(2 :: nat) ^ 64 = 65536 ^ 4" by simp
      moreover have "4 + (3 - i) = 7 - i" using that by simp
      ultimately show ?thesis by (metis power_add)
    qed
    ultimately show ?thesis by (metis div_mult2_eq)
  qed
  have seg: "segment i (rootless_podman_source_ipv6 pfx name att) = segment i pfx" if "i < 4" for i
    unfolding segment_def half [OF that] source_ipv6_halves(1) by (rule refl)
  have first: "take 4 (segments a) = map (\<lambda>i. segment i a) [0, 1, 2, 3]" for a by (simp add: segments_def)
  show ?thesis unfolding same_prefix_def first by (rule map_cong [OF refl]) (auto intro: seg)
qed

lemma source_ipv6_inj:
  "rootless_podman_source_ipv6 pfx name a = rootless_podman_source_ipv6 pfx name b \<Longrightarrow> a = b"
proof -
  assume "rootless_podman_source_ipv6 pfx name a = rootless_podman_source_ipv6 pfx name b"
  then have "(ucast (fnv1a name + ucast a) :: u128) = ucast (fnv1a name + ucast b)"
    using source_ipv6_halves(2) [of pfx name a] source_ipv6_halves(2) [of pfx name b] by simp
  moreover have "unat (ucast x :: u128) = unat x" for x :: u64
    using unsigned_less [of x, where ?'a = nat] by (simp add: unsigned_ucast_eq take_bit_nat_eq_self_iff)
  ultimately have "fnv1a name + ucast a = fnv1a name + ucast b" by (metis word_unat_eq_iff)
  then have "(ucast a :: u64) = ucast b" by simp
  moreover have "unat (ucast x :: u64) = unat x" for x :: u32
    using unsigned_less [of x, where ?'a = nat] by (simp add: unsigned_ucast_eq take_bit_nat_eq_self_iff)
  ultimately show ?thesis by (metis word_unat_eq_iff)
qed

section \<open>Pools of candidates\<close>

text \<open>
  Both allocators walk through the candidates of a name. What makes the walk a good one: the
  candidates are different from each other and never leave the pool of managed addresses.
\<close>

locale address_pool =
  fixes candidate :: "string \<Rightarrow> nat \<Rightarrow> 'a"
    and size :: nat
    and pool :: "'a set"
  assumes inj: "a < size \<Longrightarrow> b < size \<Longrightarrow> candidate name a = candidate name b \<Longrightarrow> a = b"
    and mem: "a < size \<Longrightarrow> candidate name a \<in> pool"
begin

lemma inj_candidates: "inj_on (candidate name) {..<size}"
  using inj by (auto intro: inj_onI)

text \<open>As long as fewer addresses are in use than there are candidates, one candidate is free.\<close>

lemma free_candidate:
  assumes "finite used" and "card used < size"
  shows "\<exists>n < size. candidate name n \<notin> used"
proof (rule ccontr)
  assume "\<not> (\<exists>n < size. candidate name n \<notin> used)"
  then have "candidate name ` {..<size} \<subseteq> used" by auto
  then have "card (candidate name ` {..<size}) \<le> card used" using assms(1) by (rule card_mono [rotated])
  with assms(2) show False by (simp add: card_image [OF inj_candidates])
qed

end

definition managed_ipv4 :: "u32 set" where
  "managed_ipv4 = {ip. ipv4_new 198 18 0 2 \<le> ip \<and> ip \<le> ipv4_new 198 19 255 254}"

lemma managed_ipv4_iff: "ip \<in> managed_ipv4 \<longleftrightarrow> 3323068418 \<le> unat ip \<and> unat ip \<le> 3323199486"
proof -
  have "unat (ipv4_new 198 18 0 2) = 3323068418" "unat (ipv4_new 198 19 255 254) = 3323199486" by code_simp+
  then show ?thesis by (simp add: managed_ipv4_def word_le_nat_alt)
qed

interpretation pool4: address_pool "\<lambda>name a. rootless_podman_source_ip name (of_nat a)" 131069 managed_ipv4
  by unfold_locales (auto simp: managed_ipv4_iff source_ip_range intro: source_ip_inj)

interpretation pool6: address_pool "\<lambda>name a. rootless_podman_source_ipv6 pfx name (of_nat a)" 50 "{a. same_prefix a pfx}"
  for pfx
proof
  fix a b :: nat and name
  assume "a < 50" "b < 50"
    and "rootless_podman_source_ipv6 pfx name (of_nat a) = rootless_podman_source_ipv6 pfx name (of_nat b)"
  then have "unat (of_nat a :: u32) = unat (of_nat b :: u32)" by (auto dest: source_ipv6_inj)
  with \<open>a < 50\<close> \<open>b < 50\<close> show "a = b" by (simp add: unat_of_nat_u32)
qed (simp add: same_prefix_source_ipv6)

section \<open>What the tools report\<close>

text \<open>
  \<open>assigned w\<close> are the address blocks that an interface of the host has an address in, and
  \<open>listing w b\<close> is the text of \<^verbatim>\<open>-S OUTPUT\<close>. Asking for either changes neither.
\<close>

definition query_laws :: "'w host \<Rightarrow> ('w \<Rightarrow> string set) \<Rightarrow> ('w \<Rightarrow> string \<Rightarrow> string) \<Rightarrow> bool" where
  "query_laws h assigned listing \<longleftrightarrow>
     (\<forall>b family cidr w. b \<in> set IP_CANDIDATES \<longrightarrow>
        (\<exists>res w'. host_output h (helper_command b [''-o'', family, ''addr'', ''show'', ''to'', cidr]) w = (Inr res, w') \<and>
           status_success res \<and> (out_stdout res = [] \<longleftrightarrow> cidr \<notin> assigned w) \<and>
           assigned w' = assigned w \<and> listing w' = listing w)) \<and>
     (\<forall>b w. b \<in> set IPTABLES_CANDIDATES \<union> set IP6TABLES_CANDIDATES \<longrightarrow>
        (\<exists>res w'. host_output h (helper_command b [''-S'', ''OUTPUT'']) w = (Inr res, w') \<and>
           status_success res \<and> out_stdout res = listing w b \<and>
           assigned w' = assigned w \<and> listing w' = listing w))"

lemma run_command_checked_ok:
  "host_output h (helper_command b args) w = (Inr res, w') \<Longrightarrow> status_success res \<Longrightarrow>
     run_command_checked h b args w = Some (Inr res, w')"
  by (simp add: run_command_checked_def bindc_def run_command_allow_failure_apply ret_def)

lemma show_to_runs:
  assumes "query_laws h assigned listing" and "b \<in> set IP_CANDIDATES"
  obtains res w' where "show_to h b family cidr w = Some (Inr res, w')"
    and "out_stdout res = [] \<longleftrightarrow> cidr \<notin> assigned w" and "assigned w' = assigned w" and "listing w' = listing w"
proof -
  obtain res w' where "host_output h (helper_command b [''-o'', family, ''addr'', ''show'', ''to'', cidr]) w = (Inr res, w')"
    "status_success res" and q: "out_stdout res = [] \<longleftrightarrow> cidr \<notin> assigned w" "assigned w' = assigned w" "listing w' = listing w"
    using assms unfolding query_laws_def by blast
  then have "show_to h b family cidr w = Some (Inr res, w')" unfolding show_to_def by (intro run_command_checked_ok)
  then show thesis using q by (rule that)
qed

lemma listing_runs:
  assumes "query_laws h assigned listing" and "b \<in> set IPTABLES_CANDIDATES \<union> set IP6TABLES_CANDIDATES"
  obtains res w' where "run_command_checked h b [''-S'', ''OUTPUT''] w = Some (Inr res, w')"
    and "out_stdout res = listing w b" and "assigned w' = assigned w" and "listing w' = listing w"
proof -
  obtain res w' where "host_output h (helper_command b [''-S'', ''OUTPUT'']) w = (Inr res, w')"
    "status_success res" and q: "out_stdout res = listing w b" "assigned w' = assigned w" "listing w' = listing w"
    using assms unfolding query_laws_def by blast
  then have "run_command_checked h b [''-S'', ''OUTPUT''] w = Some (Inr res, w')" by (intro run_command_checked_ok)
  then show thesis using q by (rule that)
qed

text \<open>When an IPv4 candidate is free: no rule mentions it and no interface has it.\<close>

definition source_free :: "('w \<Rightarrow> string set) \<Rightarrow> 'w \<Rightarrow> string list \<Rightarrow> u32 \<Rightarrow> bool" where
  "source_free assigned w rules ip \<longleftrightarrow>
     (\<forall>line \<in> set rules. \<not> contains line (show_ipv4 ip @ ''/32'')) \<and> show_ipv4 ip @ ''/32'' \<notin> assigned w"

lemma scan_source_ips_find:
  assumes laws: "query_laws h assigned listing" and b: "b \<in> set IP_CANDIDATES"
  shows "\<exists>w'. assigned w' = assigned w \<and> listing w' = listing w \<and>
    scan_source_ips h b name rules ns w =
      Some (case find (\<lambda>n. source_free assigned w rules (rootless_podman_source_ip name (of_nat n))) ns of
              Some n \<Rightarrow> Inr (rootless_podman_source_ip name (of_nat n))
            | None \<Rightarrow> Inl (Msg ''all managed rootless Podman source addresses are in use''), w')"
proof (induction ns arbitrary: w)
  case Nil
  then show ?case by (auto simp: fail_def)
next
  case (Cons n ns)
  let ?ip = "rootless_podman_source_ip name (of_nat n)"
  let ?cidr = "show_ipv4 ?ip @ ''/32''"
  show ?case
  proof (cases "list_ex (\<lambda>line. contains line ?cidr) rules")
    case True
    then have "\<not> source_free assigned w rules ?ip" by (auto simp: source_free_def list_ex_iff)
    with True Cons [of w] show ?thesis by (simp add: Let_def)
  next
    case False
    obtain res w1 where w1: "show_to h b ''-4'' ?cidr w = Some (Inr res, w1)"
      "out_stdout res = [] \<longleftrightarrow> ?cidr \<notin> assigned w" "assigned w1 = assigned w" "listing w1 = listing w"
      using show_to_runs [OF laws b] by blast
    have free: "source_free assigned w rules ?ip \<longleftrightarrow> out_stdout res = []"
      using False w1(2) by (auto simp: source_free_def list_ex_iff)
    have same: "source_free assigned w1 = source_free assigned w" by (simp add: source_free_def w1(3) fun_eq_iff)
    show ?thesis
    proof (cases "out_stdout res = []")
      case True
      then show ?thesis using False w1 free by (auto simp: Let_def bindc_def ret_def)
    next
      case nonempty: False
      then have "scan_source_ips h b name rules (n # ns) w = scan_source_ips h b name rules ns w1"
        using False w1(1) by (simp add: Let_def bindc_def)
      then show ?thesis using Cons [of w1] nonempty free unfolding same w1(3,4) by simp
    qed
  qed
qed

lemma allocate_runs:
  assumes laws: "query_laws h assigned listing" and b: "b \<in> set IP_CANDIDATES" and i: "i \<in> set IPTABLES_CANDIDATES"
  defines "rules w \<equiv> lines (from_utf8_lossy (listing w i))"
  shows "\<exists>w'. assigned w' = assigned w \<and> listing w' = listing w \<and>
    allocate_rootless_podman_source_ip h i b name w =
      Some (case reused_source output_rule_source_ip (\<lambda>_. True) (own_marker name) (rules w) of
              Some ip \<Rightarrow> Inr ip
            | None \<Rightarrow>
                (case find (\<lambda>n. source_free assigned w (rules w) (rootless_podman_source_ip name (of_nat n))) [0..<131069] of
                   Some n \<Rightarrow> Inr (rootless_podman_source_ip name (of_nat n))
                 | None \<Rightarrow> Inl (Msg ''all managed rootless Podman source addresses are in use'')), w')"
proof -
  obtain res w1 where w1: "run_command_checked h i [''-S'', ''OUTPUT''] w = Some (Inr res, w1)"
    "out_stdout res = listing w i" "assigned w1 = assigned w" "listing w1 = listing w"
    using listing_runs [OF laws, of i w] i by blast
  have same: "source_free assigned w1 = source_free assigned w" by (simp add: source_free_def w1(3) fun_eq_iff)
  have step: "allocate_rootless_podman_source_ip h i b name w =
    (case reused_source output_rule_source_ip (\<lambda>_. True) (own_marker name) (rules w) of
       Some ip \<Rightarrow> ret ip | None \<Rightarrow> scan_source_ips h b name (rules w) [0..<131069]) w1"
    unfolding allocate_rootless_podman_source_ip_def bindc_def w1(1) rules_def
    by (simp only: Let_def w1(2) option.case prod.case sum.case)
  show ?thesis
  proof (cases "reused_source output_rule_source_ip (\<lambda>_. True) (own_marker name) (rules w)")
    case None
    obtain w2 where "assigned w2 = assigned w1" "listing w2 = listing w1"
      "scan_source_ips h b name (rules w) [0..<131069] w1 =
      Some (case find (\<lambda>n. source_free assigned w (rules w) (rootless_podman_source_ip name (of_nat n))) [0..<131069] of
              Some n \<Rightarrow> Inr (rootless_podman_source_ip name (of_nat n))
            | None \<Rightarrow> Inl (Msg ''all managed rootless Podman source addresses are in use''), w2)"
      using scan_source_ips_find [OF laws b, of w1 name "rules w" "[0..<131069]"] unfolding same by blast
    then show ?thesis unfolding step None option.case using w1(3,4) by metis
  next
    case (Some ip)
    then show ?thesis unfolding step using w1(3,4) by (auto simp: ret_def)
  qed
qed

subsection \<open>IPv6\<close>

text \<open>\<open>prefix_text w interface\<close> is the text of \<^verbatim>\<open>ip -o -6 addr show\<close> for the global addresses of an interface.\<close>

definition prefix_law ::
  "'w host \<Rightarrow> ('w \<Rightarrow> string \<Rightarrow> string) \<Rightarrow> ('w \<Rightarrow> string set) \<Rightarrow> ('w \<Rightarrow> string \<Rightarrow> string) \<Rightarrow> bool" where
  "prefix_law h prefix_text assigned listing \<longleftrightarrow>
     (\<forall>b interface w. b \<in> set IP_CANDIDATES \<longrightarrow>
        (\<exists>res w'. host_output h (helper_command b
             [''-o'', ''-6'', ''addr'', ''show'', ''dev'', interface, ''scope'', ''global'']) w = (Inr res, w') \<and>
           status_success res \<and> out_stdout res = prefix_text w interface \<and>
           assigned w' = assigned w \<and> listing w' = listing w))"

lemma prefix_runs:
  assumes "prefix_law h prefix_text assigned listing" and "b \<in> set IP_CANDIDATES"
  obtains w' where "rootless_podman_ipv6_prefix h b interface w =
      Some (Inr (first_prefix (lines (from_utf8_lossy (prefix_text w interface)))), w')"
    and "assigned w' = assigned w" and "listing w' = listing w"
proof -
  obtain res w' where "host_output h (helper_command b
      [''-o'', ''-6'', ''addr'', ''show'', ''dev'', interface, ''scope'', ''global'']) w = (Inr res, w')"
    "status_success res" and q: "out_stdout res = prefix_text w interface" "assigned w' = assigned w" "listing w' = listing w"
    using assms unfolding prefix_law_def by blast
  then have "run_command_checked h b [''-o'', ''-6'', ''addr'', ''show'', ''dev'', interface, ''scope'', ''global''] w = Some (Inr res, w')"
    by (intro run_command_checked_ok)
  then have "rootless_podman_ipv6_prefix h b interface w =
      Some (Inr (first_prefix (lines (from_utf8_lossy (prefix_text w interface)))), w')"
    by (simp add: rootless_podman_ipv6_prefix_def bindc_def ret_def q(1))
  then show thesis using q(2,3) by (rule that)
qed

lemma scan_source_ipv6s_find:
  assumes laws: "query_laws h assigned listing" and b: "b \<in> set IP_CANDIDATES"
  shows "\<exists>w'. assigned w' = assigned w \<and> listing w' = listing w \<and>
    scan_source_ipv6s h b pfx name ns w =
      Some (case find (\<lambda>n. show_ipv6 (rootless_podman_source_ipv6 pfx name (of_nat n)) @ ''/128'' \<notin> assigned w) ns of
              Some n \<Rightarrow> Inr (Some (rootless_podman_source_ipv6 pfx name (of_nat n)))
            | None \<Rightarrow> Inl (Msg ''all managed rootless Podman IPv6 source addresses are in use''), w')"
proof (induction ns arbitrary: w)
  case Nil
  then show ?case by (auto simp: fail_def)
next
  case (Cons n ns)
  let ?cidr = "show_ipv6 (rootless_podman_source_ipv6 pfx name (of_nat n)) @ ''/128''"
  obtain res w1 where w1: "show_to h b ''-6'' ?cidr w = Some (Inr res, w1)"
    "out_stdout res = [] \<longleftrightarrow> ?cidr \<notin> assigned w" "assigned w1 = assigned w" "listing w1 = listing w"
    using show_to_runs [OF laws b] by blast
  show ?case
  proof (cases "out_stdout res = []")
    case True
    then show ?thesis using w1 by (auto simp: Let_def bindc_def ret_def)
  next
    case False
    then have "scan_source_ipv6s h b pfx name (n # ns) w = scan_source_ipv6s h b pfx name ns w1"
      using w1(1) by (simp add: Let_def bindc_def)
    then show ?thesis using Cons [of w1] False w1(2) unfolding w1(3,4) by simp
  qed
qed

lemma allocate_ipv6_runs:
  fixes h :: "'w host" and w :: 'w and interface :: string
  assumes laws: "query_laws h assigned listing" "prefix_law h prefix_text assigned listing"
    and b: "b \<in> set IP_CANDIDATES" and i: "i \<in> set IP6TABLES_CANDIDATES"
  defines "rules \<equiv> lines (from_utf8_lossy (listing w i))"
    and "found \<equiv> first_prefix (lines (from_utf8_lossy (prefix_text w interface)))"
  shows "\<exists>w'. assigned w' = assigned w \<and> listing w' = listing w \<and>
    allocate_rootless_podman_source_ipv6 h i b interface name w =
      Some (case found of
              None \<Rightarrow> Inr None
            | Some pfx \<Rightarrow>
                (case reused_source output_rule_source_ipv6 (\<lambda>a. same_prefix a pfx) (own_marker name) rules of
                   Some a \<Rightarrow> Inr (Some a)
                 | None \<Rightarrow>
                     (case find (\<lambda>n. show_ipv6 (rootless_podman_source_ipv6 pfx name (of_nat n)) @ ''/128'' \<notin> assigned w) [0..<50] of
                        Some n \<Rightarrow> Inr (Some (rootless_podman_source_ipv6 pfx name (of_nat n)))
                      | None \<Rightarrow> Inl (Msg ''all managed rootless Podman IPv6 source addresses are in use''))), w')"
proof -
  obtain w1 where w1: "rootless_podman_ipv6_prefix h b interface w = Some (Inr found, w1)"
    "assigned w1 = assigned w" "listing w1 = listing w"
    unfolding found_def using prefix_runs [OF laws(2) b] by blast
  show ?thesis
  proof (cases found)
    case None
    then show ?thesis using w1
      by (auto simp: allocate_rootless_podman_source_ipv6_def bindc_def ret_def)
  next
    case (Some pfx)
    let ?reused = "reused_source output_rule_source_ipv6 (\<lambda>a. same_prefix a pfx) (own_marker name) rules"
    obtain res w2 where w2: "run_command_checked h i [''-S'', ''OUTPUT''] w1 = Some (Inr res, w2)"
      "out_stdout res = listing w1 i" "assigned w2 = assigned w1" "listing w2 = listing w1"
      using listing_runs [OF laws(1), of i w1] i by blast
    have step: "allocate_rootless_podman_source_ipv6 h i b interface name w =
        (case ?reused of Some a \<Rightarrow> ret (Some a) | None \<Rightarrow> scan_source_ipv6s h b pfx name [0..<50]) w2"
      unfolding allocate_rootless_podman_source_ipv6_def bindc_def w1(1) Some rules_def
      by (simp only: Let_def w2(1,2) w1(3) option.case prod.case sum.case)
    obtain w3 where w3: "assigned w3 = assigned w2" "listing w3 = listing w2"
      "scan_source_ipv6s h b pfx name [0..<50] w2 =
        Some (case find (\<lambda>n. show_ipv6 (rootless_podman_source_ipv6 pfx name (of_nat n)) @ ''/128'' \<notin> assigned w) [0..<50] of
              Some n \<Rightarrow> Inr (Some (rootless_podman_source_ipv6 pfx name (of_nat n)))
            | None \<Rightarrow> Inl (Msg ''all managed rootless Podman IPv6 source addresses are in use''), w3)"
      using scan_source_ipv6s_find [OF laws(1) b, of w2 pfx name "[0..<50]"] unfolding w2(3) w1(2) by blast
    show ?thesis
    proof (cases ?reused)
      case None
      show ?thesis unfolding step None Some option.case w3(3)
        by (rule exI [of _ w3]) (simp only: w3(1,2) w2(3,4) w1(2,3))
    next
      case (Some a)
      then show ?thesis unfolding step \<open>found = Some pfx\<close> using w1 w2 by (auto simp: ret_def)
    qed
  qed
qed

section \<open>Reading back one's own rule\<close>

text \<open>The hook of a policy, as the listing prints it.\<close>

definition hook_line :: "string \<Rightarrow> string \<Rightarrow> string" where
  "hook_line name cidr = join '' ''
     [''-A'', ''OUTPUT'', ''-s'', cidr, ''-m'', ''comment'', ''--comment'', own_marker name, ''-j'', ''DOCKERWALL-OUTPUT'']"

lemma hook_line_fields:
  assumes "token name" and "token cidr"
  shows "split_ascii_whitespace (hook_line name cidr) =
     [''-A'', ''OUTPUT'', ''-s'', cidr, ''-m'', ''comment'', ''--comment'', own_marker name, ''-j'', ''DOCKERWALL-OUTPUT'']"
proof -
  have "token ''-A''" "token ''OUTPUT''" "token ''-s''" "token ''-m''" "token ''comment''" "token ''--comment''"
    "token ''-j''" "token ''DOCKERWALL-OUTPUT''" by code_simp+
  moreover have "token (own_marker name)"
    using assms(1) unfolding own_marker_def token_def by (simp add: is_ascii_whitespace_def)
  ultimately show ?thesis unfolding hook_line_def using assms by (intro split_ascii_whitespace_join) auto
qed

lemma hook_line_marker: "contains (hook_line name cidr) (own_marker name)"
proof -
  have "hook_line name cidr = (''-A OUTPUT -s '' @ cidr @ '' -m comment --comment '') @ own_marker name @ '' -j DOCKERWALL-OUTPUT''"
    by (simp add: hook_line_def)
  then show ?thesis unfolding contains_def by (metis sublist_appendI)
qed

lemma token_cidr: "token (show_ip a) \<Longrightarrow> token (show_ip a @ ''/32'')" "token (show_ip a) \<Longrightarrow> token (show_ip a @ ''/128'')"
  by (erule token_append, code_simp)+

lemma output_rule_source_ip_hook: "token name \<Longrightarrow> output_rule_source_ip (hook_line name (show_ipv4 ip @ ''/32'')) = Some ip"
  using hook_line_fields [of name "show_ipv4 ip @ ''/32''"] token_cidr(1) [OF token_show_ip [of "V4 ip"]]
  by (simp add: output_rule_source_ip_def parse_ipv4_show)

lemma output_rule_source_ipv6_hook: "token name \<Longrightarrow> output_rule_source_ipv6 (hook_line name (show_ipv6 ip @ ''/128'')) = Some ip"
  using hook_line_fields [of name "show_ipv6 ip @ ''/128''"] token_cidr(2) [OF token_show_ip [of "V6 ip"]]
  by (simp add: output_rule_source_ipv6_def parse_ipv6_show)

lemma reused_source_skip:
  "(\<And>l. l \<in> set pre \<Longrightarrow> \<not> contains l marker) \<Longrightarrow>
     reused_source source_of keep marker (pre @ rest) = reused_source source_of keep marker rest"
  by (induction pre) auto

section \<open>Properties\<close>

text \<open>
  The attempts of the IPv4 allocator visit every managed address once: for each name the map from the
  131069 attempts to addresses is a bijection onto the addresses from 198.18.0.2 to 198.19.255.254,
  so it never hits the DNS address 198.18.0.1, the network address or the broadcast address.
\<close>

theorem podman_source_ip_pool:
  "bij_betw (\<lambda>n. rootless_podman_source_ip name (of_nat n)) {..<131069} managed_ipv4"
  unfolding bij_betw_def
proof
  show "inj_on (\<lambda>n. rootless_podman_source_ip name (of_nat n)) {..<131069}" by (rule pool4.inj_candidates)
  show "(\<lambda>n. rootless_podman_source_ip name (of_nat n)) ` {..<131069} = managed_ipv4"
  proof
    show "(\<lambda>n. rootless_podman_source_ip name (of_nat n)) ` {..<131069} \<subseteq> managed_ipv4" using pool4.mem by blast
    show "managed_ipv4 \<subseteq> (\<lambda>n. rootless_podman_source_ip name (of_nat n)) ` {..<131069}"
    proof
      fix ip assume "ip \<in> managed_ipv4"
      then obtain n where "n < 131069" "rootless_podman_source_ip name (of_nat n) = ip"
        using source_ip_surj [of ip name] by (auto simp: managed_ipv4_iff)
      then show "ip \<in> (\<lambda>n. rootless_podman_source_ip name (of_nat n)) ` {..<131069}" by blast
    qed
  qed
qed

text \<open>
  C30: A new policy gets a free IPv4 source address as long as there is one. With tools that report the
  rules and the addresses of the host, and no rule of this policy yet, the allocator returns; the
  address it returns is a managed one that no rule of \<^verbatim>\<open>OUTPUT\<close> mentions and no interface has, and it
  fails only if every managed address is taken.
\<close>

theorem allocate_source_ip_fresh:
  assumes "query_laws h assigned listing" and "b \<in> set IP_CANDIDATES" and "i \<in> set IPTABLES_CANDIDATES"
    and "\<forall>line \<in> set (lines (from_utf8_lossy (listing w i))). \<not> contains line (own_marker name)"
  shows "\<exists>r w'. allocate_rootless_podman_source_ip h i b name w = Some (r, w') \<and> assigned w' = assigned w \<and>
     (case r of
        Inr ip \<Rightarrow> ip \<in> managed_ipv4 \<and> source_free assigned w (lines (from_utf8_lossy (listing w i))) ip
      | Inl _ \<Rightarrow> \<forall>ip \<in> managed_ipv4. \<not> source_free assigned w (lines (from_utf8_lossy (listing w i))) ip)"
proof -
  let ?rules = "lines (from_utf8_lossy (listing w i))"
  let ?free = "\<lambda>n. source_free assigned w ?rules (rootless_podman_source_ip name (of_nat n))"
  have none: "reused_source output_rule_source_ip (\<lambda>_. True) (own_marker name) ?rules = None"
    using reused_source_skip [of ?rules "own_marker name" _ _ "[]"] assms(4) by fastforce
  obtain w' where a: "assigned w' = assigned w" and run: "allocate_rootless_podman_source_ip h i b name w =
      Some (case find ?free [0..<131069] of
              Some n \<Rightarrow> Inr (rootless_podman_source_ip name (of_nat n))
            | None \<Rightarrow> Inl (Msg ''all managed rootless Podman source addresses are in use''), w')"
    using allocate_runs [OF assms(1-3), of w name] unfolding none option.case by blast
  show ?thesis
  proof (cases "find ?free [0..<131069]")
    case None
    then have "\<not> ?free n" if "n < 131069" for n using that by (simp add: find_None_iff)
    then have "\<not> source_free assigned w ?rules ip" if "ip \<in> managed_ipv4" for ip
      using that source_ip_surj [of ip name] by (auto simp: managed_ipv4_iff)
    then show ?thesis using run a unfolding None by auto
  next
    case (Some n)
    then have "n \<in> set [0..<131069] \<and> ?free n" by (metis (no_types, lifting) find_Some_iff nth_mem)
    then show ?thesis using run a pool4.mem [of n name] unfolding Some by auto
  qed
qed

text \<open>A host with an address table and rule listings.\<close>

record address_world =
  aw_assigned :: "string list"
  aw_listing :: string
  aw_prefix :: string

definition alloc_host :: "address_world host" where
  "alloc_host =
     \<lparr>host_output = (\<lambda>c w.
        (case cmd_args c of
           [a, f, b', s, t, cidr] \<Rightarrow>
             (Inr \<lparr>status_success = True, out_stdout = (if cidr \<in> set (aw_assigned w) then cidr else []), out_stderr = []\<rparr>, w)
         | [a, ch] \<Rightarrow> (Inr \<lparr>status_success = True, out_stdout = aw_listing w, out_stderr = []\<rparr>, w)
         | _ \<Rightarrow> (Inr \<lparr>status_success = True, out_stdout = aw_prefix w, out_stderr = []\<rparr>, w))),
      host_output_stdin = (\<lambda>_ _ w. (Inl (IoError ''no such process''), w)),
      host_spawn = (\<lambda>_ w. (Inl (IoError ''no such process''), w)),
      host_metadata = (\<lambda>_ _. None),
      host_read_file = (\<lambda>_ _. Inl (IoError ''no such file'')),
      host_current_exe = (\<lambda>_. Inl (IoError ''no such file'')),
      host_exchange = (\<lambda>_ _ w. (Inl (IoError ''refused''), w)),
      host_sleep = (\<lambda>_ w. w),
      host_println = (\<lambda>_ w. w),
      host_eprintln = (\<lambda>_ w. w)\<rparr>"

definition aw_cidrs :: "address_world \<Rightarrow> string set" where
  "aw_cidrs w = set (aw_assigned w) - {[]}"

definition aw_rules :: "address_world \<Rightarrow> string \<Rightarrow> string" where
  "aw_rules w b = aw_listing w"

definition aw_prefixes :: "address_world \<Rightarrow> string \<Rightarrow> string" where
  "aw_prefixes w interface = aw_prefix w"

lemma alloc_host_laws:
  "query_laws alloc_host aw_cidrs aw_rules"
  "prefix_law alloc_host aw_prefixes aw_cidrs aw_rules"
  by (auto simp: query_laws_def prefix_law_def alloc_host_def helper_command_def aw_cidrs_def aw_rules_def aw_prefixes_def)

lemma sample_ip_binaries: "''/usr/sbin/ip'' \<in> set IP_CANDIDATES" "''/usr/sbin/iptables'' \<in> set IPTABLES_CANDIDATES"
  "''/usr/sbin/ip6tables'' \<in> set IP6TABLES_CANDIDATES"
  by (simp_all add: IP_CANDIDATES_def IPTABLES_CANDIDATES_def IP6TABLES_CANDIDATES_def)

theorem allocate_source_ip_fresh_witness:
  "\<exists>r w'. allocate_rootless_podman_source_ip alloc_host ''/usr/sbin/iptables'' ''/usr/sbin/ip'' ''box''
      \<lparr>aw_assigned = [], aw_listing = ''-P OUTPUT ACCEPT'', aw_prefix = []\<rparr> = Some (Inr r, w') \<and> r \<in> managed_ipv4"
proof -
  let ?w = "\<lparr>aw_assigned = [], aw_listing = ''-P OUTPUT ACCEPT'', aw_prefix = []\<rparr>"
  let ?rules = "lines (from_utf8_lossy (aw_rules ?w ''/usr/sbin/iptables''))"
  have l: "?rules = [''-P OUTPUT ACCEPT'']" by code_simp
  have nomark: "\<forall>line \<in> set ?rules. \<not> contains line (own_marker ''box'')"
    unfolding l by code_simp
  have "\<not> contains ''-P OUTPUT ACCEPT'' (show_ipv4 (ipv4_new 198 18 0 9) @ ''/32'')" by code_simp
  then have free: "source_free aw_cidrs ?w ?rules (ipv4_new 198 18 0 9)"
    unfolding l source_free_def by (simp add: aw_cidrs_def)
  have managed: "ipv4_new 198 18 0 9 \<in> managed_ipv4" unfolding managed_ipv4_iff by code_simp
  obtain r w' where run: "allocate_rootless_podman_source_ip alloc_host ''/usr/sbin/iptables'' ''/usr/sbin/ip'' ''box'' ?w = Some (r, w')"
    and r: "case r of Inr ip \<Rightarrow> ip \<in> managed_ipv4 \<and> source_free aw_cidrs ?w ?rules ip
      | Inl _ \<Rightarrow> \<forall>ip \<in> managed_ipv4. \<not> source_free aw_cidrs ?w ?rules ip"
    using allocate_source_ip_fresh [where h = alloc_host and assigned = aw_cidrs and listing = aw_rules and w = ?w,
        OF alloc_host_laws(1) sample_ip_binaries(1,2) nomark] by blast
  show ?thesis
  proof (cases r)
    case (Inl e)
    then have "\<forall>ip \<in> managed_ipv4. \<not> source_free aw_cidrs ?w ?rules ip" using r by (simp only: sum.case)
    then show ?thesis using free managed by blast
  next
    case (Inr ip)
    then have "ip \<in> managed_ipv4" using r by (simp only: sum.case)
    then show ?thesis using run Inr by blast
  qed
qed

text \<open>
  C31: Preparing a policy again keeps its IPv4 source address: when the listing of \<^verbatim>\<open>OUTPUT\<close> contains the
  hook of the policy, as the tool prints it, and no earlier line carries the marker, the allocator
  returns the address of the hook, for every address and without looking for a new one.
\<close>

theorem allocate_source_ip_reuses:
  assumes "query_laws h assigned listing" and "b \<in> set IP_CANDIDATES" and "i \<in> set IPTABLES_CANDIDATES"
    and "token name"
    and "lines (from_utf8_lossy (listing w i)) = pre @ hook_line name (show_ipv4 ip @ ''/32'') # post"
    and "\<forall>line \<in> set pre. \<not> contains line (own_marker name)"
  shows "\<exists>w'. allocate_rootless_podman_source_ip h i b name w = Some (Inr ip, w')"
proof -
  have "reused_source output_rule_source_ip (\<lambda>_. True) (own_marker name)
      (pre @ hook_line name (show_ipv4 ip @ ''/32'') # post) = Some ip"
    using assms(4,6) by (subst reused_source_skip) (auto simp: hook_line_marker output_rule_source_ip_hook)
  then show ?thesis using allocate_runs [OF assms(1-3), of w name] unfolding assms(5) by auto
qed

theorem allocate_source_ip_reuses_witness:
  "\<exists>w'. allocate_rootless_podman_source_ip alloc_host ''/usr/sbin/iptables'' ''/usr/sbin/ip'' ''box''
      \<lparr>aw_assigned = [''198.18.5.6/32''],
       aw_listing = ''-P OUTPUT ACCEPT'' @ [CHR 0x0A] @ hook_line ''box'' ''198.18.5.6/32'' @ [CHR 0x0A], aw_prefix = []\<rparr> =
    Some (Inr (ipv4_new 198 18 5 6), w')"
proof -
  let ?w = "\<lparr>aw_assigned = [''198.18.5.6/32''],
       aw_listing = ''-P OUTPUT ACCEPT'' @ [CHR 0x0A] @ hook_line ''box'' ''198.18.5.6/32'' @ [CHR 0x0A], aw_prefix = []\<rparr>"
  have "lines (from_utf8_lossy (aw_rules ?w ''/usr/sbin/iptables'')) =
      [''-P OUTPUT ACCEPT''] @ hook_line ''box'' (show_ipv4 (ipv4_new 198 18 5 6) @ ''/32'') # []" and tok: "token ''box''"
    and nomark: "\<forall>line \<in> set [''-P OUTPUT ACCEPT'']. \<not> contains line (own_marker ''box'')"
    by code_simp+
  from allocate_source_ip_reuses [where h = alloc_host and assigned = aw_cidrs and listing = aw_rules and w = ?w,
      OF alloc_host_laws(1) sample_ip_binaries(1,2) tok this(1) nomark]
  show ?thesis .
qed



end
