(* ===== verification/Control.thy ===== *)
theory Control
  imports Stats Host
begin

text \<open>
  The control socket (\<^verbatim>\<open>src/src/control.rs\<close>) and the client commands that use it
  (\<^verbatim>\<open>src/src/manage.rs\<close>). The server side is a function on the daemon's state for one connection;
  the client side is a computation on the host.
\<close>

section \<open>Model\<close>

definition tab :: char where
  "tab = CHR 0x09"

definition newline :: char where
  "newline = CHR 0x0A"

record daemon =
  d_state :: state_map
  d_stats :: stats_state

definition init_daemon :: daemon where
  "init_daemon = \<lparr>d_state = [], d_stats = init_stats\<rparr>"

text \<open>
  The read of the command line either runs into the timeout of five seconds, or leaves some text in
  the line buffer; the handler does not look at the inner result of the read.
\<close>

datatype line_read = TimedOut | LineBuffer string

text \<open>
  A connection ends with a result, the bytes the handler wrote and the new state. The write of the
  answer may fail, after the state has changed.
\<close>

type_synonym connection = "unit result \<times> string \<times> daemon"

definition write_all :: "error option \<Rightarrow> string \<Rightarrow> daemon \<Rightarrow> connection" where
  "write_all write_error answer d =
     (case write_error of None \<Rightarrow> Inr () | Some e \<Rightarrow> Inl e, answer, d)"

definition parse_domains :: "string \<Rightarrow> string list" where
  "parse_domains raw = filter (\<lambda>d. d \<noteq> []) (map trim (split CHR '','' raw))"

definition handle_create ::
  "error option \<Rightarrow> string \<Rightarrow> daemon \<Rightarrow> connection" where
  "handle_create write_error rest d =
     (case splitn 3 tab rest of
        [] \<Rightarrow> (Inl (Msg ''missing ipset name''), [], d)
      | [_] \<Rightarrow> (Inl (Msg ''missing subnet''), [], d)
      | [_, _] \<Rightarrow> (Inl (Msg ''missing domains''), [], d)
      | raw_name # raw_subnet # raw_domains # _ \<Rightarrow>
          (let name = trim raw_name; subnet = trim raw_subnet
           in if name = [] then write_all write_error (''ERR'' @ [tab] @ ''missing ipset name'' @ [newline]) d
              else
                (let d1 = (if subnet \<noteq> []
                           then d\<lparr>d_stats := register_network name subnet (d_stats d)\<rparr> else d);
                     entry = \<lparr>allowed_domain_patterns = parse_domains raw_domains, ips = []\<rparr>;
                     d2 = d1\<lparr>d_state := hm_insert name entry (d_state d1)\<rparr>
                 in write_all write_error (''OK'' @ [tab] @ ''created'' @ [newline]) d2)))"

definition handle_remove :: "error option \<Rightarrow> string \<Rightarrow> daemon \<Rightarrow> connection" where
  "handle_remove write_error rest d =
     (let name = trim rest
      in if name = [] then write_all write_error (''ERR'' @ [tab] @ ''missing ipset name'' @ [newline]) d
         else write_all write_error (''OK'' @ [tab] @ ''removed'' @ [newline])
                (d\<lparr>d_state := hm_remove name (d_state d)\<rparr>))"

definition handle_control_connection ::
  "(stats_map \<Rightarrow> stats_map) \<Rightarrow> int \<Rightarrow> error option \<Rightarrow> line_read \<Rightarrow> u16 \<Rightarrow> daemon \<Rightarrow> connection" where
  "handle_control_connection order now write_error line dns_port d =
     (case line of
        TimedOut \<Rightarrow> (Inl (Msg ''control connection timed out waiting for command''), [], d)
      | LineBuffer buf \<Rightarrow>
          (let command = trim_end_matches newline buf
           in if command = ''STATS''
              then write_all write_error (get_stats_report order now (d_stats d)) d
              else if command = ''INFO''
              then write_all write_error (''OK'' @ [tab] @ show_nat (unat dns_port) @ [newline]) d
              else (case strip_prefix command (''CREATE'' @ [tab]) of
                      Some rest \<Rightarrow> handle_create write_error rest d
                    | None \<Rightarrow>
                        (case strip_prefix command (''REMOVE'' @ [tab]) of
                           Some rest \<Rightarrow> handle_remove write_error rest d
                         | None \<Rightarrow>
                             write_all write_error (''ERR'' @ [tab] @ ''unknown command'' @ [newline]) d))))"

subsection \<open>Clients\<close>

definition control_response :: "string \<Rightarrow> unit result" where
  "control_response response =
     (if starts_with response (''OK'' @ [tab]) then Inr ()
      else (case strip_prefix (trim_end response) (''ERR'' @ [tab]) of
              Some message \<Rightarrow> Inl (Msg message)
            | None \<Rightarrow> Inl (Msg ''invalid daemon response'')))"

definition send_control_command :: "'w host \<Rightarrow> string \<Rightarrow> ('w, unit) cmd" where
  "send_control_command h payload =
     bindc (sys_exchange h None payload) (\<lambda>response. lift_result (control_response response))"

definition info_response :: "string \<Rightarrow> u16 result" where
  "info_response response =
     (case strip_prefix response (''OK'' @ [tab]) of
        Some rest \<Rightarrow> ok_or ParseIntError (parse_u16 (trim_end rest))
      | None \<Rightarrow>
          (case strip_prefix (trim_end response) (''ERR'' @ [tab]) of
             Some message \<Rightarrow> Inl (Msg message)
           | None \<Rightarrow> Inl (Msg ''invalid daemon response'')))"

definition get_dns_port :: "'w host \<Rightarrow> ('w, u16) cmd" where
  "get_dns_port h =
     bindc (sys_exchange h (Some 1) (''INFO'' @ [newline])) (\<lambda>response. lift_result (info_response response))"

definition create_payload :: "string \<Rightarrow> string option \<Rightarrow> string list \<Rightarrow> string" where
  "create_payload name subnet allowed_domains =
     ''CREATE'' @ [tab] @ name @ [tab] @ (case subnet of Some sn \<Rightarrow> sn | None \<Rightarrow> []) @ [tab] @
       join '','' allowed_domains @ [newline]"

definition send_create :: "'w host \<Rightarrow> string \<Rightarrow> string option \<Rightarrow> string list \<Rightarrow> ('w, unit) cmd" where
  "send_create h name subnet allowed_domains =
     bindc (send_control_command h (create_payload name subnet allowed_domains)) (\<lambda>_.
       sys_println h (''requested creation of ipset '' @ [CHR 0x27] @ name @ [CHR 0x27]))"

definition remove_payload :: "string \<Rightarrow> string" where
  "remove_payload name = ''REMOVE'' @ [tab] @ name @ [newline]"

definition send_remove :: "'w host \<Rightarrow> string \<Rightarrow> ('w, unit) cmd" where
  "send_remove h name =
     bindc (send_control_command h (remove_payload name)) (\<lambda>_.
       sys_println h (''requested removal of ipset '' @ [CHR 0x27] @ name @ [CHR 0x27]))"

section \<open>Laws\<close>

lemma special_chars [simp]:
  "tab \<noteq> newline" "newline \<noteq> tab"
  "tab \<noteq> CHR '',''" "newline \<noteq> CHR '',''" "CHR '','' \<noteq> tab" "CHR '','' \<noteq> newline"
  by (simp_all add: tab_def newline_def)

text \<open>A field of the protocol: neither tab nor newline, and no white space at its ends.\<close>

definition field_ok :: "string \<Rightarrow> bool" where
  "field_ok s \<longleftrightarrow> tab \<notin> set s \<and> newline \<notin> set s \<and> trim s = s"

definition domain_ok :: "string \<Rightarrow> bool" where
  "domain_ok d \<longleftrightarrow> d \<noteq> [] \<and> CHR '','' \<notin> set d \<and> newline \<notin> set d \<and> trim d = d"

lemma parse_domains_join:
  assumes "\<And>d. d \<in> set ds \<Longrightarrow> domain_ok d"
  shows "parse_domains (join '','' ds) = ds"
proof (cases "ds = []")
  case True
  then show ?thesis by (simp add: parse_domains_def)
next
  case False
  have "split CHR '','' (join '','' ds) = ds"
    using False assms by (intro split_join) (auto simp: domain_ok_def)
  moreover have "map trim ds = ds" and "filter (\<lambda>d. d \<noteq> []) ds = ds"
    using assms by (auto simp: domain_ok_def map_idI filter_id_conv)
  ultimately show ?thesis by (simp add: parse_domains_def)
qed

lemma newline_not_in_join:
  assumes "\<And>d. d \<in> set ds \<Longrightarrow> domain_ok d"
  shows "newline \<notin> set (join '','' ds)"
  using set_join [of "'',''" ds] assms by (fastforce simp: domain_ok_def)

lemma read_line_payload: "newline \<notin> set s \<Longrightarrow> read_line (s @ [newline]) = s @ [newline]"
  using read_line_append_nl [of s "[]"] by (simp add: newline_def)

lemma trim_newline: "newline \<notin> set s \<Longrightarrow> trim_end_matches newline (s @ [newline]) = s"
  unfolding trim_end_matches_snoc by (rule trim_end_matches_id) (auto dest: last_in_set)

lemma line_of_payload:
  "newline \<notin> set s \<Longrightarrow> trim_end_matches newline (read_line (s @ [newline])) = s"
  by (metis read_line_payload trim_newline)

text \<open>The request a well-formed client command leads to, as the server reads it.\<close>

lemma handle_create_fields:
  assumes "field_ok name" and "name \<noteq> []" and "field_ok subnet"
  shows "handle_create we (name @ [tab] @ subnet @ [tab] @ raw) d =
    (let d1 = (if subnet \<noteq> [] then d\<lparr>d_stats := register_network name subnet (d_stats d)\<rparr> else d)
     in write_all we (''OK'' @ [tab] @ ''created'' @ [newline])
          (d1\<lparr>d_state := hm_insert name \<lparr>allowed_domain_patterns = parse_domains raw, ips = []\<rparr> (d_state d1)\<rparr>))"
proof -
  have "splitn 3 tab (name @ [tab] @ subnet @ [tab] @ raw) = [name, subnet, raw]"
    using assms splitn_3_append [of tab name subnet raw] by (simp add: field_ok_def)
  with assms show ?thesis by (simp add: handle_create_def field_ok_def Let_def)
qed

lemma handle_create_payload:
  assumes name: "field_ok name" "name \<noteq> []"
    and subnet: "field_ok (case subnet of Some sn \<Rightarrow> sn | None \<Rightarrow> [])"
    and domains: "\<And>d. d \<in> set ds \<Longrightarrow> domain_ok d"
  shows "handle_control_connection order now we
           (LineBuffer (read_line (create_payload name subnet ds))) port d =
    (let sn = (case subnet of Some sn \<Rightarrow> sn | None \<Rightarrow> []);
         d1 = (if sn \<noteq> [] then d\<lparr>d_stats := register_network name sn (d_stats d)\<rparr> else d)
     in write_all we (''OK'' @ [tab] @ ''created'' @ [newline])
          (d1\<lparr>d_state := hm_insert name \<lparr>allowed_domain_patterns = ds, ips = []\<rparr> (d_state d1)\<rparr>))"
proof -
  let ?sn = "case subnet of Some sn \<Rightarrow> sn | None \<Rightarrow> []"
  let ?body = "''CREATE'' @ [tab] @ name @ [tab] @ ?sn @ [tab] @ join '','' ds"
  have "newline \<notin> set ?body"
    using name subnet newline_not_in_join [OF domains] by (auto simp: field_ok_def newline_def tab_def)
  then have "trim_end_matches newline (read_line (?body @ [newline])) = ?body"
    by (rule line_of_payload)
  moreover have "create_payload name subnet ds = ?body @ [newline]"
    by (simp add: create_payload_def)
  moreover have "strip_prefix ?body (''CREATE'' @ [tab]) = Some (name @ [tab] @ ?sn @ [tab] @ join '','' ds)"
    by (simp add: strip_prefix_Some_iff)
  ultimately show ?thesis
    using handle_create_fields [OF name subnet, of we "join '','' ds" d] parse_domains_join [OF domains]
    by (simp add: handle_control_connection_def Let_def)
qed

lemma handle_remove_payload:
  assumes "field_ok name" and "name \<noteq> []"
  shows "handle_control_connection order now we (LineBuffer (read_line (remove_payload name))) port d =
     write_all we (''OK'' @ [tab] @ ''removed'' @ [newline]) (d\<lparr>d_state := hm_remove name (d_state d)\<rparr>)"
proof -
  let ?body = "''REMOVE'' @ [tab] @ name"
  have "newline \<notin> set ?body" using assms by (auto simp: field_ok_def newline_def tab_def)
  then have "trim_end_matches newline (read_line (?body @ [newline])) = ?body"
    by (rule line_of_payload)
  moreover have "remove_payload name = ?body @ [newline]" by (simp add: remove_payload_def)
  ultimately show ?thesis
    using assms by (simp add: handle_control_connection_def handle_remove_def strip_prefix_def field_ok_def Let_def)
qed

lemma control_response_OK: "control_response (''OK'' @ [tab] @ s) = Inr ()"
  by (simp add: control_response_def starts_with_def)

lemma ws_len_rev_digit: "ascii_digit c \<Longrightarrow> ws_len_rev (c # s) = 0"
  by (auto simp: ws_len_rev_def ws1_def ws2_def ws3_def ascii_digit_def split: list.splits)

lemma trim_end_show_nat: "trim_end (show_nat n @ [newline]) = show_nat n"
proof -
  obtain c cs where s: "rev (show_nat n) = c # cs" by (cases "rev (show_nat n)") auto
  then have "c \<in> set (show_nat n)" by (metis list.set_intros(1) set_rev)
  then have "ascii_digit c" using show_nat_digits by blast
  then have "ws_len_rev (rev (show_nat n)) = 0" by (simp add: s ws_len_rev_digit)
  then show ?thesis by (simp add: newline_def trim_end_snoc_nl)
qed

lemma info_response_port:
  "info_response (''OK'' @ [tab] @ show_nat (unat port) @ [newline]) = Inr port"
proof -
  have "strip_prefix (''OK'' @ [tab] @ show_nat (unat port) @ [newline]) (''OK'' @ [tab]) =
      Some (show_nat (unat port) @ [newline])"
    by (simp add: strip_prefix_Some_iff)
  then show ?thesis by (simp add: info_response_def trim_end_show_nat parse_u16_show)
qed

section \<open>Invariants of the daemon\<close>

definition daemon_inv :: "daemon \<Rightarrow> bool" where
  "daemon_inv d \<longleftrightarrow> wf_state (d_state d) \<and> wf_stats (d_stats d) \<and> registry_inv (d_stats d)"

lemma daemon_inv_init: "daemon_inv init_daemon"
  by (simp add: daemon_inv_def init_daemon_def wf_state_def wf_stats_def init_stats_def
      registry_inv_init [unfolded init_stats_def])

lemma wf_stats_register: "wf_stats s \<Longrightarrow> wf_stats (register_network name subnet s)"
  by (simp add: wf_stats_def register_network_def Let_def split: option.splits)

lemma snd_write_all [simp]: "snd (snd (write_all we answer d)) = d"
  by (simp add: write_all_def)

lemma daemon_inv_create:
  assumes "daemon_inv d" and "length (SUBNET_TO_ID (d_stats d)) < 4294967294"
  shows "daemon_inv (snd (snd (handle_create we rest d)))"
  using assms
  by (auto simp: handle_create_def daemon_inv_def Let_def wf_state_insert wf_stats_register
      registry_inv_register split: list.splits)

lemma daemon_inv_handle:
  assumes "daemon_inv d" and "length (SUBNET_TO_ID (d_stats d)) < 4294967294"
  shows "daemon_inv (snd (snd (handle_control_connection order now we line port d)))"
  using assms daemon_inv_create [OF assms]
  by (auto simp: handle_control_connection_def handle_remove_def Let_def daemon_inv_def wf_state_remove
      split: line_read.splits option.splits)

section \<open>Client and server together\<close>

text \<open>
  A host on which the control socket is served by the daemon: the server reads the first line of
  the payload, the client the first line of the answer, and the daemon's state, which is a part
  of the world, moves on as the handler says. Printing does not touch it.
\<close>

definition serves ::
  "(stats_map \<Rightarrow> stats_map) \<Rightarrow> int \<Rightarrow> u16 \<Rightarrow> ('w \<Rightarrow> daemon) \<Rightarrow> 'w host \<Rightarrow> bool" where
  "serves order now port dmn h \<longleftrightarrow>
     (\<forall>limit payload w.
        (case handle_control_connection order now None (LineBuffer (read_line payload)) port (dmn w) of
           (_, answer, d') \<Rightarrow>
             fst (host_exchange h limit payload w) = Inr (read_line answer) \<and>
             dmn (snd (host_exchange h limit payload w)) = d')) \<and>
     (\<forall>line w. dmn (host_println h line w) = dmn w)"

lemma serves_exchange:
  assumes "serves order now port dmn h"
    and "handle_control_connection order now None (LineBuffer (read_line payload)) port (dmn w) = (r, answer, d')"
  obtains w' where "host_exchange h limit payload w = (Inr (read_line answer), w')" and "dmn w' = d'"
proof
  let ?x = "host_exchange h limit payload w"
  have "fst ?x = Inr (read_line answer)" and d: "dmn (snd ?x) = d'"
    using assms by (auto simp: serves_def split: prod.splits)
  then show "host_exchange h limit payload w = (Inr (read_line answer), snd ?x)"
    by (metis prod.collapse)
  show "dmn (snd ?x) = d'" by (rule d)
qed

lemma serves_println: "serves order now port dmn h \<Longrightarrow> dmn (host_println h line w) = dmn w"
  by (simp add: serves_def)

lemma read_line_OK: "newline \<notin> set s \<Longrightarrow> read_line (''OK'' @ [tab] @ s @ [newline]) = ''OK'' @ [tab] @ s @ [newline]"
  using read_line_payload [of "''OK'' @ [tab] @ s"] by (auto simp: tab_def newline_def)

lemma write_all_None: "write_all None answer d = (Inr (), answer, d)"
  by (simp add: write_all_def)

lemma send_control_command_served:
  assumes h: "serves order now port dmn h" and s: "newline \<notin> set s"
    and "handle_control_connection order now None (LineBuffer (read_line payload)) port (dmn w) =
      write_all None (''OK'' @ [tab] @ s @ [newline]) d'"
  obtains w' where "send_control_command h payload w = Some (Inr (), w')" and "dmn w' = d'"
proof -
  obtain w' where x: "host_exchange h None payload w = (Inr (''OK'' @ [tab] @ s @ [newline]), w')"
    and d: "dmn w' = d'"
    using serves_exchange [OF h assms(3) [unfolded write_all_None], of None] by (auto simp only: read_line_OK [OF s])
  have "send_control_command h payload w = Some (control_response (''OK'' @ [tab] @ s @ [newline]), w')"
    unfolding send_control_command_def bindc_def sys_exchange_def x by (simp add: lift_result_def)
  with that d show thesis by (simp only: control_response_OK)
qed

lemma send_create_served:
  assumes h: "serves order now port dmn h"
    and name: "field_ok name" "name \<noteq> []"
    and subnet: "field_ok (case subnet of Some sn \<Rightarrow> sn | None \<Rightarrow> [])"
    and domains: "\<And>d. d \<in> set ds \<Longrightarrow> domain_ok d"
  obtains w' where "send_create h name subnet ds w = Some (Inr (), w')"
    and "d_state (dmn w') =
      hm_insert name \<lparr>allowed_domain_patterns = ds, ips = []\<rparr> (d_state (dmn w))"
    and "d_stats (dmn w') =
      (case subnet of
         None \<Rightarrow> d_stats (dmn w)
       | Some sn \<Rightarrow> if sn = [] then d_stats (dmn w) else register_network name sn (d_stats (dmn w)))"
proof -
  let ?sn = "case subnet of Some sn \<Rightarrow> sn | None \<Rightarrow> []"
  let ?d1 = "if ?sn \<noteq> [] then (dmn w)\<lparr>d_stats := register_network name ?sn (d_stats (dmn w))\<rparr> else dmn w"
  let ?d2 = "?d1\<lparr>d_state := hm_insert name \<lparr>allowed_domain_patterns = ds, ips = []\<rparr> (d_state ?d1)\<rparr>"
  have "handle_control_connection order now None (LineBuffer (read_line (create_payload name subnet ds))) port (dmn w) =
      write_all None (''OK'' @ [tab] @ ''created'' @ [newline]) ?d2"
    by (simp only: handle_create_payload [OF name subnet domains] Let_def)
  from send_control_command_served [OF h _ this]
  obtain w1 where w1: "send_control_command h (create_payload name subnet ds) w = Some (Inr (), w1)"
    and d: "dmn w1 = ?d2" by (auto simp: newline_def)
  have "send_create h name subnet ds w =
      Some (Inr (), host_println h (''requested creation of ipset '' @ [CHR 0x27] @ name @ [CHR 0x27]) w1)"
    unfolding send_create_def bindc_Inr [of "send_control_command h (create_payload name subnet ds)", OF w1]
      sys_println_def by (rule refl)
  with that show thesis using serves_println [OF h] d by (auto split: option.splits)
qed

lemma send_remove_served:
  assumes h: "serves order now port dmn h" and name: "field_ok name" "name \<noteq> []"
  obtains w' where "send_remove h name w = Some (Inr (), w')"
    and "dmn w' = (dmn w)\<lparr>d_state := hm_remove name (d_state (dmn w))\<rparr>"
proof -
  from send_control_command_served [OF h _ handle_remove_payload [OF name]]
  obtain w1 where w1: "send_control_command h (remove_payload name) w = Some (Inr (), w1)"
    and d: "dmn w1 = (dmn w)\<lparr>d_state := hm_remove name (d_state (dmn w))\<rparr>" by (auto simp: newline_def)
  have "send_remove h name w =
      Some (Inr (), host_println h (''requested removal of ipset '' @ [CHR 0x27] @ name @ [CHR 0x27]) w1)"
    unfolding send_remove_def bindc_Inr [of "send_control_command h (remove_payload name)", OF w1]
      sys_println_def by (rule refl)
  with that show thesis using serves_println [OF h] d by auto
qed

lemma get_dns_port_served:
  assumes "serves order now port dmn h"
  shows "\<exists>w'. get_dns_port h w = Some (Inr port, w') \<and> dmn w' = dmn w"
proof -
  let ?answer = "''OK'' @ [tab] @ show_nat (unat port) @ [newline]"
  have digits: "newline \<notin> set (show_nat (unat port))"
    using show_nat_digits [of "unat port"] by (auto simp: newline_def ascii_digit_def)
  have "trim_end_matches newline (read_line (''INFO'' @ [newline])) = ''INFO''"
    by (rule line_of_payload) (simp add: newline_def)
  then have "handle_control_connection order now None (LineBuffer (read_line (''INFO'' @ [newline]))) port (dmn w) =
      (Inr (), ?answer, dmn w)"
    by (simp add: handle_control_connection_def write_all_None)
  from serves_exchange [OF assms this, of "Some 1"]
  obtain w' where x: "host_exchange h (Some 1) (''INFO'' @ [newline]) w = (Inr ?answer, w')"
    and "dmn w' = dmn w" by (auto simp only: read_line_OK [OF digits])
  moreover have "get_dns_port h w = Some (info_response ?answer, w')"
    unfolding get_dns_port_def bindc_def sys_exchange_def x by (simp add: lift_result_def)
  ultimately show ?thesis by (simp only: info_response_port) blast
qed

section \<open>Properties\<close>

text \<open>A host with a daemon behind the control socket and nothing else.\<close>

definition loop_host :: "u16 \<Rightarrow> (daemon \<times> string list) host" where
  "loop_host port =
     \<lparr>host_output = (\<lambda>_ w. (Inl (IoError ''no such process''), w)),
      host_output_stdin = (\<lambda>_ _ w. (Inl (IoError ''no such process''), w)),
      host_spawn = (\<lambda>_ w. (Inl (IoError ''no such process''), w)),
      host_metadata = (\<lambda>_ _. None),
      host_read_file = (\<lambda>_ _. Inl (IoError ''no such file'')),
      host_current_exe = (\<lambda>_. Inl (IoError ''no such file'')),
      host_exchange = (\<lambda>_ payload (d, out).
        (case handle_control_connection (\<lambda>m. m) 0 None (LineBuffer (read_line payload)) port d of
           (_, answer, d') \<Rightarrow> (Inr (read_line answer), (d', out)))),
      host_sleep = (\<lambda>_ w. w),
      host_println = (\<lambda>line (d, out). (d, out @ [line])),
      host_eprintln = (\<lambda>_ w. w)\<rparr>"

lemma serves_loop_host: "serves (\<lambda>m. m) 0 port fst (loop_host port)"
  by (auto simp: serves_def loop_host_def split: prod.splits)

text \<open>
  A creation request arrives as it was sent: when client and daemon share the socket and the
  name, the subnet and the domains are free of the separators of the protocol, \<^verbatim>\<open>send_create\<close>
  succeeds, the daemon afterwards manages the set with exactly the requested patterns and no
  addresses, every other set is untouched, and the subnet, when there is one, is registered under
  the name of the set.
\<close>

theorem send_create_roundtrip:
  assumes "serves order now port dmn h"
    and "field_ok name" and "name \<noteq> []"
    and "field_ok (case subnet of Some sn \<Rightarrow> sn | None \<Rightarrow> [])"
    and "\<forall>d \<in> set domains. domain_ok d"
  shows "\<exists>w'. send_create h name subnet domains w = Some (Inr (), w') \<and>
     hm_get (d_state (dmn w')) =
       (hm_get (d_state (dmn w)))(name \<mapsto> \<lparr>allowed_domain_patterns = domains, ips = []\<rparr>) \<and>
     (case subnet of
        Some sn \<Rightarrow> sn \<noteq> [] \<longrightarrow>
          (\<exists>i. hm_get (SUBNET_TO_ID (d_stats (dmn w'))) sn = Some i \<and>
               hm_get (NETWORK_REGISTRY (d_stats (dmn w'))) i = Some \<lparr>net_name = name, net_subnet = sn\<rparr>)
      | None \<Rightarrow> d_stats (dmn w') = d_stats (dmn w))"
proof -
  from assms(5) have "\<And>d. d \<in> set domains \<Longrightarrow> domain_ok d" by blast
  from send_create_served [OF assms(1-4) this, where w = w]
  obtain w' where "send_create h name subnet domains w = Some (Inr (), w')"
    and "d_state (dmn w') = hm_insert name \<lparr>allowed_domain_patterns = domains, ips = []\<rparr> (d_state (dmn w))"
    and "d_stats (dmn w') = (case subnet of None \<Rightarrow> d_stats (dmn w)
       | Some sn \<Rightarrow> if sn = [] then d_stats (dmn w) else register_network name sn (d_stats (dmn w)))"
    by auto
  then show ?thesis
    using register_network_lookup [of name _ "d_stats (dmn w)"]
    by (intro exI [of _ w']) (auto simp: update_conv' split: option.splits)
qed

theorem send_create_roundtrip_witness:
  "\<exists>w'. send_create (loop_host 53) ''web'' (Some ''10.0.0.0/24'') [''a.test'', ''*.b.test''] (init_daemon, []) =
      Some (Inr (), w') \<and>
    hm_get (d_state (fst w')) ''web'' =
      Some \<lparr>allowed_domain_patterns = [''a.test'', ''*.b.test''], ips = []\<rparr>"
proof -
  have hyps: "field_ok ''web''" "field_ok (case Some ''10.0.0.0/24'' of Some sn \<Rightarrow> sn | None \<Rightarrow> [])"
    "\<forall>d \<in> set [''a.test'', ''*.b.test'']. domain_ok d"
    by code_simp+
  have "''web'' \<noteq> []" by simp
  from send_create_roundtrip [OF serves_loop_host hyps(1) this hyps(2) hyps(3), of 53 "(init_daemon, [])"]
  show ?thesis by auto
qed

text \<open>
  Creating a set and removing it again through the socket succeeds and leaves the daemon
  managing exactly the sets it managed before, without the name.
\<close>

theorem send_create_remove:
  assumes "serves order now port dmn h" and "keys_distinct (d_state (dmn w))"
    and "field_ok name" and "name \<noteq> []"
    and "field_ok (case subnet of Some sn \<Rightarrow> sn | None \<Rightarrow> [])"
    and "\<forall>d \<in> set domains. domain_ok d"
  shows "\<exists>w'. bindc (send_create h name subnet domains) (\<lambda>_. send_remove h name) w = Some (Inr (), w') \<and>
     hm_get (d_state (dmn w')) = (hm_get (d_state (dmn w)))(name := None)"
proof -
  from assms(6) have "\<And>d. d \<in> set domains \<Longrightarrow> domain_ok d" by blast
  from send_create_served [OF assms(1,3,4,5) this, where w = w]
  obtain w1 where w1: "send_create h name subnet domains w = Some (Inr (), w1)"
    and d1: "d_state (dmn w1) = hm_insert name \<lparr>allowed_domain_patterns = domains, ips = []\<rparr> (d_state (dmn w))"
    by auto
  from send_remove_served [OF assms(1,3,4), of w1]
  obtain w2 where "send_remove h name w1 = Some (Inr (), w2)"
    and d2: "dmn w2 = (dmn w1)\<lparr>d_state := hm_remove name (d_state (dmn w1))\<rparr>" by auto
  then have "bindc (send_create h name subnet domains) (\<lambda>_. send_remove h name) w = Some (Inr (), w2)"
    using w1 by (simp add: bindc_Inr)
  moreover have "hm_get (d_state (dmn w2)) = (hm_get (d_state (dmn w)))(name := None)"
    using hm.rmv_after_ins [OF assms(2)] by (simp add: d2 d1)
  ultimately show ?thesis by blast
qed

theorem send_create_remove_witness:
  "\<exists>w'. bindc (send_create (loop_host 53) ''web'' None [''a.test'']) (\<lambda>_. send_remove (loop_host 53) ''web'')
      (init_daemon, []) = Some (Inr (), w') \<and> hm_get (d_state (fst w')) ''web'' = None"
proof -
  have hyps: "field_ok ''web''" "field_ok (case None of Some sn \<Rightarrow> sn | None \<Rightarrow> [])"
    "\<forall>d \<in> set [''a.test'']. domain_ok d" "keys_distinct (d_state (fst (init_daemon, [] :: string list)))"
    by code_simp+
  have "''web'' \<noteq> []" by simp
  from send_create_remove [OF serves_loop_host hyps(4,1) this hyps(2,3), of 53]
  show ?thesis by auto
qed

text \<open>
  The DNS port survives the trip through the socket: asking a daemon that listens on a port for
  its port returns that port, for all 65536 ports, and leaves the daemon as it was.
\<close>

theorem get_dns_port_roundtrip:
  assumes "serves order now port dmn h"
  shows "\<exists>w'. get_dns_port h w = Some (Inr port, w') \<and> dmn w' = dmn w"
  using assms by (rule get_dns_port_served)

theorem get_dns_port_roundtrip_witness:
  "\<exists>w'. get_dns_port (loop_host 5353) (init_daemon, []) = Some (Inr 5353, w') \<and> fst w' = init_daemon"
  using get_dns_port_roundtrip [OF serves_loop_host, of 5353 "(init_daemon, [])"] by simp



end
