(* ===== verification/Filter_Instance.thy ===== *)
theory Filter_Instance
  imports Netfilter
begin

text \<open>
  A small packet filter that follows the laws of \<^verbatim>\<open>Netfilter\<close>: it shows that the hypotheses about
  \<^verbatim>\<open>iptables\<close> can hold together, and the witnesses of the properties run on it. A packet is the set of
  options it satisfies, a rule is its specification.
\<close>

type_synonym packet = "string list \<Rightarrow> bool"
type_synonym filter_world = "chain_key \<Rightarrow> string list list option"

section \<open>Reading a specification\<close>

fun parse_spec :: "nat \<Rightarrow> string list \<Rightarrow> string list list \<times> string list" where
  "parse_spec 0 args = ([], [])"
| "parse_spec (Suc n) args =
     (case args of
        [] \<Rightarrow> ([], [])
      | a # rest \<Rightarrow>
          if a = ''-j'' then ([], rest)
          else
            (let k = (if a = ''-m'' then (if take 1 rest = [''set''] then 5 else 4) else 2);
                 (fs, t) = parse_spec n (drop k args)
             in (take k args # fs, t)))"

lemma fragment_head:
  assumes "fragment f"
  obtains a rest where "f = a # rest" and "a \<noteq> ''-j''"
    and "length f = (if a = ''-m'' then (if take 1 rest = [''set''] then 5 else 4) else 2)"
    and "rest \<noteq> []" and "digits_value 10 0 a = None"
  using assms
  by (auto simp: fragment_def one_value_options_def modules_def to_digit_def ascii_digit_def
      ascii_lower_def ascii_upper_def split: list.splits)

lemma parse_spec_spec_of:
  "list_all fragment fs \<Longrightarrow> length (concat fs @ ''-j'' # t) \<le> n \<Longrightarrow> parse_spec n (concat fs @ ''-j'' # t) = (fs, t)"
proof (induction fs arbitrary: n)
  case Nil
  then show ?case by (cases n) auto
next
  case (Cons f fs)
  then have "fragment f" by simp
  then obtain a rest where f: "f = a # rest" "a \<noteq> ''-j''"
    and k: "length f = (if a = ''-m'' then (if take 1 rest = [''set''] then 5 else 4) else 2)" and ne: "rest \<noteq> []"
    by (rule fragment_head)
  obtain n' where n: "n = Suc n'" using Cons.prems(2) by (cases n) auto
  have "parse_spec n' (concat fs @ ''-j'' # t) = (fs, t)" using Cons f n by (intro Cons.IH) auto
  moreover have "take 1 (rest @ concat fs @ ''-j'' # t) = take 1 rest" using ne by (cases rest) auto
  then have "(if a = ''-m'' then (if take 1 (rest @ concat fs @ ''-j'' # t) = [''set''] then 5 else 4) else 2) = length f"
    by (simp only: k)
  then have "parse_spec n (a # rest @ concat fs @ ''-j'' # t) =
      (let (gs, u) = parse_spec n' (drop (length f) (f @ concat fs @ ''-j'' # t))
       in (take (length f) (f @ concat fs @ ''-j'' # t) # gs, u))"
    unfolding n parse_spec.simps list.case Let_def f(1) append_Cons using f(2) by (simp only: if_False)
  ultimately show ?case by (simp add: f(1))
qed

definition read_spec :: "string list \<Rightarrow> string list list \<times> string list" where
  "read_spec args = parse_spec (length args) args"

lemma read_spec_spec_of: "spec_ok r \<Longrightarrow> read_spec (spec_of r) = r"
  unfolding read_spec_def spec_of_def
  using parse_spec_spec_of [of "fst r" "snd r" "length (concat (fst r) @ ''-j'' # snd r)"]
  by (simp only: spec_ok_def order_refl prod.collapse)

section \<open>The filter\<close>

definition sample_frag :: "string list \<Rightarrow> packet \<Rightarrow> bool" where
  "sample_frag f p \<longleftrightarrow> take 3 f = [''-m'', ''comment'', ''--comment''] \<or> p f"

definition sample_filter :: "(filter_world, string list, packet) netfilter" where
  "sample_filter =
     \<lparr>nf_chains = (\<lambda>w. w),
      nf_rule = (\<lambda>spec. spec),
      nf_match = (\<lambda>w r p. list_all (\<lambda>f. sample_frag f p) (fst (read_spec r))),
      nf_target = (\<lambda>r. snd (read_spec r)),
      nf_frag = (\<lambda>w. sample_frag),
      nf_comments = (\<lambda>r. {c. frag_comment c \<in> set (fst (read_spec r))}),
      nf_valid = (\<lambda>w key spec. True)\<rparr>"

text \<open>The command line tool.\<close>

definition done_with :: "bool \<Rightarrow> proc_output result" where
  "done_with good = Inr \<lparr>status_success = good, out_stdout = [], out_stderr = []\<rparr>"

definition sample_insert :: "chain_key \<Rightarrow> string list \<Rightarrow> filter_world \<Rightarrow> proc_output result \<times> filter_world" where
  "sample_insert key args w =
     (case w key of
        None \<Rightarrow> (done_with False, w)
      | Some rs \<Rightarrow>
          (case args of
             [] \<Rightarrow> (done_with False, w)
           | x # spec \<Rightarrow>
               (case digits_value 10 0 x of
                  Some (Suc n) \<Rightarrow>
                    if n \<le> length rs then (done_with True, w(key \<mapsto> insert_at n spec rs)) else (done_with False, w)
                | Some 0 \<Rightarrow> (done_with False, w)
                | None \<Rightarrow> (done_with True, w(key \<mapsto> args # rs)))))"

definition sample_table :: "family \<Rightarrow> string \<Rightarrow> string list \<Rightarrow> filter_world \<Rightarrow> proc_output result \<times> filter_world" where
  "sample_table f t args w =
     (case args of
        op # ch # rest \<Rightarrow>
          (let key = (f, t, ch) in
           if op = ''-I'' then sample_insert key rest w
           else if op = ''-D'' then
             (case w key of
                Some rs \<Rightarrow> (done_with (rest \<in> set rs), w(key \<mapsto> remove1 rest rs))
              | None \<Rightarrow> (done_with False, w))
           else if op = ''-N'' then
             (if w key = None \<and> user_chain_name ch then (done_with True, w(key \<mapsto> [])) else (done_with False, w))
           else if op = ''-S'' then (done_with (w key \<noteq> None), w)
           else (done_with False, w))
      | _ \<Rightarrow> (done_with False, w))"

definition sample_iptables :: "family \<Rightarrow> string list \<Rightarrow> filter_world \<Rightarrow> proc_output result \<times> filter_world" where
  "sample_iptables f args w =
     (case args of
        o1 # t # rest \<Rightarrow> if o1 = ''-t'' then sample_table f t rest w else sample_table f ''filter'' args w
      | _ \<Rightarrow> (done_with False, w))"

definition sample_filter_host :: "filter_world host" where
  "sample_filter_host =
     \<lparr>host_output = (\<lambda>c w. sample_iptables (family_of (program c)) (cmd_args c) w),
      host_output_stdin = (\<lambda>_ _ w. (Inl (IoError ''no such process''), w)),
      host_spawn = (\<lambda>_ w. (Inl (IoError ''no such process''), w)),
      host_metadata = (\<lambda>_ _. Some \<lparr>md_is_file = True, md_uid = 0, md_mode = 0x1ED\<rparr>),
      host_read_file = (\<lambda>_ _. Inl (IoError ''no such file'')),
      host_current_exe = (\<lambda>_. Inl (IoError ''no such file'')),
      host_exchange = (\<lambda>_ _ w. (Inl (IoError ''refused''), w)),
      host_sleep = (\<lambda>_ w. w),
      host_println = (\<lambda>_ w. w),
      host_eprintln = (\<lambda>_ w. w)\<rparr>"

section \<open>It follows the laws\<close>

lemma sample_match_laws: "match_laws sample_filter"
  by (simp add: match_laws_def sample_filter_def read_spec_spec_of list_all_iff sample_frag_def)

lemma sample_iptables_table:
  "op \<noteq> ''-t'' \<Longrightarrow> sample_iptables f (table_args t @ op # ch # rest) w = sample_table f t (op # ch # rest) w"
  by (auto simp: sample_iptables_def table_args_def)

lemma sample_result:
  "iptables_result sample_filter_host sample_filter b args w good cs \<longleftrightarrow>
     sample_iptables (family_of b) args w = (done_with good, cs)
       \<or> (\<exists>res. sample_iptables (family_of b) args w = (Inr res, cs) \<and> status_success res = good)"
  by (auto simp: iptables_result_def sample_filter_host_def helper_command_def sample_filter_def
      same_filter_def done_with_def)

lemma digits_value_position: "digits_value 10 0 (show_nat n) = Some n"
  unfolding show_nat_def by (rule digits_value_show) simp

lemma spec_head:
  assumes "spec_ok r"
  obtains x rest where "spec_of r = x # rest" and "digits_value 10 0 x = None"
proof (cases "fst r")
  case Nil
  have "digits_value 10 0 ''-j'' = None" by code_simp
  with Nil that show thesis by (simp add: spec_of_def)
next
  case (Cons f fs)
  with assms have "fragment f" by (simp add: spec_ok_def)
  then obtain a rest where "f = a # rest" "digits_value 10 0 a = None" by (rule fragment_head)
  with Cons that show thesis by (simp add: spec_of_def)
qed

lemma sample_rule [simp]: "nf_rule sample_filter spec = spec" "nf_chains sample_filter w = w" "nf_valid sample_filter w key spec"
  by (simp_all add: sample_filter_def)

lemma sample_iptables_laws: "iptables_laws sample_filter_host sample_filter"
proof -
  have "insert_at_law sample_filter_host sample_filter"
    by (simp add: insert_at_law_def sample_result sample_iptables_table sample_table_def sample_insert_def
        digits_value_position)
  moreover have "insert_law sample_filter_host sample_filter"
    unfolding insert_law_def sample_rule
  proof (intro allI impI)
    fix b t ch :: string and w :: filter_world and r and rs :: "string list list" assume "spec_ok r" and w: "w (family_of b, t, ch) = Some rs"
    then obtain x rest where "spec_of r = x # rest" "digits_value 10 0 x = None" by (metis spec_head)
    with w show "iptables_result sample_filter_host sample_filter b (table_args t @ ''-I'' # ch # spec_of r) w True
        (w((family_of b, t, ch) \<mapsto> spec_of r # rs))"
      by (simp add: sample_result sample_iptables_table sample_table_def sample_insert_def)
  qed
  moreover have "delete_law sample_filter_host sample_filter"
    by (simp add: delete_law_def sample_result sample_iptables_table sample_table_def)
  moreover have "chain_law sample_filter_host sample_filter"
  proof -
    have "sample_iptables f [op, ch] w = sample_table f ''filter'' [op, ch] w" if "op \<noteq> ''-t''" for f op ch w
      using that by (simp add: sample_iptables_def)
    then show ?thesis by (auto simp: chain_law_def sample_result sample_table_def Let_def done_with_def)
  qed
  moreover have "jump_law sample_filter" by (simp add: jump_law_def)
  ultimately show ?thesis by (simp add: iptables_laws_def)
qed

end
