(* ===== verification/Firewall.thy ===== *)
theory Firewall
  imports Helper_Rules Filter_Instance
begin

text \<open>
  What the rules of a network do with packets: every packet of a confined source is accepted for one
  of the reasons the rules name or dropped, other sources are not affected, and preparing a network
  again changes nothing. The packet filter is the parameter of \<^verbatim>\<open>Netfilter\<close>.
\<close>

section \<open>Shared lemmas\<close>

lemma final_targets_docker:
  "final_targets nf w Inet \<Longrightarrow> nf_chains nf w' = docker_chains nf plan rs ns (nf_chains nf w) \<Longrightarrow>
     final_targets nf w' Inet"
  by (simp add: final_targets_def docker_chains_def)

lemma final_targets_policy:
  "final_targets nf w f \<Longrightarrow>
     (\<And>ch. nf_chains nf w' (f, ''filter'', ch) = policy_chains nf f hook rules os (nf_chains nf w) (f, ''filter'', ch)) \<Longrightarrow>
     final_targets nf w' f"
  by (simp add: final_targets_def policy_chains_def PODMAN_OUTPUT_CHAIN_def)

lemma find_mem: "find P xs = Some x \<Longrightarrow> x \<in> set xs"
  by (induction xs) (auto split: if_splits)

lemma without_idem: "without rs (rs @ without rs xs) = without rs xs"
  by (simp add: without_def)

text \<open>A packet of the source follows the hook into the policy chain and gets its answer there.\<close>

lemma verdict_hook:
  assumes laws: "match_laws nf" and hook: "spec_ok hook" "snd hook = [ch]"
    and match: "\<forall>f \<in> set (fst hook). nf_frag nf w f p"
    and crs: "nf_chains nf w (fam, ''filter'', ch) = Some crs" and v: "verdict d nf w fam crs p = Some v"
  shows "verdict (Suc d) nf w fam (nf_rule nf (spec_of hook) # rs) p = Some v"
  using match_laws_rule(1,2) [OF laws hook(1)] hook(2) match crs v by simp

lemma verdict_no_hook:
  assumes laws: "match_laws nf" and hook: "spec_ok hook" "\<exists>f \<in> set (fst hook). \<not> nf_frag nf w f p"
  shows "verdict d nf w fam (nf_rule nf (spec_of hook) # removeAll (nf_rule nf (spec_of hook)) rs) p = verdict d nf w fam rs p"
proof -
  have no: "\<not> nf_match nf w (nf_rule nf (spec_of hook)) p" using match_laws_rule(1) [OF laws hook(1)] hook(2) by auto
  then have "verdict d nf w fam (without [nf_rule nf (spec_of hook)] rs) p = verdict d nf w fam rs p"
    by (intro verdict_without) simp
  then show ?thesis using no by (simp add: without_Cons)
qed

lemma hook_matches:
  "match_laws nf \<Longrightarrow> (\<forall>f \<in> set (fst (podman_hook name source)). nf_frag nf w f p) \<longleftrightarrow> nf_frag nf w (frag_source source) p"
  by (simp add: podman_hook_def match_laws_comment)

lemma docker_accept_iff:
  assumes "match_laws nf" and "nf_frag nf w (frag_source (plan_subnet plan)) p"
  shows "(\<exists>r \<in> set (docker_accepts plan). \<forall>x \<in> set (fst r). nf_frag nf w x p) \<longleftrightarrow>
    nf_frag nf w frag_established p \<or> nf_frag nf w (frag_set (plan_name plan)) p \<or>
    nf_frag nf w (frag_dest ''172.16.0.0/12'') p"
  using assms by (simp add: docker_accepts_def match_laws_comment)

definition podman_dns_packet :: "('w, 'r, 'p) netfilter \<Rightarrow> 'w \<Rightarrow> u16 \<Rightarrow> 'p \<Rightarrow> bool" where
  "podman_dns_packet nf w port p \<longleftrightarrow>
     nf_frag nf w (frag_dest (if port = 53 then ROOTLESS_DNS_CIDR else ROOTLESS_DNS_REDIRECT_CIDR)) p \<and>
     (nf_frag nf w [''-p'', ''udp''] p \<or> nf_frag nf w [''-p'', ''tcp''] p) \<and>
     nf_frag nf w [''--dport'', show_nat (unat port)] p"

lemma podman_accept_iff:
  assumes "match_laws nf" and "nf_frag nf w (frag_source source) p"
  shows "(\<exists>r \<in> set (podman_accepts name source port). \<forall>x \<in> set (fst r). nf_frag nf w x p) \<longleftrightarrow>
    nf_frag nf w frag_established p \<or> podman_dns_packet nf w port p \<or> nf_frag nf w (frag_set name) p"
  using assms by (auto simp: podman_accepts_def podman_dns_def podman_dns_packet_def match_laws_comment)

definition neighbour_discovery :: "('w, 'r, 'p) netfilter \<Rightarrow> 'w \<Rightarrow> 'p \<Rightarrow> bool" where
  "neighbour_discovery nf w p \<longleftrightarrow>
     nf_frag nf w [''-p'', ''ipv6-icmp''] p \<and>
     (nf_frag nf w [''-m'', ''icmp6'', ''--icmpv6-type'', ''neighbor-solicitation''] p \<or>
      nf_frag nf w [''-m'', ''icmp6'', ''--icmpv6-type'', ''neighbor-advertisement''] p)"

lemma podman_ipv6_accept_iff:
  assumes "match_laws nf" and "nf_frag nf w (frag_source source) p"
  shows "(\<exists>r \<in> set (podman_ipv6_accepts name source). \<forall>x \<in> set (fst r). nf_frag nf w x p) \<longleftrightarrow>
    nf_frag nf w frag_established p \<or> neighbour_discovery nf w p \<or> nf_frag nf w (frag_set (ipv6_ipset_name name)) p"
  using assms by (auto simp: podman_ipv6_accepts_def podman_icmp_def neighbour_discovery_def match_laws_comment)

lemma docker_rules_closed:
  assumes "iptables_laws h nf" and "match_laws nf" and "b \<in> set IPTABLES_CANDIDATES"
    and "docker_valid nf plan w" and "final_targets nf w Inet"
    and "nf_chains nf w (Inet, ''filter'', ''DOCKER-USER'') = Some rs"
    and "nf_chains nf w (Inet, ''nat'', ''PREROUTING'') = Some ns"
  shows "\<exists>w' chain. ensure_docker_iptables_rules h b plan w = Some (Inr (), w') \<and> nf_frag nf w' = nf_frag nf w \<and>
     nf_chains nf w' (Inet, ''filter'', ''DOCKER-USER'') = Some chain \<and>
     (\<forall>d p. nf_frag nf w (frag_source (plan_subnet plan)) p \<longrightarrow>
        verdict d nf w' Inet chain p =
          Some (if nf_frag nf w frag_established p \<or> nf_frag nf w (frag_set (plan_name plan)) p \<or>
                   nf_frag nf w (frag_dest ''172.16.0.0/12'') p
                then [''ACCEPT''] else [''DROP''])) \<and>
     (\<forall>d p. \<not> nf_frag nf w (frag_source (plan_subnet plan)) p \<longrightarrow> \<not> nf_frag nf w frag_established p \<longrightarrow>
        verdict d nf w' Inet chain p = verdict d nf w' Inet rs p)"
proof -
  let ?rules = "rules_of nf (docker_accepts plan @ [docker_drop plan])"
  obtain w' where run: "ensure_docker_iptables_rules h b plan w = Some (Inr (), w')" and same: "same_filter nf w w'"
    and chains: "nf_chains nf w' = docker_chains nf plan rs ns (nf_chains nf w)"
    using docker_rules_run [OF assms(1-4,6,7)] by blast
  have frag: "nf_frag nf w' = nf_frag nf w" using same by (simp add: same_filter_def)
  have chain: "nf_chains nf w' (Inet, ''filter'', ''DOCKER-USER'') = Some (?rules @ without ?rules rs)"
    unfolding chains docker_chains_def by simp
  have "final_targets nf w' Inet" using assms(5) chains by (rule final_targets_docker)
  then have "verdict d nf w' Inet (?rules @ without ?rules rs) p =
          Some (if nf_frag nf w frag_established p \<or> nf_frag nf w (frag_set (plan_name plan)) p \<or>
                   nf_frag nf w (frag_dest ''172.16.0.0/12'') p then [''ACCEPT''] else [''DROP''])"
    if "nf_frag nf w (frag_source (plan_subnet plan)) p" for d p
    using docker.verdict_source [OF assms(2), of w' Inet plan p] docker_accept_iff [OF assms(2), of w' plan p] that
    by (simp only: frag)
  moreover have "verdict d nf w' Inet (?rules @ without ?rules rs) p = verdict d nf w' Inet rs p"
    if "\<not> nf_frag nf w (frag_source (plan_subnet plan)) p" "\<not> nf_frag nf w frag_established p" for d p
    using that by (intro docker.verdict_foreign [OF assms(2)]) (simp_all add: frag)
  ultimately show ?thesis using run chain frag by blast
qed

text \<open>
  An \<^verbatim>\<open>OUTPUT\<close> chain that decides about the packets of a source by a condition, through the chain that a hook jumps
  to, and about other packets as an old chain did.
\<close>

definition closed_output ::
  "('w, 'r, 'p) netfilter \<Rightarrow> family \<Rightarrow> string \<Rightarrow> 'w \<Rightarrow> 'w \<Rightarrow> ('p \<Rightarrow> bool) \<Rightarrow> 'r list \<Rightarrow> 'r list \<Rightarrow> bool" where
  "closed_output nf f source w w' ok old chain \<longleftrightarrow>
     nf_chains nf w' (f, ''filter'', ''OUTPUT'') = Some chain \<and>
     (\<forall>d p. nf_frag nf w (frag_source source) p \<longrightarrow>
        verdict (Suc d) nf w' f chain p = Some (if ok p then [''ACCEPT''] else [''DROP''])) \<and>
     (\<forall>d p. \<not> nf_frag nf w (frag_source source) p \<longrightarrow> verdict d nf w' f chain p = verdict d nf w' f old p)"

lemma hooked_policy_closed:
  assumes laws: "match_laws nf" and same: "same_filter nf w w'"
    and chains: "\<And>ch. nf_chains nf w' (f, ''filter'', ch) =
      policy_chains nf f (podman_hook name source) rules old (nf_chains nf w) (f, ''filter'', ch)"
    and body: "\<And>d p tail. nf_frag nf w' (frag_source source) p \<Longrightarrow>
      verdict d nf w' f (rules_of nf rules @ tail) p = Some (if ok p then [''ACCEPT''] else [''DROP''])"
  shows "\<exists>chain. closed_output nf f source w w' ok old chain"
proof -
  let ?hook = "podman_hook name source"
  let ?r = "nf_rule nf (spec_of ?hook)"
  have frag: "nf_frag nf w' = nf_frag nf w" using same by (simp add: same_filter_def)
  have out: "nf_chains nf w' (f, ''filter'', ''OUTPUT'') = Some (?r # removeAll ?r old)"
    unfolding chains by (simp add: policy_chains_def PODMAN_OUTPUT_CHAIN_def)
  obtain tail where pol: "nf_chains nf w' (f, ''filter'', PODMAN_OUTPUT_CHAIN) = Some (rules_of nf rules @ tail)"
    unfolding chains by (simp add: policy_chains_def)
  have "verdict (Suc d) nf w' f (?r # removeAll ?r old) p = Some (if ok p then [''ACCEPT''] else [''DROP''])"
    if src: "nf_frag nf w (frag_source source) p" for d p
    using hook_matches [OF laws] src body [of p d tail]
    by (intro verdict_hook [OF laws podman_hook_spec _ pol]) (simp_all add: frag)
  moreover have "verdict d nf w' f (?r # removeAll ?r old) p = verdict d nf w' f old p"
    if "\<not> nf_frag nf w (frag_source source) p" for d p
    using that by (intro verdict_no_hook [OF laws podman_hook_spec(1)]) (auto simp: frag podman_hook_def)
  ultimately show ?thesis using out unfolding closed_output_def by blast
qed

text \<open>The rules of a rootless Podman policy close both families.\<close>

lemma podman_rules_closed:
  assumes laws: "iptables_laws h nf" "match_laws nf"
    and b: "b \<in> set IPTABLES_CANDIDATES" "b6 \<in> set IP6TABLES_CANDIDATES"
    and valid: "podman_valid nf name source source6 interface port w"
    and os: "nf_chains nf w (Inet, ''filter'', ''OUTPUT'') = Some os" and ready: "nat_ready nf w"
    and os6: "nf_chains nf w (Inet6, ''filter'', ''OUTPUT'') = Some os6"
  shows "\<exists>w'. ensure_rootless_podman_rules h b b6 name source source6 interface port w = Some (Inr (), w') \<and>
     same_filter nf w w' \<and>
     (final_targets nf w Inet \<longrightarrow> (\<exists>chain. closed_output nf Inet source w w'
        (\<lambda>p. nf_frag nf w frag_established p \<or> podman_dns_packet nf w port p \<or> nf_frag nf w (frag_set name) p) os chain)) \<and>
     (\<forall>c. source6 = Some c \<longrightarrow> final_targets nf w Inet6 \<longrightarrow> (\<exists>chain. closed_output nf Inet6 c w w'
        (\<lambda>p. nf_frag nf w frag_established p \<or> neighbour_discovery nf w p \<or>
             nf_frag nf w (frag_set (ipv6_ipset_name name)) p) os6 chain))"
proof -
  obtain w' where run: "ensure_rootless_podman_rules h b b6 name source source6 interface port w = Some (Inr (), w')"
    and same: "same_filter nf w w'"
    and chains: "\<And>ch. nf_chains nf w' (Inet, ''filter'', ch) = policy_chains nf Inet (podman_hook name source)
       (podman_accepts name source port @ [podman_drop name source]) os (nf_chains nf w) (Inet, ''filter'', ch)"
    and chains6: "\<And>ch c. source6 = Some c \<Longrightarrow> nf_chains nf w' (Inet6, ''filter'', ch) = policy_chains nf Inet6 (podman_hook name c)
       (podman_ipv6_accepts name c @ [podman_drop name c]) os6 (nf_chains nf w) (Inet6, ''filter'', ch)"
    using podman_rules_run [OF laws b valid os ready os6] by blast
  have frag: "nf_frag nf w' = nf_frag nf w" using same by (simp add: same_filter_def)
  have "\<exists>chain. closed_output nf Inet source w w'
      (\<lambda>p. nf_frag nf w frag_established p \<or> podman_dns_packet nf w port p \<or> nf_frag nf w (frag_set name) p) os chain"
    if "final_targets nf w Inet"
  proof (rule hooked_policy_closed [OF laws(2) same chains])
    fix d p tail assume "nf_frag nf w' (frag_source source) p"
    with podman.verdict_source [OF laws(2) final_targets_policy [OF that chains]] podman_accept_iff [OF laws(2), of w' source p name port]
    show "verdict d nf w' Inet (rules_of nf (podman_accepts name source port @ [podman_drop name source]) @ tail) p =
        Some (if nf_frag nf w frag_established p \<or> podman_dns_packet nf w port p \<or> nf_frag nf w (frag_set name) p
              then [''ACCEPT''] else [''DROP''])"
      by (simp only: frag podman_dns_packet_def)
  qed
  moreover have "\<exists>chain. closed_output nf Inet6 c w w'
      (\<lambda>p. nf_frag nf w frag_established p \<or> neighbour_discovery nf w p \<or> nf_frag nf w (frag_set (ipv6_ipset_name name)) p) os6 chain"
    if c: "source6 = Some c" and fin: "final_targets nf w Inet6" for c
  proof (rule hooked_policy_closed [OF laws(2) same chains6 [OF c]])
    fix d p tail assume "nf_frag nf w' (frag_source c) p"
    with podman6.verdict_source [OF laws(2) final_targets_policy [OF fin chains6 [OF c]]] podman_ipv6_accept_iff [OF laws(2), of w' c p name]
    show "verdict d nf w' Inet6 (rules_of nf (podman_ipv6_accepts name c @ [podman_drop name c]) @ tail) p =
        Some (if nf_frag nf w frag_established p \<or> neighbour_discovery nf w p \<or> nf_frag nf w (frag_set (ipv6_ipset_name name)) p
              then [''ACCEPT''] else [''DROP''])"
      by (simp only: frag neighbour_discovery_def)
  qed
  ultimately show ?thesis using run same by blast
qed

section \<open>Properties\<close>


definition sample_plan :: network_plan where
  "sample_plan = \<lparr>plan_name = ''web'', plan_subnet = ''172.30.1.0/28'', plan_gateway = ''172.30.1.1'', plan_dns_port = 5353\<rparr>"

definition sample_world :: filter_world where
  "sample_world key = (if snd key = (''filter'', ''ACCEPT'') \<or> snd key = (''filter'', ''DROP'') then None else Some [])"

lemma sample_docker_hyps:
  "docker_valid sample_filter plan w" "final_targets sample_filter sample_world f"
  "nf_chains sample_filter sample_world (f, t, ''DOCKER-USER'') = Some []"
  "nf_chains sample_filter sample_world (f, t, ''PREROUTING'') = Some []"
  "nf_chains sample_filter sample_world (f, t, ''POSTROUTING'') = Some []"
  "nf_chains sample_filter sample_world (f, t, ''OUTPUT'') = Some []"
  "nat_ready sample_filter sample_world"
  "podman_valid sample_filter name source source6 interface port w"
  by (simp_all add: docker_valid_def final_targets_def sample_world_def nat_ready_def podman_valid_def
      policy_valid_def redirects_valid_def)

lemma sample_binaries: "''/usr/sbin/iptables'' \<in> set IPTABLES_CANDIDATES" "''/usr/sbin/ip6tables'' \<in> set IP6TABLES_CANDIDATES"
  by (simp_all add: IPTABLES_CANDIDATES_def IP6TABLES_CANDIDATES_def)


text \<open>
  C5: Rootless Podman sources are closed by default, for IPv4. Under the same hypotheses the rules are
  installed successfully, and a packet that leaves the host with the source address of the policy is
  sent from \<^verbatim>\<open>OUTPUT\<close> to the policy chain and accepted exactly if it belongs to an established
  connection, or is a DNS query to the daemon, or its destination is in the ipset, and dropped
  otherwise; packets with another source get from \<^verbatim>\<open>OUTPUT\<close> the answer that the old rules give.
\<close>

theorem podman_default_deny:
  assumes "iptables_laws h nf" and "match_laws nf"
    and "b \<in> set IPTABLES_CANDIDATES" and "b6 \<in> set IP6TABLES_CANDIDATES"
    and "podman_valid nf name source source6 interface port w" and "final_targets nf w Inet"
    and "nf_chains nf w (Inet, ''filter'', ''OUTPUT'') = Some os" and "nat_ready nf w"
    and "nf_chains nf w (Inet6, ''filter'', ''OUTPUT'') = Some os6"
  shows "\<exists>w' chain. ensure_rootless_podman_rules h b b6 name source source6 interface port w = Some (Inr (), w') \<and>
     nf_chains nf w' (Inet, ''filter'', ''OUTPUT'') = Some chain \<and>
     (\<forall>d p. nf_frag nf w (frag_source source) p \<longrightarrow>
        verdict (Suc d) nf w' Inet chain p =
          Some (if nf_frag nf w frag_established p \<or> podman_dns_packet nf w port p \<or> nf_frag nf w (frag_set name) p
                then [''ACCEPT''] else [''DROP''])) \<and>
     (\<forall>d p. \<not> nf_frag nf w (frag_source source) p \<longrightarrow> verdict d nf w' Inet chain p = verdict d nf w' Inet os p)"
  using podman_rules_closed [OF assms(1-5,7-9)] assms(6) unfolding closed_output_def by blast

theorem podman_default_deny_witness:
  "\<exists>w' chain. ensure_rootless_podman_rules sample_filter_host ''/usr/sbin/iptables'' ''/usr/sbin/ip6tables'' ''box''
       ''198.18.0.7/32'' None ''eth0'' 5353 sample_world = Some (Inr (), w') \<and>
     w' (Inet, ''filter'', ''OUTPUT'') = Some chain \<and>
     verdict 1 sample_filter w' Inet chain (\<lambda>f. f = frag_source ''198.18.0.7/32'') = Some [''DROP''] \<and>
     verdict 1 sample_filter w' Inet chain (\<lambda>f. f = frag_source ''198.18.0.7/32'' \<or> f = frag_set ''box'') = Some [''ACCEPT'']"
proof -
  have frag: "nf_frag sample_filter w = sample_frag" for w by (simp add: sample_filter_def)
  obtain w' chain where w: "ensure_rootless_podman_rules sample_filter_host ''/usr/sbin/iptables'' ''/usr/sbin/ip6tables'' ''box''
       ''198.18.0.7/32'' None ''eth0'' 5353 sample_world = Some (Inr (), w')"
    "nf_chains sample_filter w' (Inet, ''filter'', ''OUTPUT'') = Some chain"
    and v: "\<forall>d p. nf_frag sample_filter sample_world (frag_source ''198.18.0.7/32'') p \<longrightarrow>
        verdict (Suc d) sample_filter w' Inet chain p =
          Some (if nf_frag sample_filter sample_world frag_established p \<or>
                   podman_dns_packet sample_filter sample_world 5353 p \<or>
                   nf_frag sample_filter sample_world (frag_set ''box'') p
                then [''ACCEPT''] else [''DROP''])"
    using podman_default_deny [OF sample_iptables_laws sample_match_laws sample_binaries
        sample_docker_hyps(8) sample_docker_hyps(2) sample_docker_hyps(6) sample_docker_hyps(7) sample_docker_hyps(6)] by blast
  have "verdict 1 sample_filter w' Inet chain (\<lambda>f. f = frag_source ''198.18.0.7/32'') = Some [''DROP'']"
    using v [THEN spec, of 0, THEN spec, of "\<lambda>f. f = frag_source ''198.18.0.7/32''"]
    by (simp add: frag sample_frag_def podman_dns_packet_def)
  moreover have "verdict 1 sample_filter w' Inet chain (\<lambda>f. f = frag_source ''198.18.0.7/32'' \<or> f = frag_set ''box'') = Some [''ACCEPT'']"
    using v [THEN spec, of 0, THEN spec, of "\<lambda>f. f = frag_source ''198.18.0.7/32'' \<or> f = frag_set ''box''"]
    by (simp add: frag sample_frag_def)
  ultimately show ?thesis using w by auto
qed

text \<open>
  C11: Rootless Podman sources are closed by default, for IPv6. When the policy has an IPv6 source
  address, installing the rules makes \<^verbatim>\<open>OUTPUT\<close> of the IPv6 filter accept a packet of that source
  exactly if it belongs to an established connection, or is a neighbour solicitation or
  advertisement, or its destination is in the IPv6 ipset of the policy, and drop it otherwise.
\<close>

theorem podman_ipv6_default_deny:
  assumes "iptables_laws h nf" and "match_laws nf"
    and "b \<in> set IPTABLES_CANDIDATES" and "b6 \<in> set IP6TABLES_CANDIDATES"
    and "podman_valid nf name source (Some source6) interface port w" and "final_targets nf w Inet6"
    and "nf_chains nf w (Inet, ''filter'', ''OUTPUT'') = Some os" and "nat_ready nf w"
    and "nf_chains nf w (Inet6, ''filter'', ''OUTPUT'') = Some os6"
  shows "\<exists>w' chain. ensure_rootless_podman_rules h b b6 name source (Some source6) interface port w = Some (Inr (), w') \<and>
     nf_chains nf w' (Inet6, ''filter'', ''OUTPUT'') = Some chain \<and>
     (\<forall>d p. nf_frag nf w (frag_source source6) p \<longrightarrow>
        verdict (Suc d) nf w' Inet6 chain p =
          Some (if nf_frag nf w frag_established p \<or> neighbour_discovery nf w p \<or>
                   nf_frag nf w (frag_set (ipv6_ipset_name name)) p
                then [''ACCEPT''] else [''DROP''])) \<and>
     (\<forall>d p. \<not> nf_frag nf w (frag_source source6) p \<longrightarrow> verdict d nf w' Inet6 chain p = verdict d nf w' Inet6 os6 p)"
  using podman_rules_closed [OF assms(1-5,7-9)] assms(6) unfolding closed_output_def by blast

theorem podman_ipv6_default_deny_witness:
  "\<exists>w' chain. ensure_rootless_podman_rules sample_filter_host ''/usr/sbin/iptables'' ''/usr/sbin/ip6tables'' ''box''
       ''198.18.0.7/32'' (Some ''2001:db8::7/128'') ''eth0'' 53 sample_world = Some (Inr (), w') \<and>
     w' (Inet6, ''filter'', ''OUTPUT'') = Some chain \<and>
     verdict 1 sample_filter w' Inet6 chain (\<lambda>f. f = frag_source ''2001:db8::7/128'') = Some [''DROP''] \<and>
     verdict 1 sample_filter w' Inet6 chain (\<lambda>f. f = frag_source ''2001:db8::7/128'' \<or> f = frag_set ''box-v6'') = Some [''ACCEPT'']"
proof -
  have frag: "nf_frag sample_filter w = sample_frag" for w by (simp add: sample_filter_def)
  have name: "ipv6_ipset_name ''box'' = ''box-v6''" by (simp add: ipv6_ipset_name_def)
  obtain w' chain where w: "ensure_rootless_podman_rules sample_filter_host ''/usr/sbin/iptables'' ''/usr/sbin/ip6tables'' ''box''
       ''198.18.0.7/32'' (Some ''2001:db8::7/128'') ''eth0'' 53 sample_world = Some (Inr (), w')"
    "nf_chains sample_filter w' (Inet6, ''filter'', ''OUTPUT'') = Some chain"
    and v: "\<forall>d p. nf_frag sample_filter sample_world (frag_source ''2001:db8::7/128'') p \<longrightarrow>
        verdict (Suc d) sample_filter w' Inet6 chain p =
          Some (if nf_frag sample_filter sample_world frag_established p \<or>
                   neighbour_discovery sample_filter sample_world p \<or>
                   nf_frag sample_filter sample_world (frag_set (ipv6_ipset_name ''box'')) p
                then [''ACCEPT''] else [''DROP''])"
    using podman_ipv6_default_deny [OF sample_iptables_laws sample_match_laws sample_binaries
        sample_docker_hyps(8) sample_docker_hyps(2) sample_docker_hyps(6) sample_docker_hyps(7) sample_docker_hyps(6)] by blast
  have "verdict 1 sample_filter w' Inet6 chain (\<lambda>f. f = frag_source ''2001:db8::7/128'') = Some [''DROP'']"
    using v [THEN spec, of 0, THEN spec, of "\<lambda>f. f = frag_source ''2001:db8::7/128''"]
    by (simp add: frag sample_frag_def neighbour_discovery_def name)
  moreover have "verdict 1 sample_filter w' Inet6 chain (\<lambda>f. f = frag_source ''2001:db8::7/128'' \<or> f = frag_set ''box-v6'') = Some [''ACCEPT'']"
    using v [THEN spec, of 0, THEN spec, of "\<lambda>f. f = frag_source ''2001:db8::7/128'' \<or> f = frag_set ''box-v6''"]
    by (simp add: frag sample_frag_def name)
  ultimately show ?thesis using w by auto
qed

text \<open>
  C15: Confined DNS traffic reaches the proxy. After the rules of a Docker network are installed, the
  first rule of \<^verbatim>\<open>PREROUTING\<close> in the nat table that matches a packet from the subnet to port 53, over UDP or
  TCP, sends it to the gateway at the port of the daemon.
\<close>

theorem docker_dns_captured:
  assumes "iptables_laws h nf" and "match_laws nf" and "b \<in> set IPTABLES_CANDIDATES"
    and "docker_valid nf plan w"
    and "nf_chains nf w (Inet, ''filter'', ''DOCKER-USER'') = Some rs"
    and "nf_chains nf w (Inet, ''nat'', ''PREROUTING'') = Some ns"
    and "nf_frag nf w (frag_source (plan_subnet plan)) p" and "nf_frag nf w [''--dport'', ''53''] p"
    and "nf_frag nf w [''-p'', ''udp''] p \<or> nf_frag nf w [''-p'', ''tcp''] p"
  shows "\<exists>w' chain r. ensure_docker_iptables_rules h b plan w = Some (Inr (), w') \<and>
     nf_chains nf w' (Inet, ''nat'', ''PREROUTING'') = Some chain \<and>
     find (\<lambda>r. nf_match nf w' r p) chain = Some r \<and>
     nf_target nf r = [''DNAT'', ''--to-destination'', plan_gateway plan @ '':'' @ show_nat (unat (plan_dns_port plan))]"
proof -
  obtain w' where run: "ensure_docker_iptables_rules h b plan w = Some (Inr (), w')" and same: "same_filter nf w w'"
    and chains: "nf_chains nf w' = docker_chains nf plan rs ns (nf_chains nf w)"
    using docker_rules_run [OF assms(1-6)] by blast
  obtain tail where "nf_chains nf w' (Inet, ''nat'', ''PREROUTING'') =
      Some (rules_of nf [docker_dnat plan ''tcp'', docker_dnat plan ''udp''] @ tail)"
    unfolding chains docker_chains_def by simp
  moreover have "nf_match nf w' (nf_rule nf (spec_of (docker_dnat plan pr))) p \<longleftrightarrow> nf_frag nf w [''-p'', pr] p" for pr
    unfolding match_laws_rule(1) [OF assms(2) docker_dnat_spec(1)]
    using assms(7,8) match_laws_comment [OF assms(2)] same by (simp add: docker_dnat_def same_filter_def)
  moreover have "nf_target nf (nf_rule nf (spec_of (docker_dnat plan pr))) =
      [''DNAT'', ''--to-destination'', plan_gateway plan @ '':'' @ show_nat (unat (plan_dns_port plan))]" for pr
    unfolding match_laws_rule(2) [OF assms(2) docker_dnat_spec(1)] by (simp add: docker_dnat_def)
  ultimately show ?thesis using run assms(9) by auto
qed

theorem docker_dns_captured_witness:
  "\<exists>w' chain r. ensure_docker_iptables_rules sample_filter_host ''/usr/sbin/iptables'' sample_plan sample_world = Some (Inr (), w') \<and>
     w' (Inet, ''nat'', ''PREROUTING'') = Some chain \<and>
     r \<in> set chain \<and> nf_target sample_filter r = [''DNAT'', ''--to-destination'', ''172.30.1.1:5353'']"
proof -
  let ?p = "\<lambda>f. f = frag_source ''172.30.1.0/28'' \<or> f = [''-p'', ''udp''] \<or> f = [''--dport'', ''53'']"
  have frag: "nf_frag sample_filter w = sample_frag" for w by (simp add: sample_filter_def)
  have hyps: "nf_frag sample_filter sample_world (frag_source (plan_subnet sample_plan)) ?p"
    "nf_frag sample_filter sample_world [''--dport'', ''53''] ?p"
    "nf_frag sample_filter sample_world [''-p'', ''udp''] ?p \<or> nf_frag sample_filter sample_world [''-p'', ''tcp''] ?p"
    by (simp_all add: frag sample_frag_def sample_plan_def)
  have port: "plan_gateway sample_plan @ '':'' @ show_nat (unat (plan_dns_port sample_plan)) = ''172.30.1.1:5353''"
    by code_simp
  from docker_dns_captured [OF sample_iptables_laws sample_match_laws sample_binaries(1) sample_docker_hyps(1)
      sample_docker_hyps(3) sample_docker_hyps(4) hyps] show ?thesis
    unfolding port sample_rule by (blast dest: find_mem)
qed

text \<open>
  C16: Podman DNS traffic reaches the proxy. When the daemon does not listen on port 53, the first rule of
  \<^verbatim>\<open>OUTPUT\<close> and of \<^verbatim>\<open>PREROUTING\<close> in the nat table that matches a query of the policy's source to
  \<^verbatim>\<open>198.18.0.1\<close> port 53 redirects it to the port of the daemon.
\<close>

theorem podman_dns_redirected:
  assumes "iptables_laws h nf" and "match_laws nf"
    and "b \<in> set IPTABLES_CANDIDATES" and "b6 \<in> set IP6TABLES_CANDIDATES"
    and "podman_valid nf name source source6 interface port w" and "port \<noteq> 53"
    and "nf_chains nf w (Inet, ''filter'', ''OUTPUT'') = Some os" and "nat_ready nf w"
    and "nf_chains nf w (Inet6, ''filter'', ''OUTPUT'') = Some os6"
    and "nf_frag nf w (frag_source source) p" and "nf_frag nf w (frag_dest ROOTLESS_DNS_CIDR) p"
    and "nf_frag nf w [''--dport'', ''53''] p" and "nf_frag nf w [''-p'', ''udp''] p \<or> nf_frag nf w [''-p'', ''tcp''] p"
    and "ch = ''OUTPUT'' \<or> ch = ''PREROUTING''"
  shows "\<exists>w' chain r. ensure_rootless_podman_rules h b b6 name source source6 interface port w = Some (Inr (), w') \<and>
     nf_chains nf w' (Inet, ''nat'', ch) = Some chain \<and> find (\<lambda>r. nf_match nf w' r p) chain = Some r \<and>
     nf_target nf r = [''REDIRECT'', ''--to-ports'', show_nat (unat port)]"
proof -
  obtain w' where run: "ensure_rootless_podman_rules h b b6 name source source6 interface port w = Some (Inr (), w')"
    and same: "same_filter nf w w'"
    and r: "redirect_chain nf name source port ''OUTPUT'' w' \<and> redirect_chain nf name source port ''PREROUTING'' w'"
    using podman_rules_run [OF assms(1-5,7,8,9)] assms(6) by blast
  obtain tail where "nf_chains nf w' (Inet, ''nat'', ch) =
      Some (rules_of nf (map (podman_redirect name source port ch) [''tcp'', ''udp'']) @ tail)"
    using r assms(14) unfolding redirect_chain_def by blast
  moreover have "nf_match nf w' (nf_rule nf (spec_of (podman_redirect name source port ch pr))) p \<longleftrightarrow> nf_frag nf w [''-p'', pr] p" for pr
    unfolding match_laws_rule(1) [OF assms(2) podman_redirect_spec]
    using assms(10-12) match_laws_comment [OF assms(2)] same by (simp add: podman_redirect_def same_filter_def)
  moreover have "nf_target nf (nf_rule nf (spec_of (podman_redirect name source port ch pr))) =
      [''REDIRECT'', ''--to-ports'', show_nat (unat port)]" for pr
    unfolding match_laws_rule(2) [OF assms(2) podman_redirect_spec] by (simp add: podman_redirect_def)
  ultimately show ?thesis using run assms(13) by auto
qed

theorem podman_dns_redirected_witness:
  "\<exists>w' chain r. ensure_rootless_podman_rules sample_filter_host ''/usr/sbin/iptables'' ''/usr/sbin/ip6tables'' ''box''
       ''198.18.0.7/32'' None ''eth0'' 5353 sample_world = Some (Inr (), w') \<and>
     w' (Inet, ''nat'', ''OUTPUT'') = Some chain \<and> r \<in> set chain \<and>
     nf_target sample_filter r = [''REDIRECT'', ''--to-ports'', ''5353'']"
proof -
  let ?p = "\<lambda>f. f = frag_source ''198.18.0.7/32'' \<or> f = frag_dest ROOTLESS_DNS_CIDR \<or> f = [''-p'', ''udp''] \<or> f = [''--dport'', ''53'']"
  have frag: "nf_frag sample_filter w = sample_frag" for w by (simp add: sample_filter_def)
  have hyps: "nf_frag sample_filter sample_world (frag_source ''198.18.0.7/32'') ?p"
    "nf_frag sample_filter sample_world (frag_dest ROOTLESS_DNS_CIDR) ?p"
    "nf_frag sample_filter sample_world [''--dport'', ''53''] ?p"
    "nf_frag sample_filter sample_world [''-p'', ''udp''] ?p \<or> nf_frag sample_filter sample_world [''-p'', ''tcp''] ?p"
    "''OUTPUT'' = ''OUTPUT'' \<or> ''OUTPUT'' = ''PREROUTING''"
    by (simp_all add: frag sample_frag_def)
  have port: "show_nat (unat (5353 :: u16)) = ''5353''" by code_simp
  have "(5353 :: u16) \<noteq> 53" by simp
  from podman_dns_redirected [OF sample_iptables_laws sample_match_laws sample_binaries sample_docker_hyps(8) this
      sample_docker_hyps(6) sample_docker_hyps(7) sample_docker_hyps(6) hyps] show ?thesis
    unfolding port sample_rule by (blast dest: find_mem)
qed

text \<open>
  C28: Preparing a Docker network twice is the same as preparing it once: the second run succeeds as well
  and leaves every chain as the first run left it. In particular no rule is ever duplicated.
\<close>

theorem docker_rules_idempotent:
  assumes "iptables_laws h nf" and "match_laws nf" and "b \<in> set IPTABLES_CANDIDATES"
    and "docker_valid nf plan w"
    and "nf_chains nf w (Inet, ''filter'', ''DOCKER-USER'') = Some rs"
    and "nf_chains nf w (Inet, ''nat'', ''PREROUTING'') = Some ns"
  shows "\<exists>w' w''. ensure_docker_iptables_rules h b plan w = Some (Inr (), w') \<and>
     ensure_docker_iptables_rules h b plan w' = Some (Inr (), w'') \<and> nf_chains nf w'' = nf_chains nf w'"
proof -
  let ?f = "rules_of nf (docker_accepts plan @ [docker_drop plan])"
  let ?t = "nf_rule nf (spec_of (docker_dnat plan ''tcp''))" and ?u = "nf_rule nf (spec_of (docker_dnat plan ''udp''))"
  obtain w' where run: "ensure_docker_iptables_rules h b plan w = Some (Inr (), w')" and same: "same_filter nf w w'"
    and chains: "nf_chains nf w' = docker_chains nf plan rs ns (nf_chains nf w)"
    using docker_rules_run [OF assms] by blast
  let ?rs = "?f @ without ?f rs" and ?ns = "[?t, ?u] @ without [?u, ?t] ns"
  have valid: "docker_valid nf plan w'"
    using assms(4) same unfolding docker_valid_def by (blast intro: same_filter_valid)
  have c: "nf_chains nf w' (Inet, ''filter'', ''DOCKER-USER'') = Some ?rs" "nf_chains nf w' (Inet, ''nat'', ''PREROUTING'') = Some ?ns"
    unfolding chains docker_chains_def by simp_all
  obtain w'' where run': "ensure_docker_iptables_rules h b plan w' = Some (Inr (), w'')"
    and chains': "nf_chains nf w'' = docker_chains nf plan ?rs ?ns (nf_chains nf w')"
    using docker_rules_run [OF assms(1-3) valid c] by blast
  have "without [?u, ?t] ?ns = without [?u, ?t] ns" by (simp add: without_def)
  then have "docker_chains nf plan ?rs ?ns (nf_chains nf w') = docker_chains nf plan rs ns (nf_chains nf w)"
    unfolding chains docker_chains_def without_idem by (simp add: fun_eq_iff)
  then show ?thesis using run run' chains' chains by auto
qed

theorem docker_rules_idempotent_witness:
  "\<exists>w' w''. ensure_docker_iptables_rules sample_filter_host ''/usr/sbin/iptables'' sample_plan sample_world = Some (Inr (), w') \<and>
     ensure_docker_iptables_rules sample_filter_host ''/usr/sbin/iptables'' sample_plan w' = Some (Inr (), w'') \<and> w'' = w'"
  using docker_rules_idempotent [OF sample_iptables_laws sample_match_laws sample_binaries(1) sample_docker_hyps(1)
      sample_docker_hyps(3) sample_docker_hyps(4)] by simp

text \<open>
  C29: The deletion loop ends. Whatever the length of a chain and however many copies of a rule it holds,
  \<^verbatim>\<open>remove_rule_all\<close> returns, and the chain afterwards holds the other rules in their order and no
  copy of the rule.
\<close>

theorem remove_rule_all_terminates:
  assumes "iptables_laws h nf" and "iptables_binary b"
    and "nf_valid nf w (family_of b, t, ch) spec" and "nf_chains nf w (family_of b, t, ch) = Some rs"
  shows "\<exists>w'. remove_rule_all h b (table_args t @ ''-D'' # ch # spec) w = Some (Inr (), w') \<and>
     nf_chains nf w' = (nf_chains nf w)((family_of b, t, ch) \<mapsto> filter (\<lambda>r. r \<noteq> nf_rule nf spec) rs)"
  using remove_rule_all_runs [OF assms refl] by (auto simp: removeAll_filter_not_eq) (metis (mono_tags, lifting) filter_cong)

theorem remove_rule_all_terminates_witness:
  "\<exists>w'. remove_rule_all sample_filter_host ''/usr/sbin/iptables'' [''-D'', ''INPUT'', ''-j'', ''DROP'']
      [(Inet, ''filter'', ''INPUT'') \<mapsto> [[''-j'', ''DROP''], [''-j'', ''ACCEPT''], [''-j'', ''DROP'']]] = Some (Inr (), w') \<and>
     w' (Inet, ''filter'', ''INPUT'') = Some [[''-j'', ''ACCEPT'']]"
proof -
  let ?w = "[(Inet, ''filter'', ''INPUT'') \<mapsto> [[''-j'', ''DROP''], [''-j'', ''ACCEPT''], [''-j'', ''DROP'']]] :: filter_world"
  have b: "iptables_binary ''/usr/sbin/iptables''" and f: "family_of ''/usr/sbin/iptables'' = Inet"
    using family_iptables [OF sample_binaries(1)] by simp_all
  have "nf_chains sample_filter ?w (family_of ''/usr/sbin/iptables'', ''filter'', ''INPUT'') =
      Some [[''-j'', ''DROP''], [''-j'', ''ACCEPT''], [''-j'', ''DROP'']]" by (simp add: f)
  from remove_rule_all_terminates [OF sample_iptables_laws b _ this, of "[''-j'', ''DROP'']"]
  show ?thesis by (auto simp: f table_args_def)
qed

end
