(* ===== verification/Helper_Prepare.thy ===== *)
theory Helper_Prepare
  imports Helper_Plan Helper_Alloc Control Firewall
begin

text \<open>
  Preparing a network (\<^verbatim>\<open>src/src/helper.rs\<close>, from \<^verbatim>\<open>prepare_network\<close> to \<^verbatim>\<open>ensure_host_root\<close>, and the ipset
  and Docker commands): the complete sequences of commands, retries and messages.
\<close>

section \<open>Model\<close>

subsection \<open>Kernel sets and Docker networks\<close>

definition destroy_ipsets :: "'w host \<Rightarrow> string \<Rightarrow> string \<Rightarrow> ('w, unit) cmd" where
  "destroy_ipsets h binary name = seqc
     (map (\<lambda>n. bindc (attempt (run_command_allow_failure h binary [''destroy'', n])) (\<lambda>_. ret ()))
        [name, ipv6_ipset_name name])"

definition create_ipset :: "'w host \<Rightarrow> string \<Rightarrow> string \<Rightarrow> string \<Rightarrow> ('w, unit) cmd" where
  "create_ipset h binary name family =
     bindc (run_command_allow_failure h binary
       [''create'', name, ''hash:ip'', ''family'', family, ''maxelem'', ''1000000000'', ''-exist'']) (\<lambda>result.
     if status_success result then ret ()
     else
       let tmp_name = name @ ''-tmp'' in
       bindc (attempt (run_command_allow_failure h binary [''destroy'', tmp_name])) (\<lambda>_.
       bindc (run_command_checked h binary
         [''create'', tmp_name, ''hash:ip'', ''family'', family, ''maxelem'', ''1000000000'']) (\<lambda>_.
       bindc (run_command_allow_failure h binary [''swap'', name, tmp_name]) (\<lambda>swap_result.
       bindc (if status_success swap_result
              then run_command_checked h binary [''destroy'', tmp_name]
              else run_command_checked h binary [''rename'', tmp_name, name]) (\<lambda>_. ret ())))))"

definition create_ipsets :: "'w host \<Rightarrow> string \<Rightarrow> string \<Rightarrow> ('w, unit) cmd" where
  "create_ipsets h binary name =
     bindc (create_ipset h binary name ''inet'') (\<lambda>_. create_ipset h binary (ipv6_ipset_name name) ''inet6'')"

definition remove_docker_network :: "'w host \<Rightarrow> string \<Rightarrow> string \<Rightarrow> ('w, unit) cmd" where
  "remove_docker_network h binary name =
     bindc (attempt (run_command_allow_failure h binary [''network'', ''rm'', name])) (\<lambda>_. ret ())"

definition create_docker_network :: "'w host \<Rightarrow> string \<Rightarrow> network_plan \<Rightarrow> ('w, unit) cmd" where
  "create_docker_network h binary plan =
     bindc (run_command_checked h binary
       [''network'', ''create'', ''--driver'', ''bridge'', ''--subnet'', plan_subnet plan,
        ''--ip-range'', plan_subnet plan, ''--gateway'', plan_gateway plan, plan_name plan]) (\<lambda>_. ret ())"

definition setup_docker_resources :: "'w host \<Rightarrow> network_plan \<Rightarrow> ('w, unit) cmd" where
  "setup_docker_resources h plan =
     bindc (resolve_binary h IPSET_CANDIDATES) (\<lambda>ipset_binary.
     bindc (resolve_binary h DOCKER_CANDIDATES) (\<lambda>docker_binary.
     bindc (resolve_binary h IPTABLES_CANDIDATES) (\<lambda>iptables_binary.
     bindc (destroy_ipsets h ipset_binary (plan_name plan)) (\<lambda>_.
     bindc (create_ipsets h ipset_binary (plan_name plan)) (\<lambda>_.
     bindc (remove_docker_network h docker_binary (plan_name plan)) (\<lambda>_.
     bindc (create_docker_network h docker_binary plan) (\<lambda>_.
       ensure_docker_iptables_rules h iptables_binary plan)))))))"

text \<open>The loop over the attempts; the last error is what the caller sees when all of them failed.\<close>

fun docker_attempts ::
  "'w host \<Rightarrow> string \<Rightarrow> string list \<Rightarrow> u16 \<Rightarrow> nat list \<Rightarrow> error option \<Rightarrow> ('w, unit) cmd" where
  "docker_attempts h name domain_patterns dns_port [] last_err =
     fail (case last_err of Some err \<Rightarrow> err | None \<Rightarrow> Msg ''failed to allocate network after 50 attempts'')"
| "docker_attempts h name domain_patterns dns_port (att # rest) last_err =
     (let plan = network_plan_new name dns_port (of_nat att) in
      bindc (attempt (setup_docker_resources h plan)) (\<lambda>r.
        case r of
          Inr _ \<Rightarrow> send_create h name (Some (plan_subnet plan)) domain_patterns
        | Inl err \<Rightarrow>
            bindc (sys_eprintln h (''network setup attempt '' @ show_nat att @ '' failed: '' @ error_text err @ '', retrying...'')) (\<lambda>_.
            bindc (sys_sleep h 100) (\<lambda>_.
              docker_attempts h name domain_patterns dns_port rest (Some err)))))"

definition prepare_docker_network :: "'w host \<Rightarrow> string \<Rightarrow> string list \<Rightarrow> ('w, unit) cmd" where
  "prepare_docker_network h name domain_patterns =
     bindc (get_dns_port h) (\<lambda>dns_port. docker_attempts h name domain_patterns dns_port [0..<50] None)"

subsection \<open>Rootless Podman\<close>

definition ensure_rootless_dns_alias :: "'w host \<Rightarrow> string \<Rightarrow> ('w, unit) cmd" where
  "ensure_rootless_dns_alias h ip_binary =
     bindc (run_command_checked h ip_binary [''addr'', ''replace'', ROOTLESS_DNS_CIDR, ''dev'', ''lo'']) (\<lambda>_. ret ())"

definition daemon_command :: "string \<Rightarrow> command" where
  "daemon_command executable =
     \<lparr>program = executable, cmd_args = [''daemon''], env_cleared = True, working_dir = ''/'',
      cmd_stdin = StdioNull, cmd_stdout = StdioNull, cmd_stderr = StdioNull, kill_on_drop = False\<rparr>"

fun wait_for_daemon :: "'w host \<Rightarrow> nat \<Rightarrow> ('w, u16) cmd" where
  "wait_for_daemon h 0 = fail (Msg ''external host Dockerwall daemon did not become ready'')"
| "wait_for_daemon h (Suc n) =
     bindc (attempt (get_dns_port h)) (\<lambda>r.
       case r of
         Inr port \<Rightarrow> ret port
       | Inl _ \<Rightarrow> bindc (sys_sleep h 100) (\<lambda>_. wait_for_daemon h n))"

definition ensure_rootless_dns_daemon :: "'w host \<Rightarrow> ('w, u16) cmd" where
  "ensure_rootless_dns_daemon h =
     bindc (attempt (get_dns_port h)) (\<lambda>r.
       case r of
         Inr port \<Rightarrow> ret port
       | Inl _ \<Rightarrow>
           bindc (sys_current_exe h) (\<lambda>executable.
           bindc (sys_spawn h (daemon_command executable)) (\<lambda>child.
           bindc (lift_result (ok_or (Msg ''could not determine external daemon PID'') child)) (\<lambda>pid.
           bindc (sys_println h (''started external host Dockerwall daemon (pid '' @ show_nat pid @ '')'')) (\<lambda>_.
             wait_for_daemon h 50)))))"

definition nth_field :: "nat \<Rightarrow> string \<Rightarrow> string option" where
  "nth_field n line = (let fs = split_whitespace line in if n < length fs then Some (fs ! n) else None)"

definition effective_uid :: "string \<Rightarrow> string result" where
  "effective_uid status =
     (case find (\<lambda>line. starts_with line ''Uid:'') (lines status) of
        None \<Rightarrow> Inl (Msg ''could not determine effective UID'')
      | Some uid_line \<Rightarrow> ok_or (Msg ''could not determine effective UID'') (nth_field 2 uid_line))"

definition host_uid :: "string \<Rightarrow> string result" where
  "host_uid uid_map =
     (case lines uid_map of
        [] \<Rightarrow> Inl (Msg ''could not determine host UID mapping'')
      | line # _ \<Rightarrow> ok_or (Msg ''could not determine host UID mapping'') (nth_field 1 line))"

definition ensure_host_root :: "'w host \<Rightarrow> ('w, unit) cmd" where
  "ensure_host_root h =
     bindc (sys_read_file h ''/proc/self/status'') (\<lambda>status.
     bindc (lift_result (effective_uid status)) (\<lambda>uid.
       if uid \<noteq> ''0'' then fail (Msg ''rootless Podman preparation must run as host root'')
       else
         bindc (sys_read_file h ''/proc/self/uid_map'') (\<lambda>uid_map.
         bindc (lift_result (host_uid uid_map)) (\<lambda>huid.
           if huid \<noteq> ''0''
           then fail (Msg ''rootless Podman preparation must run as host root, not a user namespace root'')
           else ret ()))))"

definition podman_messages :: "'w host \<Rightarrow> u32 \<Rightarrow> u128 option \<Rightarrow> string \<Rightarrow> ('w, unit) cmd" where
  "podman_messages h source_ip source_ipv6 interface = seqc
     ([sys_println h (''rootless Podman source IP: '' @ show_ipv4 source_ip),
       sys_println h (''rootless Podman interface: '' @ interface)] @
      (case source_ipv6 of
         Some v6 \<Rightarrow>
           [sys_println h (''rootless Podman source IPv6: '' @ show_ipv6 v6),
            sys_println h (''podman run --network pasta:--outbound,'' @ show_ipv4 source_ip @ '',--address,'' @
              show_ipv6 v6 @ '',--outbound,'' @ show_ipv6 v6 @ '' --dns '' @ show_ipv4 ROOTLESS_DNS_IP @
              '' <image> <command>'')]
       | None \<Rightarrow>
           [sys_println h (''rootless Podman IPv6 unavailable: no global /64 on '' @ interface),
            sys_println h (''podman run --network pasta:--outbound,'' @ show_ipv4 source_ip @ '' --dns '' @
              show_ipv4 ROOTLESS_DNS_IP @ '' <image> <command>'')]))"

definition prepare_rootless_podman_network ::
  "'w host \<Rightarrow> string \<Rightarrow> string list \<Rightarrow> string option \<Rightarrow> ('w, unit) cmd" where
  "prepare_rootless_podman_network h name domain_patterns requested_interface =
     bindc (ensure_host_root h) (\<lambda>_.
     bindc (resolve_binary h IP_CANDIDATES) (\<lambda>ip_binary.
     bindc (ensure_rootless_dns_alias h ip_binary) (\<lambda>_.
     bindc (ensure_rootless_dns_daemon h) (\<lambda>dns_port.
     bindc (case requested_interface of
              Some interface \<Rightarrow> lift_result (validate_interface_name interface)
            | None \<Rightarrow> default_route_interface h) (\<lambda>interface.
     bindc (resolve_binary h IPSET_CANDIDATES) (\<lambda>ipset_binary.
     bindc (resolve_binary h IPTABLES_CANDIDATES) (\<lambda>iptables_binary.
     bindc (resolve_binary h IP6TABLES_CANDIDATES) (\<lambda>ip6tables_binary.
     bindc (allocate_rootless_podman_source_ip h iptables_binary ip_binary name) (\<lambda>source_ip.
     let source_cidr = show_ipv4 source_ip @ ''/32'' in
     bindc (allocate_rootless_podman_source_ipv6 h ip6tables_binary ip_binary interface name) (\<lambda>source_ipv6.
     let source_ipv6_cidr = map_option (\<lambda>v6. show_ipv6 v6 @ ''/128'') source_ipv6 in
     bindc (run_command_checked h ip_binary [''addr'', ''replace'', source_cidr, ''dev'', interface]) (\<lambda>_.
     bindc (case source_ipv6 of
              Some v6 \<Rightarrow> configure_rootless_podman_source_ipv6 h ip_binary interface v6
            | None \<Rightarrow> ret ()) (\<lambda>_.
     bindc (destroy_ipsets h ipset_binary name) (\<lambda>_.
     bindc (create_ipsets h ipset_binary name) (\<lambda>_.
     bindc (ensure_rootless_podman_rules h iptables_binary ip6tables_binary name source_cidr
              source_ipv6_cidr interface dns_port) (\<lambda>_.
     bindc (send_create h name (Some source_cidr) domain_patterns) (\<lambda>_.
       podman_messages h source_ip source_ipv6 interface))))))))))))))))"

datatype container_runtime = Docker | Podman

definition prepare_network ::
  "'w host \<Rightarrow> string \<Rightarrow> string list \<Rightarrow> container_runtime \<Rightarrow> string option \<Rightarrow> ('w, unit) cmd" where
  "prepare_network h name domain_patterns runtime interface =
     (case runtime of
        Docker \<Rightarrow>
          if interface \<noteq> None then fail (Msg ''--interface is only valid with --runtime podman'')
          else prepare_docker_network h name domain_patterns
      | Podman \<Rightarrow> prepare_rootless_podman_network h name domain_patterns interface)"

section \<open>Laws\<close>

subsection \<open>Who may prepare\<close>

definition host_root :: "'w host \<Rightarrow> 'w \<Rightarrow> bool" where
  "host_root h w \<longleftrightarrow>
     (\<exists>status uid_map. host_read_file h ''/proc/self/status'' w = Inr status \<and> effective_uid status = Inr ''0'' \<and>
        host_read_file h ''/proc/self/uid_map'' w = Inr uid_map \<and> host_uid uid_map = Inr ''0'')"

lemma ensure_host_root_result:
  "if host_root h w then ensure_host_root h w = Some (Inr (), w) else \<exists>e. ensure_host_root h w = Some (Inl e, w)"
  by (auto simp: ensure_host_root_def host_root_def bindc_def sys_read_file_def lift_result_def fail_def ret_def
      split: sum.splits)

subsection \<open>Waiting for the daemon\<close>

text \<open>The answer of one request for the port, and the world after a number of failed ones.\<close>

definition port_at :: "'w host \<Rightarrow> 'w \<Rightarrow> u16 result" where
  "port_at h w =
     (case fst (host_exchange h (Some 1) (''INFO'' @ [newline]) w) of
        Inl e \<Rightarrow> Inl e
      | Inr response \<Rightarrow> info_response response)"

definition asked :: "'w host \<Rightarrow> 'w \<Rightarrow> 'w" where
  "asked h w = snd (host_exchange h (Some 1) (''INFO'' @ [newline]) w)"

fun after_tries :: "'w host \<Rightarrow> nat \<Rightarrow> 'w \<Rightarrow> 'w" where
  "after_tries h 0 w = w"
| "after_tries h (Suc n) w = after_tries h n (host_sleep h 100 (asked h w))"

lemma get_dns_port_eq: "get_dns_port h w = Some (port_at h w, asked h w)"
  by (auto simp: get_dns_port_def bindc_def sys_exchange_def port_at_def asked_def lift_result_def split: prod.splits sum.splits)

lemma wait_for_daemon_ready:
  assumes "k < n" and "\<And>j. j < k \<Longrightarrow> \<exists>e. port_at h (after_tries h j w) = Inl e" and "port_at h (after_tries h k w) = Inr port"
  shows "wait_for_daemon h n w = Some (Inr port, asked h (after_tries h k w))"
  using assms
proof (induction n arbitrary: k w)
  case (Suc n)
  show ?case
  proof (cases k)
    case 0
    then show ?thesis using Suc.prems by (simp add: bindc_def attempt_def get_dns_port_eq ret_def)
  next
    case (Suc k')
    obtain e where e: "port_at h w = Inl e" using Suc.prems(2) [of 0] Suc by auto
    have "\<And>j. j < k' \<Longrightarrow> \<exists>e. port_at h (after_tries h j (host_sleep h 100 (asked h w))) = Inl e"
      using Suc.prems(2) [of "Suc _"] Suc by auto
    then have "wait_for_daemon h n (host_sleep h 100 (asked h w)) =
        Some (Inr port, asked h (after_tries h k' (host_sleep h 100 (asked h w))))"
      using Suc.prems(1,3) Suc by (intro Suc.IH) auto
    then show ?thesis using e Suc by (simp add: bindc_def attempt_def get_dns_port_eq sys_sleep_def)
  qed
qed simp

lemma wait_for_daemon_silent:
  "(\<And>j. j < n \<Longrightarrow> \<exists>e. port_at h (after_tries h j w) = Inl e) \<Longrightarrow>
     wait_for_daemon h n w = Some (Inl (Msg ''external host Dockerwall daemon did not become ready''), after_tries h n w)"
proof (induction n arbitrary: w)
  case 0
  then show ?case by (simp add: fail_def)
next
  case (Suc n)
  obtain e where "port_at h w = Inl e" using Suc.prems [of 0] by auto
  moreover have "wait_for_daemon h n (host_sleep h 100 (asked h w)) =
      Some (Inl (Msg ''external host Dockerwall daemon did not become ready''), after_tries h n (host_sleep h 100 (asked h w)))"
    using Suc.prems [of "Suc _"] by (intro Suc.IH) auto
  ultimately show ?case by (simp add: bindc_def attempt_def get_dns_port_eq sys_sleep_def)
qed

subsection \<open>Attempts\<close>

lemma docker_attempts_error:
  assumes "docker_attempts h name domains port atts last_err w = Some (Inl e, w')" and "atts \<noteq> []"
  shows "(\<exists>k \<in> set atts. \<exists>v v'. setup_docker_resources h (network_plan_new name port (of_nat k)) v = Some (Inr (), v') \<and>
       send_create h name (Some (plan_subnet (network_plan_new name port (of_nat k)))) domains v' = Some (Inl e, w')) \<or>
     (\<exists>v v'. setup_docker_resources h (network_plan_new name port (of_nat (last atts))) v = Some (Inl e, v'))"
  using assms
proof (induction atts arbitrary: last_err w)
  case (Cons k ks)
  let ?plan = "network_plan_new name port (of_nat k)"
  obtain r v where r: "setup_docker_resources h ?plan w = Some (r, v)"
    using Cons.prems(1) by (auto simp: Let_def bindc_def attempt_def split: option.splits)
  show ?case
  proof (cases r)
    case (Inl e')
    let ?v = "host_sleep h 100 (host_eprintln h (''network setup attempt '' @ show_nat k @ '' failed: '' @ error_text e' @ '', retrying...'') v)"
    have rest: "docker_attempts h name domains port ks (Some e') ?v = Some (Inl e, w')"
      using Cons.prems(1) r Inl by (simp add: Let_def bindc_def attempt_def sys_eprintln_def sys_sleep_def)
    show ?thesis
    proof (cases "ks = []")
      case True
      then show ?thesis using rest r Inl by (auto simp: fail_def)
    next
      case False
      then show ?thesis using Cons.IH [OF rest] by auto
    qed
  next
    case (Inr u)
    then show ?thesis using Cons.prems(1) r by (auto simp: Let_def bindc_def attempt_def)
  qed
qed simp

section \<open>Properties\<close>



text \<open>
  C23: A daemon that was started is waited for: when no daemon answers at first and starting one succeeds, and
  the daemon answers one of the fifty requests that follow at intervals of 100 milliseconds,
  \<^verbatim>\<open>ensure_rootless_dns_daemon\<close> returns the port of the first answer; if none of the fifty is answered it
  returns an error. In both cases it returns.
\<close>

theorem ensure_rootless_dns_daemon_waits:
  assumes "port_at h w = Inl e0" and "host_current_exe h (asked h w) = Inr executable"
    and "host_spawn h (daemon_command executable) (asked h w) = (Inr (Some pid), w1)"
    and "w2 = host_println h (''started external host Dockerwall daemon (pid '' @ show_nat pid @ '')'') w1"
  shows "(\<forall>k port. k < 50 \<longrightarrow> (\<forall>j < k. \<exists>e. port_at h (after_tries h j w2) = Inl e) \<longrightarrow>
        port_at h (after_tries h k w2) = Inr port \<longrightarrow>
        ensure_rootless_dns_daemon h w = Some (Inr port, asked h (after_tries h k w2))) \<and>
     ((\<forall>j < 50. \<exists>e. port_at h (after_tries h j w2) = Inl e) \<longrightarrow>
        ensure_rootless_dns_daemon h w =
          Some (Inl (Msg ''external host Dockerwall daemon did not become ready''), after_tries h 50 w2))"
proof -
  have "ensure_rootless_dns_daemon h w = wait_for_daemon h 50 w2"
    using assms by (simp add: ensure_rootless_dns_daemon_def bindc_def attempt_def get_dns_port_eq sys_current_exe_def
        sys_spawn_def lift_result_def sys_println_def del: wait_for_daemon.simps)
  then show ?thesis using wait_for_daemon_ready [of _ 50 h w2] wait_for_daemon_silent [of 50 h w2] by metis
qed

text \<open>A machine on which the daemon answers from the third second on; the world is the time in tenths of seconds.\<close>

definition slow_host :: "nat host" where
  "slow_host =
     \<lparr>host_output = (\<lambda>c w. (Inl (IoError ''no such process''), w)),
      host_output_stdin = (\<lambda>c input w. (Inl (IoError ''no such process''), w)),
      host_spawn = (\<lambda>c w. (Inr (Some 42), w)),
      host_metadata = (\<lambda>path w. None),
      host_read_file = (\<lambda>path w. Inl (IoError ''no such file'')),
      host_current_exe = (\<lambda>w. Inr ''/usr/bin/dockerwall''),
      host_exchange = (\<lambda>limit payload w.
        (if w < 3 then Inl (IoError ''refused'') else Inr (''OK'' @ [tab] @ ''5353'' @ [newline]), w)),
      host_sleep = (\<lambda>ms w. w + ms div 100),
      host_println = (\<lambda>line w. w),
      host_eprintln = (\<lambda>line w. w)\<rparr>"

theorem ensure_rootless_dns_daemon_waits_witness:
  "ensure_rootless_dns_daemon slow_host 0 = Some (Inr 5353, 3)"
proof -
  have "port_at slow_host 0 = Inl (IoError ''refused'')" "host_current_exe slow_host (asked slow_host 0) = Inr ''/usr/bin/dockerwall''"
    "host_spawn slow_host (daemon_command ''/usr/bin/dockerwall'') (asked slow_host 0) = (Inr (Some 42), 0)"
    "0 = host_println slow_host (''started external host Dockerwall daemon (pid '' @ show_nat 42 @ '')'') 0"
    by (simp_all add: port_at_def asked_def slow_host_def)
  note all = ensure_rootless_dns_daemon_waits [OF this, THEN conjunct1]
  have tries: "after_tries slow_host j 0 = j" for j
  proof -
    have "after_tries slow_host j w = w + j" for w by (induction j arbitrary: w) (simp_all add: asked_def slow_host_def)
    then show ?thesis by simp
  qed
  have "port_at slow_host 3 = Inr 5353" by code_simp
  moreover have "\<forall>j < 3. \<exists>e. port_at slow_host j = Inl e" by (simp add: port_at_def slow_host_def)
  ultimately show ?thesis using all [THEN spec, of 3, THEN spec, of 5353] by (simp add: tries) (simp add: asked_def slow_host_def)
qed

text \<open>
  A failed Docker preparation reports what went wrong: when the fifty attempts end with an error, it is
  the error of the last attempt, or some attempt set everything up and it is the error of the request to
  the daemon.
\<close>

theorem prepare_docker_error:
  assumes "docker_attempts h name domains port [0..<50] None w = Some (Inl e, w')"
  shows "(\<exists>k < 50. \<exists>v v'. setup_docker_resources h (network_plan_new name port (of_nat k)) v = Some (Inr (), v') \<and>
       send_create h name (Some (plan_subnet (network_plan_new name port (of_nat k)))) domains v' = Some (Inl e, w')) \<or>
     (\<exists>v v'. setup_docker_resources h (network_plan_new name port 49) v = Some (Inl e, v'))"
proof -
  have "last [0..<50] = (49 :: nat)" "(of_nat 49 :: u32) = 49" "[0..<50] \<noteq> ([] :: nat list)" by (simp_all add: last_upt)
  then show ?thesis using docker_attempts_error [OF assms] by (metis atLeastLessThan_iff set_upt)
qed

lemma loop_host_attempts:
  "docker_attempts (loop_host port) name domains dns_port (k # ks) last_err w =
     Some (Inl (Msg ''trusted binary not found''), w)"
proof (induction ks arbitrary: k last_err)
  have none: "find (trusted_in (loop_host port) w) cs = None" for cs
    by (simp add: find_None_iff trusted_in_def loop_host_def)
  have missing: "setup_docker_resources (loop_host port) plan w = Some (Inl (Msg ''trusted binary not found''), w)" for plan
    unfolding setup_docker_resources_def by (simp add: bindc_def resolve_binary_eq none)
  have quiet: "host_sleep (loop_host port) ms v = v" "host_eprintln (loop_host port) line v = v" for ms line v
    by (simp_all add: loop_host_def)
  {
    case Nil
    then show ?case by (simp add: Let_def bindc_def attempt_def missing sys_eprintln_def sys_sleep_def quiet fail_def)
  next
    case (Cons k' ks)
    then show ?case
      by (subst docker_attempts.simps)
        (simp add: Let_def bindc_def attempt_def missing sys_eprintln_def sys_sleep_def quiet del: docker_attempts.simps)
  }
qed

theorem prepare_docker_error_witness:
  "\<exists>v v'. setup_docker_resources (loop_host 53) (network_plan_new ''web'' 53 49) v = Some (Inl (Msg ''trusted binary not found''), v') \<or>
     (\<exists>k < 50. send_create (loop_host 53) ''web'' (Some (plan_subnet (network_plan_new ''web'' 53 (of_nat k)))) [] v =
        Some (Inl (Msg ''trusted binary not found''), v'))"
proof -
  have "[0..<50] = 0 # [1..<50 :: nat]" by (simp add: upt_conv_Cons)
  then have "docker_attempts (loop_host 53) ''web'' [] 53 [0..<50] None (init_daemon, []) =
      Some (Inl (Msg ''trusted binary not found''), init_daemon, [])"
    by (simp only: loop_host_attempts)
  from prepare_docker_error [OF this] show ?thesis by blast
qed

end
