(* ===== verification/Helper_Confine.thy ===== *)
theory Helper_Confine
  imports Helper_Prepare
begin

text \<open>
  What \<^verbatim>\<open>prepare_network\<close> may do to the system. Every program it starts was found trusted, is one of
  the candidate paths and runs with an empty environment in the root directory: so every property of
  the system that such commands keep is kept by the whole preparation, on every path through it.
\<close>

lemma findSomeD: "find p xs = Some x \<Longrightarrow> x \<in> set xs \<and> p x"
  by (auto simp: find_Some_iff)

section \<open>Permitted commands\<close>

definition helper_candidates :: "string set" where
  "helper_candidates = set (IPSET_CANDIDATES @ DOCKER_CANDIDATES @ IPTABLES_CANDIDATES @
     IP6TABLES_CANDIDATES @ IP_CANDIDATES)"

text \<open>
  A helper command whose program was trusted in some state of the system that satisfies \<open>I\<close>, or the
  program itself started as a daemon.
\<close>

definition permitted :: "'w host \<Rightarrow> ('w \<Rightarrow> bool) \<Rightarrow> command \<Rightarrow> bool" where
  "permitted h I c \<longleftrightarrow>
     (\<exists>b args w. c = helper_command b args \<and> b \<in> helper_candidates \<and> I w \<and> trusted_in h w b) \<or>
     (\<exists>e w. c = daemon_command e \<and> I w \<and> host_current_exe h w = Inr e)"

text \<open>
  \<open>I\<close> survives the permitted commands, the exchanges with the daemon, waiting and printing.
\<close>

definition confined :: "'w host \<Rightarrow> ('w \<Rightarrow> bool) \<Rightarrow> bool" where
  "confined h I \<longleftrightarrow>
     (\<forall>c w. permitted h I c \<longrightarrow> I w \<longrightarrow> I (snd (host_output h c w)) \<and> I (snd (host_spawn h c w))) \<and>
     (\<forall>limit payload w. I w \<longrightarrow> I (snd (host_exchange h limit payload w))) \<and>
     (\<forall>ms w. I w \<longrightarrow> I (host_sleep h ms w)) \<and>
     (\<forall>line w. I w \<longrightarrow> I (host_println h line w) \<and> I (host_eprintln h line w))"

definition vetted :: "'w host \<Rightarrow> ('w \<Rightarrow> bool) \<Rightarrow> string \<Rightarrow> bool" where
  "vetted h I b \<longleftrightarrow> b \<in> helper_candidates \<and> (\<exists>w. I w \<and> trusted_in h w b)"

locale confinement =
  fixes h :: "'w host" and I :: "'w \<Rightarrow> bool"
  assumes confined: "confined h I"
begin

lemma keeps_output: "permitted h I c \<Longrightarrow> keeps I (sys_output h c)"
  using confined by (intro keeps_call [OF sys_output_def]) (simp add: confined_def)

lemma keeps_spawn: "permitted h I c \<Longrightarrow> keeps I (sys_spawn h c)"
  using confined by (intro keeps_call [OF sys_spawn_def]) (simp add: confined_def)

lemma keeps_exchange: "keeps I (sys_exchange h limit payload)"
  using confined by (intro keeps_call [OF sys_exchange_def]) (simp add: confined_def)

lemma keeps_sys:
  "keeps I (sys_sleep h ms)" "keeps I (sys_println h line)" "keeps I (sys_eprintln h line)"
  "keeps I (sys_read_file h path)" "keeps I (sys_current_exe h)"
  using confined
  by (auto simp: keeps_def sys_defs confined_def)

lemma keeps_run: "vetted h I b \<Longrightarrow> keeps I (run_command_allow_failure h b args)"
  unfolding run_command_allow_failure_def
  by (rule keeps_output) (auto simp: permitted_def vetted_def)

lemma keeps_checked: "vetted h I b \<Longrightarrow> keeps I (run_command_checked h b args)"
  unfolding run_command_checked_def by (intro keeps_intros keeps_run)

lemma keeps_resolved:
  assumes "set cs \<subseteq> helper_candidates" and "\<And>b. vetted h I b \<Longrightarrow> keeps I (f b)"
  shows "keeps I (bindc (resolve_binary h cs) f)"
proof (rule keepsI)
  fix w r w' assume "I w" and "bindc (resolve_binary h cs) f w = Some (r, w')"
  then consider "w' = w" | b where "b \<in> set cs" and "trusted_in h w b" and "f b w = Some (r, w')"
    by (cases "find (trusted_in h w) cs") (auto simp: bindc_def resolve_binary_eq dest: findSomeD)
  then show "I w'"
  proof cases
    case 2
    then have "vetted h I b" using assms(1) \<open>I w\<close> by (auto simp: vetted_def)
    then show ?thesis using assms(2) 2(3) \<open>I w\<close> by (blast dest: keepsD)
  qed (use \<open>I w\<close> in simp)
qed

lemma keeps_ensure_rule: "vetted h I b \<Longrightarrow> keeps I (ensure_rule_present h b args)"
  unfolding ensure_rule_present_def by (intro keeps_intros keeps_remove_rule_all keeps_run keeps_checked)

lemma keeps_ensure_chain: "vetted h I b \<Longrightarrow> keeps I (ensure_chain h b name)"
  unfolding ensure_chain_def by (intro keeps_intros keeps_run)

lemmas keeps_steps = keeps_run keeps_checked keeps_ensure_rule keeps_ensure_chain keeps_sys keeps_exchange

lemma keeps_docker_rules: "vetted h I b \<Longrightarrow> keeps I (ensure_docker_iptables_rules h b plan)"
  unfolding ensure_docker_iptables_rules_def
  by (rule keeps_seqc) (auto intro: keeps_ensure_rule)

lemma keeps_podman_filter: "vetted h I b \<Longrightarrow> keeps I (podman_filter_rules h b name source port)"
  unfolding podman_filter_rules_def Let_def
  by (rule keeps_seqc) (auto intro: keeps_ensure_rule keeps_ensure_chain)

lemma keeps_redirects: "vetted h I b \<Longrightarrow> keeps I (ensure_rootless_dns_redirects h b name source port)"
  unfolding ensure_rootless_dns_redirects_def
  by (rule keeps_seqc) (auto intro: keeps_ensure_rule)

lemma keeps_podman_ipv6: "vetted h I b \<Longrightarrow> keeps I (ensure_rootless_podman_ipv6_rules h b name source)"
  unfolding ensure_rootless_podman_ipv6_rules_def
  by (rule keeps_seqc) (auto intro: keeps_ensure_rule keeps_ensure_chain)

lemma keeps_podman_rules:
  assumes "vetted h I b" and "vetted h I b6"
  shows "keeps I (ensure_rootless_podman_rules h b b6 name source source6 interface port)"
  unfolding ensure_rootless_podman_rules_def
  using assms
  by (intro keeps_seqc)
    (auto intro: keeps_ensure_rule keeps_podman_filter keeps_redirects keeps_podman_ipv6 keeps_ret split: option.splits)

lemma keeps_scan4: "vetted h I b \<Longrightarrow> keeps I (scan_source_ips h b name rules atts)"
  by (induction atts) (simp_all add: Let_def show_to_def keeps_intros keeps_checked)

lemma keeps_scan6: "vetted h I b \<Longrightarrow> keeps I (scan_source_ipv6s h b pfx name atts)"
  by (induction atts) (simp_all add: Let_def show_to_def keeps_intros keeps_checked)

lemma keeps_allocate4:
  "vetted h I b \<Longrightarrow> vetted h I ip \<Longrightarrow> keeps I (allocate_rootless_podman_source_ip h b ip name)"
  unfolding allocate_rootless_podman_source_ip_def Let_def
  by (intro keeps_intros keeps_checked keeps_scan4)

lemma keeps_allocate6:
  "vetted h I b \<Longrightarrow> vetted h I ip \<Longrightarrow> keeps I (allocate_rootless_podman_source_ipv6 h b ip interface name)"
  unfolding allocate_rootless_podman_source_ipv6_def rootless_podman_ipv6_prefix_def Let_def
  by (intro keeps_intros keeps_checked keeps_scan6)

lemma keeps_configure6: "vetted h I ip \<Longrightarrow> keeps I (configure_rootless_podman_source_ipv6 h ip interface a)"
  unfolding configure_rootless_podman_source_ipv6_def by (intro keeps_intros keeps_checked)

lemma keeps_client:
  "keeps I (get_dns_port h)" "keeps I (send_create h name subnet domains)"
  unfolding get_dns_port_def send_create_def send_control_command_def
  by (intro keeps_intros keeps_sys keeps_exchange)+

lemma keeps_destroy: "vetted h I b \<Longrightarrow> keeps I (destroy_ipsets h b name)"
  unfolding destroy_ipsets_def by (rule keeps_seqc) (auto intro!: keeps_intros keeps_run)

lemma keeps_create_one: "vetted h I b \<Longrightarrow> keeps I (create_ipset h b name family)"
  unfolding create_ipset_def Let_def by (intro keeps_intros keeps_run keeps_checked)

lemma keeps_create: "vetted h I b \<Longrightarrow> keeps I (create_ipsets h b name)"
  unfolding create_ipsets_def by (intro keeps_intros keeps_create_one)

lemma keeps_docker_network:
  "vetted h I b \<Longrightarrow> keeps I (remove_docker_network h b name)"
  "vetted h I b \<Longrightarrow> keeps I (create_docker_network h b plan)"
  unfolding remove_docker_network_def create_docker_network_def
  by (auto intro!: keeps_intros keeps_run keeps_checked simp del: bindc_ret_unit)

lemma candidates_subset:
  "set IPSET_CANDIDATES \<subseteq> helper_candidates" "set DOCKER_CANDIDATES \<subseteq> helper_candidates"
  "set IPTABLES_CANDIDATES \<subseteq> helper_candidates" "set IP6TABLES_CANDIDATES \<subseteq> helper_candidates"
  "set IP_CANDIDATES \<subseteq> helper_candidates"
  by (auto simp: helper_candidates_def)

lemmas keeps_resolve = candidates_subset [THEN keeps_resolved]

lemma keeps_setup: "keeps I (setup_docker_resources h plan)"
  unfolding setup_docker_resources_def
  by (intro keeps_resolve keeps_bindc keeps_destroy keeps_create keeps_docker_network keeps_docker_rules)

lemma keeps_attempts: "keeps I (docker_attempts h name domains port atts last_err)"
  by (induction atts arbitrary: last_err)
    (simp_all add: Let_def keeps_intros keeps_setup keeps_client keeps_sys)

lemma keeps_docker: "keeps I (prepare_docker_network h name domains)"
  unfolding prepare_docker_network_def by (intro keeps_bindc keeps_client keeps_attempts)

lemma keeps_wait: "keeps I (wait_for_daemon h n)"
  by (induction n) (simp_all add: keeps_intros keeps_client keeps_sys)

lemma keeps_own_exe:
  assumes "\<And>e. permitted h I (daemon_command e) \<Longrightarrow> keeps I (f e)"
  shows "keeps I (bindc (sys_current_exe h) f)"
proof (rule keepsI)
  fix w r w' assume w: "I w" and run: "bindc (sys_current_exe h) f w = Some (r, w')"
  show "I w'"
  proof (cases "host_current_exe h w")
    case (Inr e)
    then have "permitted h I (daemon_command e)" using w by (auto simp: permitted_def)
    then show ?thesis using assms run w Inr by (auto simp: bindc_def sys_current_exe_def dest: keepsD)
  qed (use w run in \<open>simp add: bindc_def sys_current_exe_def\<close>)
qed

lemma keeps_daemon: "keeps I (ensure_rootless_dns_daemon h)"
  unfolding ensure_rootless_dns_daemon_def
  by (intro keeps_own_exe keeps_bindc keeps_attempt keeps_case_sum keeps_ret keeps_lift keeps_client
      keeps_wait keeps_spawn keeps_sys)

lemma keeps_host_root: "keeps I (ensure_host_root h)"
  unfolding ensure_host_root_def by (intro keeps_intros keeps_sys)

lemma keeps_messages: "keeps I (podman_messages h a b interface)"
  unfolding podman_messages_def by (rule keeps_seqc) (auto intro: keeps_sys split: option.splits)

lemma keeps_route: "keeps I (default_route_interface h)"
  unfolding default_route_interface_def by (intro keeps_resolve keeps_bindc keeps_checked keeps_lift)

lemma keeps_podman: "keeps I (prepare_rootless_podman_network h name domains requested)"
  unfolding prepare_rootless_podman_network_def ensure_rootless_dns_alias_def Let_def
  by (intro keeps_resolve keeps_bindc keeps_host_root keeps_checked keeps_daemon keeps_case_option keeps_lift
      keeps_route keeps_allocate4 keeps_allocate6 keeps_configure6 keeps_ret keeps_destroy keeps_create
      keeps_podman_rules keeps_client keeps_messages)

lemma keeps_prepare: "keeps I (prepare_network h name domains runtime interface)"
  unfolding prepare_network_def
  by (cases runtime) (simp_all add: keeps_intros keeps_docker keeps_podman)

end

section \<open>An audited host\<close>

text \<open>Any host with a log of the commands it was asked to run.\<close>

definition logged :: "'w host \<Rightarrow> ('w \<times> command list) host" where
  "logged h =
     \<lparr>host_output = (\<lambda>c (w, log). let (r, w') = host_output h c w in (r, w', log @ [c])),
      host_output_stdin = (\<lambda>c input (w, log). let (r, w') = host_output_stdin h c input w in (r, w', log @ [c])),
      host_spawn = (\<lambda>c (w, log). let (r, w') = host_spawn h c w in (r, w', log @ [c])),
      host_metadata = (\<lambda>path (w, log). host_metadata h path w),
      host_read_file = (\<lambda>path (w, log). host_read_file h path w),
      host_current_exe = (\<lambda>(w, log). host_current_exe h w),
      host_exchange = (\<lambda>limit payload (w, log). let (r, w') = host_exchange h limit payload w in (r, w', log)),
      host_sleep = (\<lambda>ms (w, log). (host_sleep h ms w, log)),
      host_println = (\<lambda>line (w, log). (host_println h line w, log)),
      host_eprintln = (\<lambda>line (w, log). (host_eprintln h line w, log))\<rparr>"

definition clean_log :: "'w host \<Rightarrow> 'w \<times> command list \<Rightarrow> bool" where
  "clean_log h = (\<lambda>(w, log). \<forall>c \<in> set log. permitted h (\<lambda>_. True) c)"

lemma trusted_in_logged: "trusted_in (logged h) wl b = trusted_in h (fst wl) b"
  by (cases wl) (simp add: trusted_in_def logged_def)

lemma permitted_logged: "permitted (logged h) I c \<Longrightarrow> permitted h (\<lambda>_. True) c"
  by (auto simp: permitted_def trusted_in_logged) (auto simp: logged_def)

lemma logged_sel:
  "snd (host_output (logged h) c wl) = (snd (host_output h c (fst wl)), snd wl @ [c])"
  "snd (host_spawn (logged h) c wl) = (snd (host_spawn h c (fst wl)), snd wl @ [c])"
  "snd (snd (host_exchange (logged h) limit payload wl)) = snd wl"
  "snd (host_sleep (logged h) ms wl) = snd wl"
  "snd (host_println (logged h) line wl) = snd wl"
  "snd (host_eprintln (logged h) line wl) = snd wl"
  by (simp_all add: logged_def split: prod.splits)

lemma clean_log_iff: "clean_log h wl \<longleftrightarrow> (\<forall>c \<in> set (snd wl). permitted h (\<lambda>_. True) c)"
  by (simp add: clean_log_def split: prod.splits)

lemma confined_logged: "confined (logged h) (clean_log h)"
  unfolding confined_def by (auto dest: permitted_logged simp: logged_sel clean_log_iff)

interpretation audit: confinement "logged h" "clean_log h" for h :: "'w host"
  by unfold_locales (rule confined_logged)

text \<open>A machine whose programs all fail.\<close>

definition failing_host :: "unit host" where
  "failing_host =
     \<lparr>host_output = (\<lambda>c w. (Inr \<lparr>status_success = False, out_stdout = [], out_stderr = []\<rparr>, w)),
      host_output_stdin = (\<lambda>c input w. (Inr \<lparr>status_success = False, out_stdout = [], out_stderr = []\<rparr>, w)),
      host_spawn = (\<lambda>c w. (Inl (IoError ''spawn''), w)),
      host_metadata = (\<lambda>path w. Some \<lparr>md_is_file = True, md_uid = 0, md_mode = 0x1ED\<rparr>),
      host_read_file = (\<lambda>path w. Inr (if path = ''/proc/self/status''
         then ''Uid: 0 0 0 0'' else ''0 0 4294967295'')),
      host_current_exe = (\<lambda>w. Inr ''/usr/bin/dockerwall''),
      host_exchange = (\<lambda>limit payload w. (Inl (IoError ''connect''), w)),
      host_sleep = (\<lambda>ms w. w),
      host_println = (\<lambda>line w. w),
      host_eprintln = (\<lambda>line w. w)\<rparr>"

lemma failing_prepare:
  "prepare_network (logged failing_host) ''n'' [] Podman None ((), []) =
     Some (Inl (Msg ''command failed''), (),
       [helper_command ''/usr/sbin/ip'' [''addr'', ''replace'', ROOTLESS_DNS_CIDR, ''dev'', ''lo'']])"
  by code_simp

section \<open>Properties\<close>



end
