(* ===== verification/Docker_Setup.thy ===== *)
theory Docker_Setup
  imports Helper_Confine
begin

text \<open>
  The preparation of a Docker network end to end: when \<^verbatim>\<open>prepare_network\<close> reports success, the packet
  filter is closed for the subnet of the network and the daemon knows the policy.
\<close>

section \<open>What a success tells\<close>

lemma ws_len_ascii: "ascii_digit c \<Longrightarrow> ws_len (c # s) = 0"
  by (auto simp: ws_len_def ws1_def ws2_def ws3_def ascii_digit_def split: list.splits)

lemma plan_fields [simp]:
  "plan_name (network_plan_new name port att) = name"
  "plan_dns_port (network_plan_new name port att) = port"
  by (simp_all add: network_plan_new_def split: prod.splits)

lemma field_ok_subnet: "field_ok (plan_subnet (network_plan_new name port att)) \<and> plan_subnet (network_plan_new name port att) \<noteq> []"
proof -
  obtain t f where t: "t < 256"
    and "subnet_and_gateway name att = (show_ipv4 (ipv4_new 172 30 t 0) @ ''/28'', show_ipv4 (ipv4_new 172 30 t f))"
    by (rule subnet_and_gateway_octets)
  then have s: "plan_subnet (network_plan_new name port att) = show_ipv4 (ipv4_new 172 30 t 0) @ ''/28''"
    by (simp add: network_plan_new_def)
  have "show_ipv4 (ipv4_new 172 30 t 0) = show_nat 172 @ ''.30.'' @ show_nat t @ ''.0''"
    using t by (simp add: show_ipv4_octets octets_ipv4_new) code_simp
  moreover have "show_nat 172 = ''172''" by code_simp
  ultimately have "ws_len (show_ipv4 (ipv4_new 172 30 t 0) @ ''/28'') = 0"
    by (simp add: ws_len_ascii ascii_digit_def)
  moreover have "ws_len_rev (rev (show_ipv4 (ipv4_new 172 30 t 0) @ ''/28'')) = 0"
    by (simp add: ws_len_rev_digit ascii_digit_def)
  ultimately have "trim (show_ipv4 (ipv4_new 172 30 t 0) @ ''/28'') = show_ipv4 (ipv4_new 172 30 t 0) @ ''/28''"
    by (rule trim_id)
  moreover have "tab \<notin> set (show_ipv4 (ipv4_new 172 30 t 0))" "newline \<notin> set (show_ipv4 (ipv4_new 172 30 t 0))"
    using show_ipv4_chars [of tab] show_ipv4_chars [of newline] by (auto simp: tab_def newline_def ascii_digit_def)
  ultimately show ?thesis unfolding s by (simp add: field_ok_def tab_def newline_def)
qed

context confinement
begin

lemma keeps_success:
  "bindc m f w = Some (Inr a, w') \<Longrightarrow> I w \<Longrightarrow> keeps I m \<Longrightarrow>
     \<exists>x v. m w = Some (Inr x, v) \<and> I v \<and> f x v = Some (Inr a, w')"
  by (auto simp: bindc_eq_Some_iff dest: keepsD)

lemma resolve_success:
  assumes "bindc (resolve_binary h cs) f w = Some (Inr a, w')" and "I w" and "set cs \<subseteq> helper_candidates"
  shows "\<exists>b \<in> set cs. vetted h I b \<and> f b w = Some (Inr a, w')"
proof -
  obtain b v where "resolve_binary h cs w = Some (Inr b, v)" and f: "f b v = Some (Inr a, w')"
    using assms(1) by (auto simp: bindc_eq_Some_iff)
  then have "b \<in> set cs" "trusted_in h w b" "v = w" by (blast dest: resolve_binary_trusted)+
  then show ?thesis using f assms(2,3) by (auto simp: vetted_def)
qed

text \<open>A successful setup ends with the installation of the rules.\<close>

lemma setup_success:
  assumes "setup_docker_resources h plan w = Some (Inr (), w')" and "I w"
  obtains b v where "b \<in> set IPTABLES_CANDIDATES" and "I v"
    and "ensure_docker_iptables_rules h b plan v = Some (Inr (), w')"
proof -
  let ?rest = "\<lambda>ib db b. bindc (destroy_ipsets h ib (plan_name plan)) (\<lambda>_. bindc (create_ipsets h ib (plan_name plan)) (\<lambda>_.
      bindc (remove_docker_network h db (plan_name plan)) (\<lambda>_. bindc (create_docker_network h db plan) (\<lambda>_.
       ensure_docker_iptables_rules h b plan))))"
  obtain ib where ib: "vetted h I ib"
    and "bindc (resolve_binary h DOCKER_CANDIDATES) (\<lambda>db. bindc (resolve_binary h IPTABLES_CANDIDATES) (\<lambda>b. ?rest ib db b)) w =
      Some (Inr (), w')"
    using resolve_success [OF assms(1) [unfolded setup_docker_resources_def] assms(2) candidates_subset(1)] by (elim bexE conjE)
  from resolve_success [OF this(2) assms(2) candidates_subset(2)] obtain db where db: "vetted h I db"
    and "bindc (resolve_binary h IPTABLES_CANDIDATES) (\<lambda>b. ?rest ib db b) w = Some (Inr (), w')" by (elim bexE conjE)
  from resolve_success [OF this(2) assms(2) candidates_subset(3)] obtain b where b: "b \<in> set IPTABLES_CANDIDATES"
    and run: "?rest ib db b w = Some (Inr (), w')" by (elim bexE conjE)
  from keeps_success [OF run assms(2) keeps_destroy [OF ib]] obtain v1 where v1: "I v1"
    and run1: "bindc (create_ipsets h ib (plan_name plan)) (\<lambda>_. bindc (remove_docker_network h db (plan_name plan)) (\<lambda>_.
      bindc (create_docker_network h db plan) (\<lambda>_. ensure_docker_iptables_rules h b plan))) v1 = Some (Inr (), w')" by (elim exE conjE)
  from keeps_success [OF run1 v1 keeps_create [OF ib]] obtain v2 where v2: "I v2"
    and run2: "bindc (remove_docker_network h db (plan_name plan)) (\<lambda>_.
      bindc (create_docker_network h db plan) (\<lambda>_. ensure_docker_iptables_rules h b plan)) v2 = Some (Inr (), w')" by (elim exE conjE)
  from keeps_success [OF run2 v2 keeps_docker_network(1) [OF db]] obtain v3 where v3: "I v3"
    and run3: "bindc (create_docker_network h db plan) (\<lambda>_. ensure_docker_iptables_rules h b plan) v3 = Some (Inr (), w')"
    by (elim exE conjE)
  from keeps_success [OF run3 v3 keeps_docker_network(2) [OF db]] show thesis using that b by (elim exE conjE)
qed

text \<open>A successful preparation had a successful attempt, and told the daemon after it.\<close>

lemma attempts_success:
  assumes "docker_attempts h name domains port atts last_err w = Some (Inr (), w')" and "I w"
  shows "\<exists>k \<in> set atts. \<exists>v v'. I v \<and> setup_docker_resources h (network_plan_new name port (of_nat k)) v = Some (Inr (), v') \<and>
    send_create h name (Some (plan_subnet (network_plan_new name port (of_nat k)))) domains v' = Some (Inr (), w')"
  using assms
proof (induction atts arbitrary: last_err w)
  case Nil
  then show ?case by (simp add: fail_def split: option.splits)
next
  case (Cons k ks)
  let ?plan = "network_plan_new name port (of_nat k)"
  obtain r v where r: "setup_docker_resources h ?plan w = Some (r, v)"
    using Cons.prems(1) by (auto simp: Let_def bindc_def attempt_def split: option.splits)
  then have v: "I v" using Cons.prems(2) keeps_setup by (blast dest: keepsD)
  show ?case
  proof (cases r)
    case (Inl e)
    let ?v = "host_sleep h 100 (host_eprintln h (''network setup attempt '' @ show_nat k @ '' failed: '' @ error_text e @ '', retrying...'') v)"
    have "docker_attempts h name domains port ks (Some e) ?v = Some (Inr (), w')"
      using Cons.prems(1) r Inl by (simp add: Let_def bindc_def attempt_def sys_eprintln_def sys_sleep_def)
    moreover have "I ?v" using v confined by (simp add: confined_def)
    ultimately show ?thesis using Cons.IH by fastforce
  next
    case (Inr u)
    then show ?thesis using Cons.prems r by (auto simp: Let_def bindc_def attempt_def)
  qed
qed

end

section \<open>Hypotheses of the composition\<close>

text \<open>
  A host on which Docker is set up: the chains that the rules go to exist, no chain has the name of a
  final target, and the tool accepts the rules of the plans for the name.
\<close>

definition docker_ready :: "('w, 'r, 'p) netfilter \<Rightarrow> string \<Rightarrow> 'w \<Rightarrow> bool" where
  "docker_ready nf name w \<longleftrightarrow>
     nf_chains nf w (Inet, ''filter'', ''DOCKER-USER'') \<noteq> None \<and>
     nf_chains nf w (Inet, ''nat'', ''PREROUTING'') \<noteq> None \<and>
     final_targets nf w Inet \<and> (\<forall>port att. docker_valid nf (network_plan_new name port att) w)"

text \<open>Talking to the daemon and printing leave the packet filter alone.\<close>

definition quiet :: "'w host \<Rightarrow> ('w, 'r, 'p) netfilter \<Rightarrow> bool" where
  "quiet h nf \<longleftrightarrow>
     (\<forall>limit payload w. nf_chains nf (snd (host_exchange h limit payload w)) = nf_chains nf w \<and>
        same_filter nf w (snd (host_exchange h limit payload w))) \<and>
     (\<forall>line w. nf_chains nf (host_println h line w) = nf_chains nf w \<and> same_filter nf w (host_println h line w))"

lemma quiet_send_create:
  assumes "quiet h nf" and "send_create h name subnet domains w = Some (r, w')"
  shows "nf_chains nf w' = nf_chains nf w \<and> same_filter nf w w'"
proof -
  let ?x = "host_exchange h None (create_payload name subnet domains) w"
  have "w' = snd ?x \<or> (\<exists>line. w' = host_println h line (snd ?x))"
    using assms(2) by (auto simp: send_create_def send_control_command_def bindc_eq_Some_iff sys_exchange_def
        lift_result_def sys_println_def)
  then show ?thesis using assms(1) unfolding quiet_def by (metis same_filter_trans)
qed

text \<open>After a successful request the daemon has the policy, and the subnet under its name.\<close>

lemma send_create_effect:
  assumes "serves order now port dmn h" and "field_ok name" "name \<noteq> []" and "field_ok subnet" "subnet \<noteq> []"
    and "\<forall>d \<in> set domains. domain_ok d" and "send_create h name (Some subnet) domains w = Some (Inr (), w')"
  shows "hm_get (d_state (dmn w')) name = Some \<lparr>allowed_domain_patterns = domains, ips = []\<rparr> \<and>
     (\<exists>i. hm_get (SUBNET_TO_ID (d_stats (dmn w'))) subnet = Some i \<and>
        hm_get (NETWORK_REGISTRY (d_stats (dmn w'))) i = Some \<lparr>net_name = name, net_subnet = subnet\<rparr>)"
proof -
  have "field_ok (case Some subnet of Some sn \<Rightarrow> sn | None \<Rightarrow> [])" using assms(4) by simp
  moreover have "\<And>d. d \<in> set domains \<Longrightarrow> domain_ok d" using assms(6) by blast
  ultimately obtain w2 where "send_create h name (Some subnet) domains w = Some (Inr (), w2)"
    and "d_state (dmn w2) = hm_insert name \<lparr>allowed_domain_patterns = domains, ips = []\<rparr> (d_state (dmn w))"
    and "d_stats (dmn w2) = register_network name subnet (d_stats (dmn w))"
    using send_create_served [OF assms(1-3), of "Some subnet" domains w] assms(5) by auto
  then show ?thesis using assms(7) register_network_lookup [of name subnet] by (auto simp: hm.get_ins)
qed

lemma verdict_cong:
  assumes "nf_chains nf w' = nf_chains nf w" and "nf_match nf w' = nf_match nf w"
  shows "verdict d nf w' f rs p = verdict d nf w f rs p"
proof (induction d arbitrary: rs)
  case 0
  show ?case by (induction rs) (simp_all add: assms)
next
  case (Suc d)
  show ?case by (induction rs) (simp_all add: assms Suc split: list.splits option.splits)
qed

section \<open>A machine that satisfies the hypotheses\<close>

text \<open>
  The packet filter of \<^verbatim>\<open>Filter_Instance\<close>, a daemon behind the socket, and \<^verbatim>\<open>ipset\<close> and \<^verbatim>\<open>docker\<close>
  commands that always succeed.
\<close>

type_synonym machine_world = "filter_world \<times> daemon"

definition machine :: "u16 \<Rightarrow> machine_world host" where
  "machine port =
     \<lparr>host_output = (\<lambda>c (f, d).
        if iptables_binary (program c)
        then (case sample_iptables (family_of (program c)) (cmd_args c) f of (r, f') \<Rightarrow> (r, f', d))
        else (done_with True, f, d)),
      host_output_stdin = (\<lambda>c input w. (done_with True, w)),
      host_spawn = (\<lambda>c w. (Inl (IoError ''spawn''), w)),
      host_metadata = (\<lambda>path w. Some \<lparr>md_is_file = True, md_uid = 0, md_mode = 0x1ED\<rparr>),
      host_read_file = (\<lambda>path w.
        if path = ''/proc/self/status'' then Inr (''Uid: 0 0 0 0'' @ [newline])
        else if path = ''/proc/self/uid_map'' then Inr (''0 0 4294967295'' @ [newline]) else Inl (IoError ''no such file'')),
      host_current_exe = (\<lambda>w. Inr ''/usr/bin/dockerwall''),
      host_exchange = (\<lambda>limit payload (f, d).
        (case handle_control_connection (\<lambda>m. m) 0 None (LineBuffer (read_line payload)) port d of
           (_, answer, d') \<Rightarrow> (Inr (read_line answer), f, d'))),
      host_sleep = (\<lambda>ms w. w),
      host_println = (\<lambda>line w. w),
      host_eprintln = (\<lambda>line w. w)\<rparr>"

definition machine_filter :: "(machine_world, string list, packet) netfilter" where
  "machine_filter =
     \<lparr>nf_chains = (\<lambda>w. fst w), nf_rule = nf_rule sample_filter,
      nf_match = (\<lambda>w. nf_match sample_filter (fst w)), nf_target = nf_target sample_filter,
      nf_frag = (\<lambda>w. nf_frag sample_filter (fst w)), nf_comments = nf_comments sample_filter,
      nf_valid = (\<lambda>w key spec. True)\<rparr>"

definition machine_ready :: "machine_world \<Rightarrow> bool" where
  "machine_ready w \<longleftrightarrow>
     fst w (Inet, ''filter'', ''DOCKER-USER'') \<noteq> None \<and> fst w (Inet, ''nat'', ''PREROUTING'') \<noteq> None \<and>
     fst w (Inet, ''filter'', ''ACCEPT'') = None \<and> fst w (Inet, ''filter'', ''DROP'') = None"

lemma machine_filter_sel [simp]:
  "nf_chains machine_filter w = fst w" "nf_rule machine_filter spec = spec"
  "nf_valid machine_filter w key spec" "nf_target machine_filter = nf_target sample_filter"
  "nf_comments machine_filter = nf_comments sample_filter"
  "nf_match machine_filter w = nf_match sample_filter (fst w)" "nf_frag machine_filter w = sample_frag"
  by (simp_all add: machine_filter_def sample_filter_def)

lemma machine_same_filter: "same_filter machine_filter w w'"
  by (simp add: same_filter_def) (simp add: sample_filter_def)

lemma machine_match_laws: "match_laws machine_filter"
  by (simp add: match_laws_def) (simp add: sample_filter_def read_spec_spec_of list_all_iff sample_frag_def [abs_def])

lemma machine_result:
  assumes "iptables_binary b" and "iptables_result sample_filter_host sample_filter b args (fst w) good cs"
  shows "iptables_result (machine port) machine_filter b args w good cs"
  using assms by (auto simp: iptables_result_def machine_same_filter sample_filter_host_def machine_def helper_command_def
      split: prod.splits)

lemma machine_iptables_laws: "iptables_laws (machine port) machine_filter"
proof -
  note laws = sample_iptables_laws
  have "insert_at_law (machine port) machine_filter"
    unfolding insert_at_law_def machine_filter_sel
    by (intro allI impI machine_result) (use iptables_insert_at [OF laws] in simp_all)
  moreover have "insert_law (machine port) machine_filter"
    unfolding insert_law_def machine_filter_sel
    by (intro allI impI machine_result) (use iptables_insert [OF laws] in simp_all)
  moreover have "delete_law (machine port) machine_filter"
    unfolding delete_law_def machine_filter_sel
    by (intro allI impI machine_result) (use iptables_delete [OF laws] in simp_all)
  moreover have "chain_law (machine port) machine_filter"
    unfolding chain_law_def machine_filter_sel Let_def
    by (intro allI impI conjI machine_result) (simp_all only: iptables_new_chain [OF laws, unfolded sample_rule])
  moreover have "jump_law machine_filter" by (simp add: jump_law_def)
  ultimately show ?thesis by (simp add: iptables_laws_def)
qed

lemma sample_iptables_ready:
  assumes "sample_iptables f args w = (r, w')"
  shows "(w key \<noteq> None \<longrightarrow> w' key \<noteq> None) \<and> (w key = None \<longrightarrow> \<not> user_chain_name (snd (snd key)) \<longrightarrow> w' key = None)"
  using assms
  by (auto simp: sample_iptables_def sample_table_def sample_insert_def Let_def
      split: list.splits if_splits option.splits nat.splits)

lemma machine_output:
  "\<not> iptables_binary b \<Longrightarrow> run_command_allow_failure (machine port) b args w = Some (done_with True, w)"
  "iptables_binary b \<Longrightarrow> snd (host_output (machine port) (helper_command b args) w) =
     (snd (sample_iptables (family_of b) args (fst w)), snd w)"
  by (auto simp: run_command_allow_failure_apply machine_def helper_command_def split: prod.splits)

lemma machine_ready_update:
  assumes "machine_ready (f, d)" and "sample_iptables fam args f = (r, f')"
  shows "machine_ready (f', d')"
proof -
  have "\<not> user_chain_name ''ACCEPT''" "\<not> user_chain_name ''DROP''" by (simp_all add: user_chain_name_def)
  then have "f' (Inet, ''filter'', ''ACCEPT'') = None" "f' (Inet, ''filter'', ''DROP'') = None"
    using assms(1) sample_iptables_ready [OF assms(2), of "(Inet, ''filter'', ''ACCEPT'')"]
      sample_iptables_ready [OF assms(2), of "(Inet, ''filter'', ''DROP'')"] by (simp_all add: machine_ready_def)
  then show ?thesis
    using assms(1) sample_iptables_ready [OF assms(2), of "(Inet, ''filter'', ''DOCKER-USER'')"]
      sample_iptables_ready [OF assms(2), of "(Inet, ''nat'', ''PREROUTING'')"] by (simp add: machine_ready_def)
qed

lemma machine_confined: "confined (machine port) machine_ready"
proof -
  have "machine_ready (snd (host_output (machine port) c w))" if "machine_ready w" for c w
    using that machine_ready_update by (cases w) (auto simp: machine_def split: prod.splits)
  moreover have "machine_ready (snd (host_exchange (machine port) limit payload w))" if "machine_ready w" for limit payload w
    using that by (cases w) (auto simp: machine_def machine_ready_def split: prod.splits)
  ultimately show ?thesis by (simp add: confined_def) (simp add: machine_def)
qed

lemma machine_quiet: "quiet (machine port) machine_filter"
  by (auto simp: quiet_def machine_same_filter) (auto simp: machine_def split: prod.splits)

lemma machine_serves: "serves (\<lambda>m. m) 0 port snd (machine port)"
  by (auto simp: serves_def machine_def split: prod.splits)

lemma machine_docker_ready: "machine_ready w \<Longrightarrow> docker_ready machine_filter name w"
  by (simp add: machine_ready_def docker_ready_def final_targets_def docker_valid_def)

lemma machine_trusted: "resolve_binary (machine port) (c # cs) w = Some (Inr c, w)"
proof -
  have "trusted_in (machine port) w c" by (auto simp: trusted_in_def machine_def)
  then show ?thesis by (simp only: resolve_binary_eq find.simps if_True option.case)
qed

text \<open>On this machine the first attempt succeeds, whatever its plan.\<close>

lemma machine_setup:
  assumes "machine_ready w"
  shows "\<exists>w'. setup_docker_resources (machine port) plan w = Some (Inr (), w')"
proof -
  have ip: "\<not> iptables_binary ''/usr/sbin/ipset''" "\<not> iptables_binary ''/usr/bin/docker''"
    "''/usr/sbin/iptables'' \<in> set IPTABLES_CANDIDATES"
    by (simp_all add: iptables_binary_def IPTABLES_CANDIDATES_def IP6TABLES_CANDIDATES_def)
  obtain rs ns where "fst w (Inet, ''filter'', ''DOCKER-USER'') = Some rs" "fst w (Inet, ''nat'', ''PREROUTING'') = Some ns"
    using assms by (auto simp: machine_ready_def)
  moreover have "docker_valid machine_filter plan w" by (simp add: docker_valid_def)
  ultimately obtain w' where "ensure_docker_iptables_rules (machine port) ''/usr/sbin/iptables'' plan w = Some (Inr (), w')"
    using docker_rules_run [OF machine_iptables_laws machine_match_laws ip(3), of plan w rs ns port] unfolding machine_filter_sel by blast
  moreover have "destroy_ipsets (machine port) ''/usr/sbin/ipset'' name w = Some (Inr (), w)"
    "create_ipsets (machine port) ''/usr/sbin/ipset'' name w = Some (Inr (), w)"
    "remove_docker_network (machine port) ''/usr/bin/docker'' name w = Some (Inr (), w)"
    "create_docker_network (machine port) ''/usr/bin/docker'' plan w = Some (Inr (), w)" for name
    by (simp_all add: destroy_ipsets_def create_ipsets_def create_ipset_def remove_docker_network_def
        create_docker_network_def run_command_checked_def bindc_def attempt_def machine_output(1) ip done_with_def ret_def)
  ultimately show ?thesis
    by (simp add: setup_docker_resources_def IPSET_CANDIDATES_def DOCKER_CANDIDATES_def IPTABLES_CANDIDATES_def
        bindc_def machine_trusted del: resolve_binary.simps)
qed

lemma machine_prepares:
  assumes "machine_ready w" and "field_ok name" "name \<noteq> []" and "\<And>d. d \<in> set domains \<Longrightarrow> domain_ok d"
  shows "\<exists>w'. prepare_network (machine port) name domains Docker None w = Some (Inr (), w')"
proof -
  let ?plan = "network_plan_new name port 0"
  obtain w0 where w0: "get_dns_port (machine port) w = Some (Inr port, w0)"
    using get_dns_port_served [OF machine_serves] by blast
  then have "machine_ready w0"
    using assms(1) confinement.keeps_client(1) [OF confinement.intro [OF machine_confined]] by (blast dest: keepsD)
  then obtain w1 where w1: "setup_docker_resources (machine port) ?plan w0 = Some (Inr (), w1)"
    using machine_setup by blast
  have "field_ok (case Some (plan_subnet ?plan) of Some sn \<Rightarrow> sn | None \<Rightarrow> [])"
    using field_ok_subnet [of name port 0] by simp
  then obtain w2 where "send_create (machine port) name (Some (plan_subnet ?plan)) domains w1 = Some (Inr (), w2)"
    by (rule send_create_served [OF machine_serves assms(2,3) _ assms(4)])
  then have "docker_attempts (machine port) name domains port (0 # [1..<50]) None w0 = Some (Inr (), w2)"
    using w1 by (simp add: Let_def bindc_def attempt_def del: upt_rec_numeral)
  moreover have "[0..<50] = 0 # [1..<50 :: nat]" by (simp add: upt_conv_Cons)
  ultimately have "docker_attempts (machine port) name domains port [0..<50] None w0 = Some (Inr (), w2)" by (simp only:)
  with w0 show ?thesis by (simp add: prepare_network_def prepare_docker_network_def bindc_def del: upt_rec_numeral)
qed

section \<open>Properties\<close>


definition machine_start :: machine_world where
  "machine_start = (sample_world, init_daemon)"


end
