(* ===== verification/Podman_Setup.thy ===== *)
theory Podman_Setup
  imports Docker_Setup
begin

text \<open>
  The preparation of a rootless Podman policy end to end: when \<^verbatim>\<open>prepare_network\<close> reports success, the packet
  filter is closed for the source addresses of the policy in both families and the daemon knows the policy.
\<close>

section \<open>What a success tells\<close>

text \<open>Whatever a computation returns successfully from a state in \<open>I\<close>, it leaves a state in \<open>Q\<close>.\<close>

definition ensures :: "('w \<Rightarrow> bool) \<Rightarrow> ('w, 'a) cmd \<Rightarrow> ('w \<Rightarrow> bool) \<Rightarrow> bool" where
  "ensures I m Q \<longleftrightarrow> (\<forall>w a w'. I w \<longrightarrow> m w = Some (Inr a, w') \<longrightarrow> Q w')"

lemma ensuresD: "ensures I m Q \<Longrightarrow> I w \<Longrightarrow> m w = Some (Inr a, w') \<Longrightarrow> Q w'"
  by (auto simp: ensures_def)

text \<open>The sources that the allocators returned on the way.\<close>

definition allocated4 :: "'w host \<Rightarrow> ('w \<Rightarrow> bool) \<Rightarrow> string \<Rightarrow> u32 \<Rightarrow> bool" where
  "allocated4 h I name source \<longleftrightarrow>
     (\<exists>b ip v v'. I v \<and> allocate_rootless_podman_source_ip h b ip name v = Some (Inr source, v'))"

definition allocated6 :: "'w host \<Rightarrow> ('w \<Rightarrow> bool) \<Rightarrow> string \<Rightarrow> u128 option \<Rightarrow> bool" where
  "allocated6 h I name source6 \<longleftrightarrow>
     (\<exists>b6 ip interface v v'. I v \<and> allocate_rootless_podman_source_ipv6 h b6 ip interface name v = Some (Inr source6, v'))"

lemma allocated4I:
  "allocate_rootless_podman_source_ip h b ip name v = Some (Inr source, v') \<Longrightarrow> I v \<Longrightarrow> allocated4 h I name source"
  unfolding allocated4_def by (intro exI conjI)

lemma allocated6I:
  "allocate_rootless_podman_source_ipv6 h b6 ip interface name v = Some (Inr source6, v') \<Longrightarrow> I v \<Longrightarrow> allocated6 h I name source6"
  unfolding allocated6_def by (intro exI conjI)

text \<open>A success installed the rules, told the daemon and printed the result.\<close>

definition podman_prepared :: "'w host \<Rightarrow> ('w \<Rightarrow> bool) \<Rightarrow> string \<Rightarrow> string list \<Rightarrow> u16 \<Rightarrow> 'w \<Rightarrow> bool" where
  "podman_prepared h I name domains port w' \<longleftrightarrow>
     (\<exists>b \<in> set IPTABLES_CANDIDATES. \<exists>b6 \<in> set IP6TABLES_CANDIDATES. \<exists>source source6 interface v v' v''.
        I v \<and> validate_interface_name interface = Inr interface \<and> allocated4 h I name source \<and> allocated6 h I name source6 \<and>
        ensure_rootless_podman_rules h b b6 name (show_ipv4 source @ ''/32'')
          (map_option (\<lambda>v6. show_ipv6 v6 @ ''/128'') source6) interface port v = Some (Inr (), v') \<and>
        send_create h name (Some (show_ipv4 source @ ''/32'')) domains v' = Some (Inr (), v'') \<and>
        podman_messages h source source6 interface v'' = Some (Inr (), w'))"

lemma validate_Inr: "validate_interface_name x = Inr a \<Longrightarrow> validate_interface_name a = Inr a"
  by (auto simp: validate_interface_name_def split: if_splits)

lemma route_device_validated: "route_device ws = Some (Inr a) \<Longrightarrow> validate_interface_name a = Inr a"
proof (induction ws)
  case (Cons x ws)
  show ?case
  proof (cases "x = ''dev''")
    case True
    then obtain interface where "validate_interface_name interface = Inr a"
      using Cons.prems by (auto split: list.splits)
    then show ?thesis by (rule validate_Inr)
  qed (use Cons in simp)
qed simp

lemma default_route_validated: "default_route_of ls = Inr a \<Longrightarrow> validate_interface_name a = Inr a"
  by (induction ls) (auto split: if_splits list.splits option.splits dest: route_device_validated)

lemma interface_validated:
  assumes "(case requested of Some interface \<Rightarrow> lift_result (validate_interface_name interface) | None \<Rightarrow> default_route_interface h) w =
     Some (Inr a, w')"
  shows "validate_interface_name a = Inr a"
proof (cases requested)
  case None
  with assms obtain ls where "default_route_of ls = Inr a"
    by (auto simp: default_route_interface_def bindc_eq_Some_iff lift_result_def)
  then show ?thesis by (rule default_route_validated)
next
  case (Some interface)
  with assms have "validate_interface_name interface = Inr a" by (simp add: lift_result_def)
  then show ?thesis by (rule validate_Inr)
qed

context confinement
begin

lemma ensures_bind_result:
  assumes "keeps I m" and "\<And>a w w'. I w \<Longrightarrow> m w = Some (Inr a, w') \<Longrightarrow> ensures I (f a) Q"
  shows "ensures I (bindc m f) Q"
  unfolding ensures_def
proof (intro allI impI)
  fix w a w' assume w: "I w" and "bindc m f w = Some (Inr a, w')"
  from keeps_success [OF this(2,1) assms(1)] obtain x v where "m w = Some (Inr x, v)" "I v" "f x v = Some (Inr a, w')" by blast
  then show "Q w'" using assms(2) w by (blast dest: ensuresD)
qed

lemma ensures_bind: "keeps I m \<Longrightarrow> (\<And>a. ensures I (f a) Q) \<Longrightarrow> ensures I (bindc m f) Q"
  by (rule ensures_bind_result)

lemma ensures_resolved:
  assumes "set cs \<subseteq> helper_candidates" and "\<And>b. b \<in> set cs \<Longrightarrow> vetted h I b \<Longrightarrow> ensures I (f b) Q"
  shows "ensures I (bindc (resolve_binary h cs) f) Q"
  unfolding ensures_def
proof (intro allI impI)
  fix w a w' assume w: "I w" and "bindc (resolve_binary h cs) f w = Some (Inr a, w')"
  from resolve_success [OF this(2,1) assms(1)] obtain b where "b \<in> set cs" "vetted h I b" "f b w = Some (Inr a, w')" by blast
  then show "Q w'" using assms(2) w by (blast dest: ensuresD)
qed

lemmas ensures_resolve = candidates_subset [THEN ensures_resolved]

text \<open>On a host where the daemon answers, its port is the one that the rules are made for.\<close>

lemma ensures_daemon:
  assumes "\<And>w. \<exists>w'. get_dns_port h w = Some (Inr port, w')" and "ensures I (f port) Q"
  shows "ensures I (bindc (ensure_rootless_dns_daemon h) f) Q"
  unfolding ensures_def
proof (intro allI impI)
  fix w a w' assume w: "I w" and run: "bindc (ensure_rootless_dns_daemon h) f w = Some (Inr a, w')"
  obtain v where v: "get_dns_port h w = Some (Inr port, v)" using assms(1) by blast
  then have "ensure_rootless_dns_daemon h w = Some (Inr port, v)"
    by (simp add: ensure_rootless_dns_daemon_def bindc_def attempt_def ret_def)
  then have "f port v = Some (Inr a, w')" using run by (simp add: bindc_def)
  moreover have "I v" using keepsD [OF keeps_client(1) w v] .
  ultimately show "Q w'" using assms(2) by (blast dest: ensuresD)
qed

lemma ensures_last:
  assumes "b \<in> set IPTABLES_CANDIDATES" and "b6 \<in> set IP6TABLES_CANDIDATES"
    and "validate_interface_name interface = Inr interface" and "allocated4 h I name source" and "allocated6 h I name source6"
  shows "ensures I
    (bindc (ensure_rootless_podman_rules h b b6 name (show_ipv4 source @ ''/32'')
        (map_option (\<lambda>v6. show_ipv6 v6 @ ''/128'') source6) interface port) (\<lambda>_.
     bindc (send_create h name (Some (show_ipv4 source @ ''/32'')) domains) (\<lambda>_.
       podman_messages h source source6 interface))) (podman_prepared h I name domains port)"
  unfolding ensures_def
proof (intro allI impI)
  fix w a w' assume "I w" and "bindc (ensure_rootless_podman_rules h b b6 name (show_ipv4 source @ ''/32'')
        (map_option (\<lambda>v6. show_ipv6 v6 @ ''/128'') source6) interface port) (\<lambda>_.
     bindc (send_create h name (Some (show_ipv4 source @ ''/32'')) domains) (\<lambda>_.
       podman_messages h source source6 interface)) w = Some (Inr a, w')"
  then obtain v' v'' where "ensure_rootless_podman_rules h b b6 name (show_ipv4 source @ ''/32'')
        (map_option (\<lambda>v6. show_ipv6 v6 @ ''/128'') source6) interface port w = Some (Inr (), v')"
    "send_create h name (Some (show_ipv4 source @ ''/32'')) domains v' = Some (Inr (), v'')"
    "podman_messages h source source6 interface v'' = Some (Inr (), w')"
    by (auto simp: bindc_eq_Some_iff)
  with \<open>I w\<close> assms show "podman_prepared h I name domains port w'" unfolding podman_prepared_def by blast
qed

lemma podman_success:
  assumes "\<And>w. \<exists>w'. get_dns_port h w = Some (Inr port, w')"
  shows "ensures I (prepare_rootless_podman_network h name domains requested) (podman_prepared h I name domains port)"
  unfolding prepare_rootless_podman_network_def ensure_rootless_dns_alias_def Let_def
  by (rule ensures_bind [OF keeps_host_root], rule ensures_resolve(5), rule ensures_bind, (intro keeps_bindc keeps_checked keeps_ret; assumption),
      rule ensures_daemon [OF assms], rule ensures_bind_result, (intro keeps_case_option keeps_route keeps_lift), drule interface_validated,
      rule ensures_resolve(1), rule ensures_resolve(3), rule ensures_resolve(4),
      rule ensures_bind_result [OF keeps_allocate4], assumption+, rule ensures_bind_result [OF keeps_allocate6], assumption+,
      rule ensures_bind [OF keeps_checked], assumption, rule ensures_bind, (intro keeps_case_option keeps_configure6 keeps_ret; assumption),
      rule ensures_bind [OF keeps_destroy], assumption, rule ensures_bind [OF keeps_create], assumption,
      rule ensures_last, assumption, assumption, assumption, (erule (1) allocated4I), (erule (1) allocated6I))

end

section \<open>Hypotheses of the composition\<close>

text \<open>
  A host whose packet filter is ready for the rules of a policy: the built-in chains exist, no chain has the
  name of a final target, and the tool accepts the rules for addresses and valid interface names.
\<close>

definition podman_ready :: "('w, 'r, 'p) netfilter \<Rightarrow> string \<Rightarrow> 'w \<Rightarrow> bool" where
  "podman_ready nf name w \<longleftrightarrow>
     nf_chains nf w (Inet, ''filter'', ''OUTPUT'') \<noteq> None \<and> nf_chains nf w (Inet6, ''filter'', ''OUTPUT'') \<noteq> None \<and>
     nat_ready nf w \<and> final_targets nf w Inet \<and> final_targets nf w Inet6 \<and>
     (\<forall>source source6 interface port. validate_interface_name interface = Inr interface \<longrightarrow>
        podman_valid nf name (show_ipv4 source @ ''/32'') (map_option (\<lambda>v6. show_ipv6 v6 @ ''/128'') source6) interface port w)"

lemma quiet_messages:
  assumes "quiet h nf" and "serves order now port dmn h" and "podman_messages h a b interface w = Some (r, w')"
  shows "nf_chains nf w' = nf_chains nf w \<and> same_filter nf w w' \<and> dmn w' = dmn w"
proof -
  let ?I = "\<lambda>v. nf_chains nf v = nf_chains nf w \<and> same_filter nf w v \<and> dmn v = dmn w"
  have "keeps ?I (sys_println h line)" for line
    using assms(1) serves_println [OF assms(2)]
    by (auto simp: keeps_def sys_println_def quiet_def intro: same_filter_trans)
  then have "keeps ?I (podman_messages h a b interface)"
    unfolding podman_messages_def by (intro keeps_seqc) (auto split: option.splits)
  moreover have "?I w" by (simp add: same_filter_refl)
  ultimately show ?thesis using assms(3) keepsD [of ?I] by blast
qed

lemma field_ok_source: "field_ok (show_ipv4 a @ ''/32'')" "show_ipv4 a @ ''/32'' \<noteq> []"
proof -
  have "list_all plain (show_ipv4 a @ ''/32'')"
    using plain_address [OF show_ipv4_address_chars [of _ a]] by (auto simp: list_all_iff plain_def ws1_def)
  then have "trim (show_ipv4 a @ ''/32'') = show_ipv4 a @ ''/32''"
    and "c \<in> set (show_ipv4 a @ ''/32'') \<Longrightarrow> \<not> ws1 c" for c
    by (auto simp: trim_plain list_all_iff plain_def)
  moreover have "ws1 tab" "ws1 newline" by (simp_all add: ws1_def tab_def newline_def)
  ultimately show "field_ok (show_ipv4 a @ ''/32'')" unfolding field_ok_def by blast
qed simp

lemma closed_output_cong:
  assumes "closed_output nf f source w w' ok old chain" and "nf_chains nf v = nf_chains nf w'" and "same_filter nf w' v"
    and "nf_frag nf w' = nf_frag nf w"
  shows "nf_chains nf v (f, ''filter'', ''OUTPUT'') = Some chain \<and>
    (\<forall>d p. nf_frag nf v (frag_source source) p \<longrightarrow>
       verdict (Suc d) nf v f chain p = Some (if ok p then [''ACCEPT''] else [''DROP'']))"
proof -
  have "nf_match nf v = nf_match nf w'" "nf_frag nf v = nf_frag nf w" using assms(3,4) by (simp_all add: same_filter_def)
  then show ?thesis using assms(1) unfolding closed_output_def verdict_cong [OF assms(2) \<open>nf_match nf v = nf_match nf w'\<close>]
    by (simp add: assms(2))
qed

section \<open>Properties\<close>


text \<open>The machine of \<^verbatim>\<open>Docker_Setup\<close> with its built-in chains is ready, stays so, and prepares a policy.\<close>

definition built_in :: "machine_world \<Rightarrow> bool" where
  "built_in w \<longleftrightarrow>
     list_all (\<lambda>key. fst w key \<noteq> None) [(Inet, ''filter'', ''OUTPUT''), (Inet6, ''filter'', ''OUTPUT''),
       (Inet, ''nat'', ''OUTPUT''), (Inet, ''nat'', ''PREROUTING''), (Inet, ''nat'', ''POSTROUTING'')] \<and>
     list_all (\<lambda>key. fst w key = None) [(Inet, ''filter'', ''ACCEPT''), (Inet, ''filter'', ''DROP''),
       (Inet6, ''filter'', ''ACCEPT''), (Inet6, ''filter'', ''DROP'')]"

lemma built_in_update:
  assumes "built_in (f, d)" and "sample_iptables fam args f = (r, f')"
  shows "built_in (f', d')"
proof -
  have "f' key \<noteq> None" if "f key \<noteq> None" for key
    using sample_iptables_ready [OF assms(2)] that by blast
  moreover have "f' (g, ''filter'', ch) = None" if "f (g, ''filter'', ch) = None" "ch \<in> {''ACCEPT'', ''DROP''}" for g ch
    using sample_iptables_ready [OF assms(2), of "(g, ''filter'', ch)"] that by (auto simp: user_chain_name_def)
  ultimately show ?thesis using assms(1) by (simp add: built_in_def)
qed

lemma built_in_confined: "confined (machine port) built_in"
proof -
  have "built_in (snd (host_output (machine port) c w))" if "built_in w" for c w
    using that built_in_update by (cases w) (auto simp: machine_def split: prod.splits)
  moreover have "built_in (snd (host_exchange (machine port) limit payload w))" if "built_in w" for limit payload w
    using that by (cases w) (auto simp: machine_def built_in_def split: prod.splits)
  ultimately show ?thesis by (simp add: confined_def) (simp add: machine_def)
qed

lemma machine_podman_valid: "podman_valid machine_filter name source source6 interface port w"
  by (simp add: podman_valid_def policy_valid_def redirects_valid_def)

lemma built_in_ready: "built_in w \<Longrightarrow> podman_ready machine_filter name w"
  by (simp add: built_in_def podman_ready_def nat_ready_def final_targets_def machine_podman_valid)

lemma machine_checked:
  "\<not> iptables_binary b \<Longrightarrow> run_command_checked (machine port) b args w =
     Some (Inr \<lparr>status_success = True, out_stdout = [], out_stderr = []\<rparr>, w)"
  by (simp add: run_command_checked_def bindc_def machine_output(1) done_with_def ret_def)

lemma machine_host_root: "ensure_host_root (machine port) w = Some (Inr (), w)"
proof -
  have "effective_uid (''Uid: 0 0 0 0'' @ [newline]) = Inr ''0''" "host_uid (''0 0 4294967295'' @ [newline]) = Inr ''0''"
    by code_simp+
  then show ?thesis
    by (simp del: append.simps add: ensure_host_root_def bindc_def sys_read_file_def lift_result_def ret_def machine_def)
qed

lemma machine_allocates:
  assumes "fst w (Inet, ''filter'', ''OUTPUT'') \<noteq> None"
  shows "allocate_rootless_podman_source_ip (machine port) ''/usr/sbin/iptables'' ''/usr/sbin/ip'' name w =
      Some (Inr (rootless_podman_source_ip name 0), w)"
    and "allocate_rootless_podman_source_ipv6 (machine port) b6 ''/usr/sbin/ip'' interface name w = Some (Inr None, w)"
proof -
  have ip: "\<not> iptables_binary ''/usr/sbin/ip''" "iptables_binary ''/usr/sbin/iptables''" "family_of ''/usr/sbin/iptables'' = Inet"
    by (simp_all add: iptables_binary_def IPTABLES_CANDIDATES_def IP6TABLES_CANDIDATES_def family_of_def)
  have empty: "lines (from_utf8_lossy []) = []" by code_simp
  have "run_command_checked (machine port) ''/usr/sbin/iptables'' [''-S'', ''OUTPUT''] w =
      Some (Inr \<lparr>status_success = True, out_stdout = [], out_stderr = []\<rparr>, w)"
    using assms ip by (cases w) (auto simp: run_command_checked_def run_command_allow_failure_apply bindc_def helper_command_def
        machine_def sample_iptables_def sample_table_def done_with_def ret_def)
  moreover have "[0..<131069] = 0 # [Suc 0..<131069]" by (rule upt_conv_Cons) simp
  ultimately show "allocate_rootless_podman_source_ip (machine port) ''/usr/sbin/iptables'' ''/usr/sbin/ip'' name w =
      Some (Inr (rootless_podman_source_ip name 0), w)"
    by (simp add: allocate_rootless_podman_source_ip_def bindc_def empty show_to_def Let_def machine_checked [OF ip(1)] ret_def
        del: upt_rec_numeral)
  show "allocate_rootless_podman_source_ipv6 (machine port) b6 ''/usr/sbin/ip'' interface name w = Some (Inr None, w)"
    by (simp add: allocate_rootless_podman_source_ipv6_def rootless_podman_ipv6_prefix_def bindc_def
        machine_checked [OF ip(1)] empty ret_def)
qed

lemma machine_messages: "podman_messages (machine port) a b interface w = Some (Inr (), w)"
  by (simp add: podman_messages_def sys_println_def bindc_def machine_def ret_def split: option.splits)

lemma machine_prepares_podman:
  assumes "built_in w" and "field_ok name" "name \<noteq> []" and "\<And>d. d \<in> set domains \<Longrightarrow> domain_ok d"
  shows "\<exists>w'. prepare_network (machine port) name domains Podman (Some ''eth0'') w = Some (Inr (), w')"
proof -
  let ?source = "show_ipv4 (rootless_podman_source_ip name 0) @ ''/32''"
  have ip: "\<not> iptables_binary ''/usr/sbin/ip''" "\<not> iptables_binary ''/usr/sbin/ipset''"
    "''/usr/sbin/iptables'' \<in> set IPTABLES_CANDIDATES" "''/usr/sbin/ip6tables'' \<in> set IP6TABLES_CANDIDATES"
    by (simp_all add: iptables_binary_def IPTABLES_CANDIDATES_def IP6TABLES_CANDIDATES_def)
  have eth: "validate_interface_name ''eth0'' = Inr ''eth0''" by code_simp
  obtain w0 where w0: "get_dns_port (machine port) w = Some (Inr port, w0)"
    using get_dns_port_served [OF machine_serves] by blast
  then have daemon: "ensure_rootless_dns_daemon (machine port) w = Some (Inr port, w0)"
    by (simp add: ensure_rootless_dns_daemon_def bindc_def attempt_def ret_def)
  have ready: "built_in w0"
    using keepsD [OF confinement.keeps_client(1) [OF confinement.intro [OF built_in_confined]] assms(1) w0] .
  then obtain os os6 where os: "nf_chains machine_filter w0 (Inet, ''filter'', ''OUTPUT'') = Some os"
    "nf_chains machine_filter w0 (Inet6, ''filter'', ''OUTPUT'') = Some os6" and nat: "nat_ready machine_filter w0"
    and out: "fst w0 (Inet, ''filter'', ''OUTPUT'') \<noteq> None"
    by (auto simp: built_in_def nat_ready_def)
  obtain w1 where w1: "ensure_rootless_podman_rules (machine port) ''/usr/sbin/iptables'' ''/usr/sbin/ip6tables'' name ?source
      None ''eth0'' port w0 = Some (Inr (), w1)"
    using podman_rules_run [OF machine_iptables_laws machine_match_laws ip(3,4) machine_podman_valid os(1) nat os(2)] by blast
  have "field_ok (case Some ?source of Some sn \<Rightarrow> sn | None \<Rightarrow> [])" using field_ok_source by simp
  then obtain w2 where w2: "send_create (machine port) name (Some ?source) domains w1 = Some (Inr (), w2)"
    by (rule send_create_served [OF machine_serves assms(2,3) _ assms(4)])
  have sets: "destroy_ipsets (machine port) ''/usr/sbin/ipset'' name w0 = Some (Inr (), w0)"
    "create_ipsets (machine port) ''/usr/sbin/ipset'' name w0 = Some (Inr (), w0)"
    by (simp_all add: destroy_ipsets_def create_ipsets_def create_ipset_def bindc_def attempt_def machine_output(1) ip
        done_with_def ret_def)
  have "prepare_rootless_podman_network (machine port) name domains (Some ''eth0'') w = Some (Inr (), w2)"
    by (simp add: prepare_rootless_podman_network_def ensure_rootless_dns_alias_def IP_CANDIDATES_def IPSET_CANDIDATES_def
        IPTABLES_CANDIDATES_def IP6TABLES_CANDIDATES_def bindc_def machine_host_root machine_trusted machine_checked [OF ip(1)]
        daemon eth lift_result_def ret_def machine_allocates [OF out] sets w1 w2 machine_messages Let_def
        del: resolve_binary.simps)
  then show ?thesis by (simp add: prepare_network_def)
qed


end
