(* ===== verification/Helper_Sets.thy ===== *)
theory Helper_Sets
  imports Helper_Prepare
begin

text \<open>
  The kernel sets of a policy when its network is prepared (\<^verbatim>\<open>destroy_ipsets\<close> and \<^verbatim>\<open>create_ipsets\<close> of \<^verbatim>\<open>src/src/helper.rs\<close>),
  on a system whose \<^verbatim>\<open>ipset\<close> program follows its manual.
\<close>

section \<open>The program \<^verbatim>\<open>ipset\<close>\<close>

text \<open>
  A set has a family, a maximal number of elements and members. The commands that the preparation uses, with
  their arguments, and what the manual says of them: a set that a rule refers to cannot be destroyed or renamed, a set
  can be created again with \<^verbatim>\<open>-exist\<close> only with the same parameters, and only sets of the same family can be swapped. A
  command that is refused changes nothing.
\<close>

type_synonym kernel_set = "string \<times> string \<times> ip_addr set"

datatype ipset_op =
    Destroy string
  | CreateExist string string
  | CreateNew string string
  | Swap string string
  | Rename string string

definition MAXELEM :: string where
  "MAXELEM = ''1000000000''"

fun op_args :: "ipset_op \<Rightarrow> string list" where
  "op_args (Destroy n) = [''destroy'', n]"
| "op_args (CreateExist n fam) = [''create'', n, ''hash:ip'', ''family'', fam, ''maxelem'', MAXELEM, ''-exist'']"
| "op_args (CreateNew n fam) = [''create'', n, ''hash:ip'', ''family'', fam, ''maxelem'', MAXELEM]"
| "op_args (Swap a b) = [''swap'', a, b]"
| "op_args (Rename a b) = [''rename'', a, b]"

fun op_effect :: "string set \<Rightarrow> ipset_op \<Rightarrow> (string \<rightharpoonup> kernel_set) \<Rightarrow> (string \<rightharpoonup> kernel_set) option" where
  "op_effect refs (Destroy n) m = (if m n \<noteq> None \<and> n \<notin> refs then Some (m(n := None)) else None)"
| "op_effect refs (CreateExist n fam) m =
     (case m n of
        None \<Rightarrow> Some (m(n \<mapsto> (fam, MAXELEM, {})))
      | Some (g, x, _) \<Rightarrow> if g = fam \<and> x = MAXELEM then Some m else None)"
| "op_effect refs (CreateNew n fam) m = (if m n = None then Some (m(n \<mapsto> (fam, MAXELEM, {}))) else None)"
| "op_effect refs (Swap a b) m =
     (case (m a, m b) of
        (Some s, Some t) \<Rightarrow> if fst s = fst t then Some (m(a \<mapsto> t, b \<mapsto> s)) else None
      | _ \<Rightarrow> None)"
| "op_effect refs (Rename a b) m =
     (case m a of
        Some s \<Rightarrow> if m b = None \<and> a \<notin> refs then Some (m(a := None, b \<mapsto> s)) else None
      | None \<Rightarrow> None)"

definition ipset_tool :: "'w host \<Rightarrow> ('w \<Rightarrow> string \<rightharpoonup> kernel_set) \<Rightarrow> ('w \<Rightarrow> string set) \<Rightarrow> bool" where
  "ipset_tool h sets refs \<longleftrightarrow>
     (\<forall>b \<in> set IPSET_CANDIDATES. \<forall>op w. \<exists>res w'.
        host_output h (helper_command b (op_args op)) w = (Inr res, w') \<and> refs w' = refs w \<and>
        (case op_effect (refs w) op (sets w) of
           Some m \<Rightarrow> status_success res \<and> sets w' = m
         | None \<Rightarrow> \<not> status_success res \<and> sets w' = sets w))"

section \<open>Laws\<close>

lemma tool_run:
  assumes "ipset_tool h sets refs" and "b \<in> set IPSET_CANDIDATES"
  obtains res w' where "run_command_allow_failure h b (op_args op) w = Some (Inr res, w')" and "refs w' = refs w"
    and "status_success res \<longleftrightarrow> op_effect (refs w) op (sets w) \<noteq> None"
    and "sets w' = (case op_effect (refs w) op (sets w) of Some m \<Rightarrow> m | None \<Rightarrow> sets w)"
proof -
  from assms obtain res w' where "host_output h (helper_command b (op_args op)) w = (Inr res, w')" "refs w' = refs w"
    "case op_effect (refs w) op (sets w) of
       Some m \<Rightarrow> status_success res \<and> sets w' = m | None \<Rightarrow> \<not> status_success res \<and> sets w' = sets w"
    unfolding ipset_tool_def by blast
  then show thesis by (intro that [of res w']) (auto simp: run_command_allow_failure_apply split: option.splits)
qed

lemma tool_checked:
  assumes "ipset_tool h sets refs" and "b \<in> set IPSET_CANDIDATES" and "op_effect (refs w) op (sets w) = Some m"
  obtains res w' where "run_command_checked h b (op_args op) w = Some (Inr res, w')" and "refs w' = refs w" and "sets w' = m"
proof -
  obtain res w' where "run_command_allow_failure h b (op_args op) w = Some (Inr res, w')" "refs w' = refs w" "status_success res"
    "sets w' = m"
    using tool_run [OF assms(1,2), of op w] assms(3) by auto
  then show thesis by (intro that [of res w']) (simp_all add: run_command_checked_def bindc_def ret_def)
qed

lemma try_destroy:
  assumes "ipset_tool h sets refs" and "b \<in> set IPSET_CANDIDATES"
  obtains r w' where "attempt (run_command_allow_failure h b [''destroy'', n]) w = Some (Inr r, w')" and "refs w' = refs w"
    and "sets w' = (if n \<in> refs w then sets w else (sets w)(n := None))"
proof -
  obtain res w' where "run_command_allow_failure h b [''destroy'', n] w = Some (Inr res, w')" "refs w' = refs w"
    "sets w' = (case op_effect (refs w) (Destroy n) (sets w) of Some m \<Rightarrow> m | None \<Rightarrow> sets w)"
    by (rule tool_run [OF assms, of "Destroy n" w, unfolded op_args.simps])
  then show thesis
    by (intro that [of "Inr res" w'])
      (cases "sets w n"; auto simp: attempt_def fun_upd_idem)+
qed

lemma create_quick:
  assumes "ipset_tool h sets refs" and "b \<in> set IPSET_CANDIDATES" and "op_effect (refs w) (CreateExist n fam) (sets w) = Some m"
  shows "\<exists>w'. create_ipset h b n fam w = Some (Inr (), w') \<and> refs w' = refs w \<and> sets w' = m"
proof -
  obtain res w' where "run_command_allow_failure h b (op_args (CreateExist n fam)) w = Some (Inr res, w')" "refs w' = refs w"
    "status_success res" "sets w' = m"
    using tool_run [OF assms(1,2), of "CreateExist n fam" w] assms(3) by auto
  then show ?thesis by (simp add: create_ipset_def bindc_def ret_def MAXELEM_def)
qed

text \<open>A set of the right family and another size is replaced by way of a temporary set.\<close>

lemma create_replaces:
  assumes tool: "ipset_tool h sets refs" "b \<in> set IPSET_CANDIDATES"
    and old: "sets w n = Some (fam, x, S)" "x \<noteq> MAXELEM" and tmp: "n @ ''-tmp'' \<notin> refs w"
  shows "\<exists>w'. create_ipset h b n fam w = Some (Inr (), w') \<and> refs w' = refs w \<and>
     sets w' = (sets w)(n \<mapsto> (fam, MAXELEM, {}), n @ ''-tmp'' := None)"
proof -
  let ?tmp = "n @ ''-tmp''"
  obtain res1 w1 where w1: "run_command_allow_failure h b (op_args (CreateExist n fam)) w = Some (Inr res1, w1)"
    "refs w1 = refs w" "\<not> status_success res1" "sets w1 = sets w"
    using tool_run [OF tool, of "CreateExist n fam" w] old by auto
  obtain r2 w2 where w2: "attempt (run_command_allow_failure h b [''destroy'', ?tmp]) w1 = Some (Inr r2, w2)"
    "refs w2 = refs w" "sets w2 = (sets w)(?tmp := None)"
    using try_destroy [OF tool, of ?tmp w1] tmp w1 by auto
  have "op_effect (refs w2) (CreateNew ?tmp fam) (sets w2) = Some ((sets w)(?tmp \<mapsto> (fam, MAXELEM, {})))"
    by (simp add: w2)
  then obtain res3 w3 where w3: "run_command_checked h b (op_args (CreateNew ?tmp fam)) w2 = Some (Inr res3, w3)"
    "refs w3 = refs w" "sets w3 = (sets w)(?tmp \<mapsto> (fam, MAXELEM, {}))"
    using tool_checked [OF tool, of w2 "CreateNew ?tmp fam"] w2 by metis
  obtain res4 w4 where w4: "run_command_allow_failure h b (op_args (Swap n ?tmp)) w3 = Some (Inr res4, w4)"
    "refs w4 = refs w" "status_success res4" "sets w4 = (sets w)(?tmp \<mapsto> (fam, x, S), n \<mapsto> (fam, MAXELEM, {}))"
    using tool_run [OF tool, of "Swap n ?tmp" w3] w3 old by (auto simp: fun_upd_twist)
  have "op_effect (refs w4) (Destroy ?tmp) (sets w4) = Some ((sets w)(n \<mapsto> (fam, MAXELEM, {}), ?tmp := None))"
    using tmp by (simp add: w4 fun_upd_twist)
  then obtain res5 w5 where w5: "run_command_checked h b (op_args (Destroy ?tmp)) w4 = Some (Inr res5, w5)"
    "refs w5 = refs w" "sets w5 = (sets w)(n \<mapsto> (fam, MAXELEM, {}), ?tmp := None)"
    using tool_checked [OF tool, of w4 "Destroy ?tmp"] w4 by metis
  have "create_ipset h b n fam w = Some (Inr (), w5)"
    using w1 w2 w3 w4 w5 by (simp add: create_ipset_def bindc_def ret_def MAXELEM_def Let_def)
  with w5 show ?thesis by blast
qed

text \<open>What is left of the members of a set, and when the creation works out.\<close>

definition left_over :: "kernel_set option \<Rightarrow> ip_addr set" where
  "left_over s = (case s of Some (_, x, S) \<Rightarrow> if x = MAXELEM then S else {} | None \<Rightarrow> {})"

definition same_family :: "string \<Rightarrow> kernel_set option \<Rightarrow> bool" where
  "same_family fam s = (case s of Some (g, _, _) \<Rightarrow> g = fam | None \<Rightarrow> True)"

lemma create_run:
  assumes tool: "ipset_tool h sets refs" "b \<in> set IPSET_CANDIDATES"
    and "same_family fam (sets w n)" and tmp: "n @ ''-tmp'' \<notin> refs w"
  shows "\<exists>w'. create_ipset h b n fam w = Some (Inr (), w') \<and> refs w' = refs w \<and>
     sets w' n = Some (fam, MAXELEM, left_over (sets w n)) \<and>
     (\<forall>k. k \<noteq> n \<longrightarrow> k \<noteq> n @ ''-tmp'' \<longrightarrow> sets w' k = sets w k)"
proof (cases "sets w n")
  case None
  then have "op_effect (refs w) (CreateExist n fam) (sets w) = Some ((sets w)(n \<mapsto> (fam, MAXELEM, {})))" by simp
  from create_quick [OF tool this] None show ?thesis by (auto simp: left_over_def)
next
  case (Some s)
  then obtain x S where s: "sets w n = Some (fam, x, S)" using assms(3) by (cases s) (auto simp: same_family_def)
  show ?thesis
  proof (cases "x = MAXELEM")
    case True
    then have "op_effect (refs w) (CreateExist n fam) (sets w) = Some (sets w)" using s by simp
    from create_quick [OF tool this] s True show ?thesis by (auto simp: left_over_def)
  next
    case False
    from create_replaces [OF tool s False tmp] s False show ?thesis by (auto simp: left_over_def)
  qed
qed

lemma destroy_run:
  assumes tool: "ipset_tool h sets refs" "b \<in> set IPSET_CANDIDATES"
  shows "\<exists>w'. destroy_ipsets h b name w = Some (Inr (), w') \<and> refs w' = refs w \<and>
     (\<forall>k. sets w' k = (if k \<in> {name, ipv6_ipset_name name} - refs w then None else sets w k))"
proof -
  obtain r1 w1 where w1: "attempt (run_command_allow_failure h b [''destroy'', name]) w = Some (Inr r1, w1)" "refs w1 = refs w"
    "sets w1 = (if name \<in> refs w then sets w else (sets w)(name := None))"
    using try_destroy [OF tool, of name w] by metis
  obtain r2 w2 where w2: "attempt (run_command_allow_failure h b [''destroy'', ipv6_ipset_name name]) w1 = Some (Inr r2, w2)"
    "refs w2 = refs w1"
    "sets w2 = (if ipv6_ipset_name name \<in> refs w1 then sets w1 else (sets w1)(ipv6_ipset_name name := None))"
    using try_destroy [OF tool, of "ipv6_ipset_name name" w1] by metis
  have "destroy_ipsets h b name w = Some (Inr (), w2)"
    using w1(1) w2(1) by (simp add: destroy_ipsets_def bindc_def ret_def)
  then show ?thesis using w1 w2 by (intro exI [of _ w2]) auto
qed

section \<open>Properties\<close>

text \<open>
  C14: Preparing the kernel sets always leaves a usable pair. With an \<^verbatim>\<open>ipset\<close> that follows its manual, when a set that
  rules refer to has the family it should have and no rule refers to the temporary names, destroying and creating
  the sets of a policy succeeds; afterwards both sets exist with their family and size, also where an old set
  had another size, and no set but these two and the temporary ones changed. A set that no rule referred to is
  empty; one that a rule refers to keeps the members it had.
\<close>

theorem prepared_sets:
  assumes "ipset_tool h sets refs" and "b \<in> set IPSET_CANDIDATES"
    and "name \<in> refs w \<longrightarrow> same_family ''inet'' (sets w name)"
    and "ipv6_ipset_name name \<in> refs w \<longrightarrow> same_family ''inet6'' (sets w (ipv6_ipset_name name))"
    and "name @ ''-tmp'' \<notin> refs w" and "ipv6_ipset_name name @ ''-tmp'' \<notin> refs w"
  shows "\<exists>w'. bindc (destroy_ipsets h b name) (\<lambda>_. create_ipsets h b name) w = Some (Inr (), w') \<and>
     sets w' name = Some (''inet'', MAXELEM, if name \<in> refs w then left_over (sets w name) else {}) \<and>
     sets w' (ipv6_ipset_name name) =
       Some (''inet6'', MAXELEM, if ipv6_ipset_name name \<in> refs w then left_over (sets w (ipv6_ipset_name name)) else {}) \<and>
     (\<forall>k. k \<notin> {name, ipv6_ipset_name name, name @ ''-tmp'', ipv6_ipset_name name @ ''-tmp''} \<longrightarrow> sets w' k = sets w k)"
proof -
  let ?v6 = "ipv6_ipset_name name"
  have apart: "?v6 \<noteq> name" "?v6 \<noteq> name @ ''-tmp''" "name \<noteq> ?v6 @ ''-tmp''" by (simp_all add: ipv6_ipset_name_def)
  obtain w1 where w1: "destroy_ipsets h b name w = Some (Inr (), w1)" "refs w1 = refs w"
    "\<And>k. sets w1 k = (if k \<in> {name, ?v6} - refs w then None else sets w k)"
    using destroy_run [OF assms(1,2)] by metis
  have "same_family ''inet'' (sets w1 name)" "name @ ''-tmp'' \<notin> refs w1"
    using assms(3,5) w1 by (auto simp: same_family_def)
  from create_run [OF assms(1,2) this] obtain w2 where w2: "create_ipset h b name ''inet'' w1 = Some (Inr (), w2)" "refs w2 = refs w1"
    "sets w2 name = Some (''inet'', MAXELEM, left_over (sets w1 name))"
    "\<And>k. k \<noteq> name \<Longrightarrow> k \<noteq> name @ ''-tmp'' \<Longrightarrow> sets w2 k = sets w1 k" by metis
  have "same_family ''inet6'' (sets w2 ?v6)" "?v6 @ ''-tmp'' \<notin> refs w2"
    using assms(4,6) w1 w2 apart by (auto simp: same_family_def)
  from create_run [OF assms(1,2) this] obtain w3 where w3: "create_ipset h b ?v6 ''inet6'' w2 = Some (Inr (), w3)"
    "sets w3 ?v6 = Some (''inet6'', MAXELEM, left_over (sets w2 ?v6))"
    "\<And>k. k \<noteq> ?v6 \<Longrightarrow> k \<noteq> ?v6 @ ''-tmp'' \<Longrightarrow> sets w3 k = sets w2 k" by metis
  have "bindc (destroy_ipsets h b name) (\<lambda>_. create_ipsets h b name) w = Some (Inr (), w3)"
    using w1(1) w2(1) w3(1) by (simp add: create_ipsets_def bindc_def)
  then show ?thesis using w1(3) w2(3,4) w3(2,3) apart by (intro exI [of _ w3]) (auto simp: left_over_def)
qed

text \<open>A machine with kernel sets and references to them.\<close>

definition op_of :: "string list \<Rightarrow> ipset_op option" where
  "op_of args =
     (case args of
        [c, n] \<Rightarrow> if c = ''destroy'' then Some (Destroy n) else None
      | [c, a, b] \<Rightarrow> if c = ''swap'' then Some (Swap a b) else if c = ''rename'' then Some (Rename a b) else None
      | [c, n, _, _, fam, _, _] \<Rightarrow> if c = ''create'' then Some (CreateNew n fam) else None
      | [c, n, _, _, fam, _, _, _] \<Rightarrow> if c = ''create'' then Some (CreateExist n fam) else None
      | _ \<Rightarrow> None)"

lemma op_of_args: "op_of (op_args op) = Some op"
  by (cases op) (simp_all add: op_of_def)

type_synonym sets_world = "(string \<rightharpoonup> kernel_set) \<times> string set"

definition sets_machine :: "sets_world host" where
  "sets_machine =
     \<lparr>host_output = (\<lambda>c (m, refs).
        case op_of (cmd_args c) of
          None \<Rightarrow> (done_with False, m, refs)
        | Some op \<Rightarrow> (case op_effect refs op m of Some m' \<Rightarrow> (done_with True, m', refs) | None \<Rightarrow> (done_with False, m, refs))),
      host_output_stdin = (\<lambda>_ _ w. (done_with True, w)), host_spawn = (\<lambda>_ w. (Inl (IoError ''spawn''), w)),
      host_metadata = (\<lambda>_ _. None), host_read_file = (\<lambda>_ _. Inl (IoError ''no such file'')),
      host_current_exe = (\<lambda>_. Inl (IoError ''no such file'')), host_exchange = (\<lambda>_ _ w. (Inl (IoError ''refused''), w)),
      host_sleep = (\<lambda>_ w. w), host_println = (\<lambda>_ w. w), host_eprintln = (\<lambda>_ w. w)\<rparr>"

lemma sets_machine_tool: "ipset_tool sets_machine fst snd"
  by (auto simp: ipset_tool_def sets_machine_def helper_command_def op_of_args done_with_def split: option.splits)

theorem prepared_sets_witness:
  "\<exists>w'. bindc (destroy_ipsets sets_machine ''/usr/sbin/ipset'' ''web'') (\<lambda>_. create_ipsets sets_machine ''/usr/sbin/ipset'' ''web'')
      ([''web'' \<mapsto> (''inet'', MAXELEM, {V4 1}), ''web-v6'' \<mapsto> (''inet6'', ''65536'', {V6 2})], {''web'', ''web-v6''}) = Some (Inr (), w') \<and>
     fst w' ''web'' = Some (''inet'', MAXELEM, {V4 1}) \<and> fst w' ''web-v6'' = Some (''inet6'', MAXELEM, {})"
proof -
  let ?w = "([''web'' \<mapsto> (''inet'', MAXELEM, {V4 1}), ''web-v6'' \<mapsto> (''inet6'', ''65536'', {V6 2})], {''web'', ''web-v6''}) :: sets_world"
  have v6: "ipv6_ipset_name ''web'' = ''web-v6''" by (simp add: ipv6_ipset_name_def)
  have b: "''/usr/sbin/ipset'' \<in> set IPSET_CANDIDATES" by (simp add: IPSET_CANDIDATES_def)
  have "''web'' \<in> snd ?w \<longrightarrow> same_family ''inet'' (fst ?w ''web'')"
    "ipv6_ipset_name ''web'' \<in> snd ?w \<longrightarrow> same_family ''inet6'' (fst ?w (ipv6_ipset_name ''web''))"
    "''web'' @ ''-tmp'' \<notin> snd ?w" "ipv6_ipset_name ''web'' @ ''-tmp'' \<notin> snd ?w"
    by (simp_all add: v6 same_family_def)
  from prepared_sets [of sets_machine fst snd "''/usr/sbin/ipset''" "''web''" ?w, OF sets_machine_tool b this]
  obtain w' where "bindc (destroy_ipsets sets_machine ''/usr/sbin/ipset'' ''web'') (\<lambda>_. create_ipsets sets_machine ''/usr/sbin/ipset'' ''web'') ?w =
      Some (Inr (), w')"
    and "fst w' ''web'' = Some (''inet'', MAXELEM, left_over (fst ?w ''web''))"
    and "fst w' ''web-v6'' = Some (''inet6'', MAXELEM, left_over (fst ?w ''web-v6''))"
    unfolding v6 by auto
  then show ?thesis by (intro exI [of _ w']) (simp add: left_over_def MAXELEM_def)
qed

end
