(* ===== verification/Proxy.thy ===== *)
theory Proxy
  imports Control Ipset
begin

text \<open>
  The DNS proxy (\<^verbatim>\<open>src/src/proxy.rs\<close>): which clients it serves, how a request is read and answered, and
  what it does with a response. The parser of DNS messages (the crate \<^verbatim>\<open>hickory_proto\<close>) and the UDP sockets
  are parameters.
\<close>

section \<open>Model\<close>

subsection \<open>Clients\<close>

definition MAX_CONCURRENT_PER_IP :: nat where
  "MAX_CONCURRENT_PER_IP = 32"

definition MAX_CONCURRENT_GLOBAL :: nat where
  "MAX_CONCURRENT_GLOBAL = 10000"

definition is_local_ip :: "ip_addr \<Rightarrow> bool" where
  "is_local_ip ip =
     (case ip of
        V4 ipv4 \<Rightarrow>
          ipv4_is_loopback ipv4 \<or> ipv4_is_private ipv4 \<or> ipv4_is_link_local ipv4 \<or>
          (octets ipv4 ! 0 = 198 \<and> (octets ipv4 ! 1 = 18 \<or> octets ipv4 ! 1 = 19))
      | V6 ipv6 \<Rightarrow>
          ipv6_is_loopback ipv6 \<or> ipv6_is_unique_local ipv6 \<or> ipv6_is_unicast_link_local ipv6)"

subsection \<open>Sockets\<close>

text \<open>
  A datagram as \<^verbatim>\<open>recvmsg\<close> delivers it: its bytes cut to the buffer, the two truncation flags, the sender and
  the control messages, of which only the IPv4 packet information matters.
\<close>

datatype control_message = Ipv4PacketInfo u32 | OtherControl

record received =
  rm_bytes :: string
  rm_truncated :: bool
  rm_control_truncated :: bool
  rm_address :: "(u32 \<times> u16) option"
  rm_cmsgs :: "control_message list result"

record 'w udp =
  udp_bind :: "string \<Rightarrow> 'w \<Rightarrow> nat result \<times> 'w"
  udp_send_to :: "nat \<Rightarrow> string \<Rightarrow> socket_addr \<Rightarrow> 'w \<Rightarrow> unit result \<times> 'w"
  udp_recv_from :: "nat \<Rightarrow> nat \<Rightarrow> 'w \<Rightarrow> (string \<times> socket_addr) result \<times> 'w"
  udp_recv_timeout :: "nat \<Rightarrow> nat \<Rightarrow> nat \<Rightarrow> 'w \<Rightarrow> (string \<times> socket_addr) result option \<times> 'w"
  udp_recvmsg :: "nat \<Rightarrow> nat \<Rightarrow> 'w \<Rightarrow> received result \<times> 'w"
  udp_sendmsg :: "nat \<Rightarrow> string \<Rightarrow> u32 \<Rightarrow> u32 \<Rightarrow> u16 \<Rightarrow> 'w \<Rightarrow> unit result \<times> 'w"

text \<open>
  \<open>udp_recv_timeout\<close> is None when the time in seconds is over; \<open>udp_sendmsg\<close> takes the source address of the
  packet information and the address and port of the client.
\<close>

definition call :: "('w \<Rightarrow> 'a result \<times> 'w) \<Rightarrow> ('w, 'a) cmd" where
  "call f w = Some (f w)"

fun packet_info :: "control_message list \<Rightarrow> u32 option" where
  "packet_info [] = None"
| "packet_info (Ipv4PacketInfo spec_dst # rest) = Some spec_dst"
| "packet_info (OtherControl # rest) = packet_info rest"

definition receive_dns_request ::
  "'w udp \<Rightarrow> nat \<Rightarrow> bool \<Rightarrow> ('w, string \<times> socket_addr \<times> u32 option) cmd" where
  "receive_dns_request u listener receive_packet_info =
     (if \<not> receive_packet_info then
        bindc (call (udp_recv_from u listener 4096)) (\<lambda>(bytes, client_addr). ret (bytes, client_addr, None))
      else
        bindc (call (udp_recvmsg u listener 4096)) (\<lambda>message.
          if rm_truncated message \<or> rm_control_truncated message then fail (IoError ''truncated DNS packet'')
          else
            (case rm_address message of
               None \<Rightarrow> fail (IoError ''DNS packet has no source address'')
             | Some (addr, port) \<Rightarrow>
                 bindc (lift_result (rm_cmsgs message)) (\<lambda>cmsgs.
                   case packet_info cmsgs of
                     None \<Rightarrow> fail (IoError ''DNS packet has no destination address'')
                   | Some reply_source \<Rightarrow> ret (rm_bytes message, SockV4 addr port, Some reply_source)))))"

definition send_dns_response ::
  "'w udp \<Rightarrow> nat \<Rightarrow> string \<Rightarrow> socket_addr \<Rightarrow> u32 option \<Rightarrow> ('w, unit) cmd" where
  "send_dns_response u listener response client_addr reply_source =
     (case reply_source of
        None \<Rightarrow> call (udp_send_to u listener response client_addr)
      | Some source \<Rightarrow>
          (case client_addr of
             SockV4 addr port \<Rightarrow> call (udp_sendmsg u listener response source addr port)
           | SockV6 _ _ \<Rightarrow> fail (IoError ''IPv4 packet information with an IPv6 client'')))"

definition forward_dns_query :: "'w udp \<Rightarrow> string \<Rightarrow> socket_addr \<Rightarrow> ('w, string) cmd" where
  "forward_dns_query u query upstream_addr =
     bindc (call (udp_bind u ''0.0.0.0:0'')) (\<lambda>upstream.
     bindc (call (udp_send_to u upstream query upstream_addr)) (\<lambda>_. \<lambda>w.
       case udp_recv_timeout u 5 upstream 4096 w of
         (Some (Inr (bytes, _)), w') \<Rightarrow> Some (Inr bytes, w')
       | (Some (Inl err), w') \<Rightarrow> Some (Inl err, w')
       | (None, w') \<Rightarrow> Some (Inl (Msg ''upstream dns timeout''), w')))"

subsection \<open>Responses\<close>

text \<open>The part of \<^verbatim>\<open>hickory_proto::op::Message\<close> that the code reads; names are the text of \<^verbatim>\<open>to_utf8\<close>.\<close>

datatype rdata = A u32 | AAAA u128 | OtherData

record dns_message =
  msg_queries :: "string list"
  msg_answers :: "rdata list"

fun collect_answers :: "rdata list \<Rightarrow> ip_addr list \<Rightarrow> ip_addr list" where
  "collect_answers [] acc = acc"
| "collect_answers (A ipv4 # rest) acc = collect_answers rest (acc @ [V4 ipv4])"
| "collect_answers (AAAA ipv6 # rest) acc = collect_answers rest (acc @ [V6 ipv6])"
| "collect_answers (OtherData # rest) acc = collect_answers rest acc"

definition collect_resolved_ips :: "dns_message \<Rightarrow> ip_addr list" where
  "collect_resolved_ips message = collect_answers (msg_answers message) []"

text \<open>The iteration orders of the hash maps and sets during the handling of one response, and the
  time of each query that is recorded.\<close>

record orders =
  subnet_order :: "(string, u32) hash_map \<Rightarrow> (string, u32) hash_map"
  set_order :: "state_map \<Rightarrow> state_map"
  ip_order :: "ip_addr list \<Rightarrow> ip_addr list"
  clock :: "nat \<Rightarrow> int"

definition query_domain :: "string \<Rightarrow> string" where
  "query_domain name = to_ascii_lowercase (trim_end_matches CHR ''.'' name)"

fun record_queries :: "orders \<Rightarrow> ip_addr \<Rightarrow> nat \<Rightarrow> string list \<Rightarrow> string list \<Rightarrow> daemon \<Rightarrow> string list \<times> daemon" where
  "record_queries ord origin ttl [] domains d = (domains, d)"
| "record_queries ord origin ttl (query # rest) domains d =
     (let domain = query_domain query;
          d' = d\<lparr>d_stats := record_resolve (subnet_order ord) (clock ord (length domains)) (d_state d) domain origin ttl (d_stats d)\<rparr>
      in record_queries ord origin ttl rest (domains @ [domain]) d')"

fun update_sets :: "'w host \<Rightarrow> (string \<times> ip_addr list) list \<Rightarrow> ('w, unit) cmd" where
  "update_sets h [] = ret ()"
| "update_sets h ((name, addrs) # rest) =
     bindc (attempt (update_ipset h name addrs)) (\<lambda>r.
     bindc (case r of
              Inl err \<Rightarrow> sys_eprintln h (''ipset update error for '' @ name @ '': '' @ error_text err)
            | Inr _ \<Rightarrow> ret ()) (\<lambda>_.
       update_sets h rest))"

text \<open>
  The daemon's own state is the first part of the world of the proxy, the rest of the system the second.
\<close>

definition on_world :: "('w, 'a) cmd \<Rightarrow> (daemon \<times> 'w, 'a) cmd" where
  "on_world m = (\<lambda>(d, w). case m w of None \<Rightarrow> None | Some (r, w') \<Rightarrow> Some (r, d, w'))"

definition inspect_and_update_state ::
  "(string \<Rightarrow> dns_message option) \<Rightarrow> orders \<Rightarrow> 'w host \<Rightarrow> string \<Rightarrow> ip_addr \<Rightarrow> nat \<Rightarrow> (daemon \<times> 'w, unit) cmd" where
  "inspect_and_update_state from_vec ord h response origin stats_ttl = (\<lambda>(d, w).
     case from_vec response of
       None \<Rightarrow> Some (Inr (), d, w)
     | Some message \<Rightarrow>
         (let resolved_ips = collect_resolved_ips message;
              (domains, d1) = record_queries ord origin stats_ttl (msg_queries message) [] d
          in if resolved_ips = [] then Some (Inr (), d1, w)
             else
               (let (changed_sets, st) = apply_resolved_ips (set_order ord) (ip_order ord) domains resolved_ips (d_state d1);
                    d2 = d1\<lparr>d_state := st\<rparr>
                in if changed_sets = [] then Some (Inr (), d2, w)
                   else on_world (update_sets h changed_sets) (d2, w))))"

text \<open>The task that serves one query, once it holds its permits; every error ends in a log line.\<close>

definition log_error :: "'w host \<Rightarrow> string \<Rightarrow> unit result \<Rightarrow> (daemon \<times> 'w, unit) cmd" where
  "log_error h what r =
     (case r of Inl err \<Rightarrow> on_world (sys_eprintln h (what @ error_text err)) | Inr _ \<Rightarrow> ret ())"

definition serve_query ::
  "(string \<Rightarrow> dns_message option) \<Rightarrow> orders \<Rightarrow> 'w host \<Rightarrow> 'w udp \<Rightarrow> nat \<Rightarrow> socket_addr \<Rightarrow> nat
     \<Rightarrow> string \<Rightarrow> socket_addr \<Rightarrow> u32 option \<Rightarrow> (daemon \<times> 'w, unit) cmd" where
  "serve_query from_vec ord h u listener upstream_addr stats_ttl query client_addr reply_source =
     bindc (attempt (on_world (forward_dns_query u query upstream_addr))) (\<lambda>forwarded.
       case forwarded of
         Inl err \<Rightarrow> on_world (sys_eprintln h (''proxy forward error: '' @ error_text err))
       | Inr response \<Rightarrow>
           bindc (attempt (inspect_and_update_state from_vec ord h response (sock_ip client_addr) stats_ttl)) (\<lambda>r.
           bindc (log_error h ''proxy state update error: '' r) (\<lambda>_.
           bindc (attempt (on_world (send_dns_response u listener response client_addr reply_source))) (\<lambda>s.
             log_error h ''proxy send_to error: '' s))))"

section \<open>Reading a response\<close>

lemma collect_answers_acc: "collect_answers rs acc = acc @ collect_answers rs []"
proof (induction rs arbitrary: acc)
  case (Cons r rs)
  show ?case
  proof (cases r)
    case (A a)
    then show ?thesis using Cons [of "acc @ [V4 a]"] Cons [of "[V4 a]"] by simp
  next
    case (AAAA a)
    then show ?thesis using Cons [of "acc @ [V6 a]"] Cons [of "[V6 a]"] by simp
  next
    case OtherData
    then show ?thesis using Cons [of acc] by simp
  qed
qed simp

lemma collect_answers_mem:
  "V4 a \<in> set (collect_answers rs []) \<longleftrightarrow> A a \<in> set rs"
  "V6 b \<in> set (collect_answers rs []) \<longleftrightarrow> AAAA b \<in> set rs"
proof (induction rs)
  case (Cons r rs)
  {
    case 1
    show ?case using Cons by (cases r) (simp_all add: collect_answers_acc [where acc = "[_]"])
  next
    case 2
    show ?case using Cons by (cases r) (simp_all add: collect_answers_acc [where acc = "[_]"])
  }
qed simp_all

lemma record_queries_state:
  "fst (record_queries ord origin ttl qs ds d) = ds @ map query_domain qs"
  "d_state (snd (record_queries ord origin ttl qs ds d)) = d_state d"
  by (induction qs arbitrary: ds d) (simp_all add: Let_def)

lemma daemon_inv_record_queries:
  "daemon_inv d \<Longrightarrow> daemon_inv (snd (record_queries ord origin ttl qs ds d))"
proof (induction qs arbitrary: ds d)
  case (Cons q qs)
  have "daemon_inv (d\<lparr>d_stats := record_resolve (subnet_order ord) (clock ord (length ds)) (d_state d) (query_domain q) origin ttl (d_stats d)\<rparr>)"
    using Cons.prems by (simp add: daemon_inv_def wf_stats_record registry_inv_record)
  with Cons.IH show ?case by (simp add: Let_def)
qed simp

lemma query_domain_eq: "query_domain = normalize_domain"
  by (simp add: query_domain_def normalize_domain_def fun_eq_iff)

section \<open>From the daemon's state to the kernel\<close>

abbreviation v4_of :: "ip_addr list \<Rightarrow> ip_addr set" where
  "v4_of addrs \<equiv> {a \<in> set addrs. \<exists>x. a = V4 x}"

abbreviation v6_of :: "ip_addr list \<Rightarrow> ip_addr set" where
  "v6_of addrs \<equiv> {a \<in> set addrs. \<exists>x. a = V6 x}"

text \<open>A machine where a trusted \<^verbatim>\<open>ipset\<close> program is always found.\<close>

definition ipset_installed :: "'w host \<Rightarrow> bool" where
  "ipset_installed h \<longleftrightarrow> (\<forall>w. find (trusted_in h w) IPSET_CANDIDATES \<noteq> None)"

text \<open>Names that the kernel can tell apart: single words, and none the IPv6 companion of another one.\<close>

definition names_apart :: "string set \<Rightarrow> bool" where
  "names_apart N \<longleftrightarrow> (\<forall>n \<in> N. token n \<and> ipv6_ipset_name n \<notin> N)"

lemma ipv6_ipset_name_inj: "ipv6_ipset_name a = ipv6_ipset_name b \<longleftrightarrow> a = b"
  by (simp add: ipv6_ipset_name_def)

lemma update_sets_run:
  assumes laws: "ipset_laws h exec sets storable" and inst: "ipset_installed h"
    and "distinct (map fst changed)" and "names_apart N" and "fst ` set changed \<subseteq> N"
    and "\<And>n. n \<in> fst ` set changed \<Longrightarrow> sets w n \<noteq> None \<and> sets w (ipv6_ipset_name n) \<noteq> None"
    and "\<And>n addrs a. (n, addrs) \<in> set changed \<Longrightarrow> a \<in> set addrs \<Longrightarrow> storable (set_for n a) a"
  shows "\<exists>w'. update_sets h changed w = Some (Inr (), w') \<and>
     (\<forall>n addrs. (n, addrs) \<in> set changed \<longrightarrow>
        sets w' n = Some (v4_of addrs) \<and> sets w' (ipv6_ipset_name n) = Some (v6_of addrs)) \<and>
     (\<forall>k. k \<notin> fst ` set changed \<longrightarrow> k \<notin> ipv6_ipset_name ` fst ` set changed \<longrightarrow> sets w' k = sets w k)"
  using assms(3-)
proof (induction changed arbitrary: w)
  case Nil
  then show ?case by (simp add: ret_def)
next
  case (Cons c changed)
  obtain n addrs where c: "c = (n, addrs)" by (cases c)
  obtain b where b: "find (trusted_in h w) IPSET_CANDIDATES = Some b" using inst by (auto simp: ipset_installed_def)
  have n: "n \<in> N" "token n" using Cons.prems(2,3) by (auto simp: c names_apart_def)
  obtain S4 S6 where S: "sets w n = Some S4" "sets w (ipv6_ipset_name n) = Some S6"
    using Cons.prems(4) [of n] by (auto simp: c)
  have "\<forall>a \<in> set addrs. storable (set_for n a) a" using Cons.prems(5) by (auto simp: c)
  then obtain w1 where run: "update_ipset h n addrs w = Some (Inr (), w1)"
    and w1: "sets w1 = (sets w)(n \<mapsto> v4_of addrs, ipv6_ipset_name n \<mapsto> v6_of addrs)"
    using update_ipset_sets [OF laws b n(2) S] by blast
  have fresh: "n \<notin> fst ` set changed" using Cons.prems(1) by (simp add: c)
  have apart: "k \<in> N \<Longrightarrow> k \<noteq> ipv6_ipset_name n \<and> ipv6_ipset_name k \<noteq> n" for k
    using Cons.prems(2) n(1) by (auto simp: names_apart_def)
  have rest: "fst ` set changed \<subseteq> N" using Cons.prems(3) by simp
  have "sets w1 k \<noteq> None \<and> sets w1 (ipv6_ipset_name k) \<noteq> None" if "k \<in> fst ` set changed" for k
    using Cons.prems(4) [of k] that by (auto simp: w1)
  moreover have "storable (set_for k a) a" if "(k, as) \<in> set changed" "a \<in> set as" for k as a
    using Cons.prems(5) [of k as a] that by simp
  moreover have "distinct (map fst changed)" using Cons.prems(1) by simp
  ultimately obtain w' where run': "update_sets h changed w1 = Some (Inr (), w')"
    and fin: "\<forall>k as. (k, as) \<in> set changed \<longrightarrow> sets w' k = Some (v4_of as) \<and> sets w' (ipv6_ipset_name k) = Some (v6_of as)"
    and other: "\<forall>k. k \<notin> fst ` set changed \<longrightarrow> k \<notin> ipv6_ipset_name ` fst ` set changed \<longrightarrow> sets w' k = sets w1 k"
    using Cons.IH [of w1] Cons.prems(2) rest by blast
  have "update_sets h (c # changed) w = Some (Inr (), w')"
    using run run' by (simp add: c bindc_def attempt_def ret_def)
  moreover have "sets w' n = Some (v4_of addrs)"
  proof -
    have "n \<notin> ipv6_ipset_name ` fst ` set changed" using rest apart by blast
    then show ?thesis using other fresh by (simp add: w1)
  qed
  moreover have "sets w' (ipv6_ipset_name n) = Some (v6_of addrs)"
  proof -
    have "ipv6_ipset_name n \<notin> fst ` set changed" using rest apart by blast
    moreover have "ipv6_ipset_name n \<notin> ipv6_ipset_name ` fst ` set changed"
      using fresh by (auto simp only: image_iff ipv6_ipset_name_inj)
    ultimately show ?thesis using other by (simp add: w1)
  qed
  moreover have "sets w' k = sets w k"
    if "k \<notin> fst ` set (c # changed)" "k \<notin> ipv6_ipset_name ` fst ` set (c # changed)" for k
    using that other by (simp add: c w1)
  ultimately show ?case using fin by (intro exI [of _ w']) (auto simp: c)
qed

text \<open>
  The kernel is in step with the daemon: for every managed name both sets exist and hold the addresses of
  their family that the daemon has learned, all of which a set can hold.
\<close>

definition in_sync ::
  "('w \<Rightarrow> string \<Rightarrow> ip_addr set option) \<Rightarrow> (string \<Rightarrow> ip_addr \<Rightarrow> bool) \<Rightarrow> daemon \<Rightarrow> 'w \<Rightarrow> bool" where
  "in_sync sets storable d w \<longleftrightarrow>
     names_apart (dom (hm_get (d_state d))) \<and>
     (\<forall>n m. hm_get (d_state d) n = Some m \<longrightarrow>
        sets w n = Some (v4_of (ips m)) \<and> sets w (ipv6_ipset_name n) = Some (v6_of (ips m)) \<and>
        (\<forall>a \<in> set (ips m). storable (set_for n a) a))"

text \<open>What the daemon promises: per network the patterns and the set of addresses, and how an answer changes it.\<close>

type_synonym policies = "string \<rightharpoonup> string list \<times> ip_addr set"

definition policies_of :: "daemon \<Rightarrow> policies" where
  "policies_of d n = map_option (\<lambda>m. (allowed_domain_patterns m, set (ips m))) (hm_get (d_state d) n)"

definition answer_policies :: "dns_message \<Rightarrow> policies \<Rightarrow> policies" where
  "answer_policies message pol n =
     (case pol n of
        None \<Rightarrow> None
      | Some (patterns, S) \<Rightarrow>
          Some (patterns,
            if \<exists>q \<in> set (msg_queries message). any_pattern_matches patterns q
            then S \<union> set (collect_resolved_ips message) else S))"

lemma any_pattern_matches_query: "any_pattern_matches ps (query_domain q) = any_pattern_matches ps q"
  unfolding query_domain_eq by (rule policy.accepts_same_norm) simp

lemma learns_query: "learns (map query_domain qs) m \<longleftrightarrow> (\<exists>q \<in> set qs. any_pattern_matches (allowed_domain_patterns m) q)"
  by (simp add: any_pattern_matches_query)

definition orders_ok :: "orders \<Rightarrow> bool" where
  "orders_ok ord \<longleftrightarrow> iteration_order (set_order ord) \<and> iteration_order (ip_order ord)"

lemma distinct_changed:
  assumes "iteration_order order" and "keys_distinct st"
  shows "distinct (map fst (fst (apply_resolved_ips order iorder domains resolved st)))"
proof -
  let ?P = "\<lambda>(n, m). learns domains m \<and> \<not> set resolved \<subseteq> set (ips m)"
  have "distinct (map fst (filter ?P (order st)))"
    using assms by (intro distinct_map_filter) (simp add: iteration_order_distinct)
  moreover have "map fst (map (\<lambda>(n, m). (n, iorder (ips (learn domains resolved m)))) xs) = map fst xs" for xs :: state_map
    by (induction xs) auto
  ultimately show ?thesis by (cases "domains = [] \<or> resolved = []") (simp_all only: apply_resolved_ips_def apply_loop_eq if_True if_False fst_conv list.map distinct.simps)
qed

text \<open>The kernel after the reported sets have been written.\<close>

lemma changed_sets_sync:
  assumes laws: "ipset_laws h exec sets storable" and inst: "ipset_installed h" and ord: "orders_ok ord"
    and wf: "wf_state (d_state d)" and sync: "in_sync sets storable d w"
    and st: "\<And>a n. a \<in> set resolved \<Longrightarrow> storable (set_for n a) a"
    and app: "apply_resolved_ips (set_order ord) (ip_order ord) domains resolved (d_state d) = (changed, st')"
  shows "\<exists>w'. update_sets h changed w = Some (Inr (), w') \<and> in_sync sets storable (d\<lparr>d_state := st'\<rparr>) w'"
proof -
  let ?st = "d_state d" and ?N = "dom (hm_get (d_state d))"
  have kd: "keys_distinct ?st" using wf by (simp add: wf_state_def)
  have orders: "iteration_order (set_order ord)" "iteration_order (ip_order ord)" using ord by (simp_all add: orders_ok_def)
  have get: "hm_get st' n = map_option (learn domains resolved) (hm_get ?st n)" for n
    using apply_resolved_ips_get [OF orders(1) kd, of "ip_order ord" domains resolved n] app by simp
  have ch: "(n, as) \<in> set changed \<longleftrightarrow>
      (\<exists>m. hm_get ?st n = Some m \<and> as = ip_order ord (ips (learn domains resolved m)) \<and> learns domains m \<and> \<not> set resolved \<subseteq> set (ips m))" for n as
    using apply_resolved_ips_changed [OF orders(1), of "ip_order ord" domains resolved ?st] app kd
    by (auto simp: map_of_eq_Some_iff)
  have io: "set (ip_order ord as) = set as" for as using orders(2) by (rule iteration_order_set)
  have apart: "names_apart ?N" using sync by (simp add: in_sync_def)
  have kern: "sets w n = Some (v4_of (ips m)) \<and> sets w (ipv6_ipset_name n) = Some (v6_of (ips m)) \<and>
      (\<forall>a \<in> set (ips m). storable (set_for n a) a)" if "hm_get ?st n = Some m" for n m
    using sync that by (simp add: in_sync_def)
  have store: "storable (set_for n a) a" if "hm_get ?st n = Some m" "a \<in> set (ips (learn domains resolved m))" for n m a
    using kern [OF that(1)] st that(2) by (auto simp: learn_def split: if_splits)
  have "distinct (map fst changed)" using distinct_changed [OF orders(1) kd] app by (metis fst_conv)
  moreover have sub: "fst ` set changed \<subseteq> ?N" using ch by force
  moreover have "sets w n \<noteq> None \<and> sets w (ipv6_ipset_name n) \<noteq> None" if "n \<in> fst ` set changed" for n
    using that sub kern by blast
  moreover have "storable (set_for n a) a" if "(n, as) \<in> set changed" "a \<in> set as" for n as a
    using that store by (auto simp: ch io)
  ultimately obtain w' where run: "update_sets h changed w = Some (Inr (), w')"
    and new: "\<forall>n as. (n, as) \<in> set changed \<longrightarrow> sets w' n = Some (v4_of as) \<and> sets w' (ipv6_ipset_name n) = Some (v6_of as)"
    and old: "\<forall>k. k \<notin> fst ` set changed \<longrightarrow> k \<notin> ipv6_ipset_name ` fst ` set changed \<longrightarrow> sets w' k = sets w k"
    using update_sets_run [OF laws inst _ apart, of changed w] by blast
  have "sets w' n = Some (v4_of (ips m')) \<and> sets w' (ipv6_ipset_name n) = Some (v6_of (ips m')) \<and>
      (\<forall>a \<in> set (ips m'). storable (set_for n a) a)" if new_entry: "hm_get st' n = Some m'" for n m'
  proof -
    obtain m where m: "hm_get ?st n = Some m" "m' = learn domains resolved m" 
      using new_entry unfolding get by (cases "hm_get ?st n") simp_all
    show ?thesis
    proof (cases "learns domains m \<and> \<not> set resolved \<subseteq> set (ips m)")
      case True
      then have "(n, ip_order ord (ips m')) \<in> set changed" using m ch by blast
      then show ?thesis using new store [OF m(1)] m(2) io by simp
    next
      case False
      then have "n \<notin> fst ` set changed" using ch m(1) by force
      moreover have "n \<in> ?N" using m(1) by blast
      then have "n \<notin> ipv6_ipset_name ` fst ` set changed" "ipv6_ipset_name n \<notin> fst ` set changed"
        using apart sub unfolding names_apart_def by blast+
      ultimately have "sets w' n = sets w n" "sets w' (ipv6_ipset_name n) = sets w (ipv6_ipset_name n)"
        using old by (simp_all add: image_iff ipv6_ipset_name_inj)
      moreover have "set (ips m') = set (ips m)" using False m(2) by (auto simp: learn_def)
      ultimately show ?thesis using kern [OF m(1)] by simp
    qed
  qed
  moreover have "dom (hm_get st') = ?N" using get by (auto simp: dom_def)
  ultimately show ?thesis using run apart by (auto simp: in_sync_def)
qed

lemma in_sync_state_cong: "d_state d' = d_state d \<Longrightarrow> in_sync sets storable d' w = in_sync sets storable d w"
  by (simp add: in_sync_def)

lemma policies_of_learn:
  assumes "\<And>n. hm_get (d_state d') n = map_option (learn (map query_domain (msg_queries message)) (collect_resolved_ips message)) (hm_get (d_state d) n)"
  shows "policies_of d' = answer_policies message (policies_of d)"
proof
  fix n
  show "policies_of d' n = answer_policies message (policies_of d) n"
    unfolding policies_of_def answer_policies_def assms
    by (cases "hm_get (d_state d) n") (auto simp: learn_def any_pattern_matches_query)
qed

lemma policies_of_same:
  assumes "d_state d' = d_state d" and "collect_resolved_ips message = []"
  shows "policies_of d' = answer_policies message (policies_of d)"
  using assms by (auto simp: fun_eq_iff policies_of_def answer_policies_def split: option.splits)

definition storable_answer :: "(string \<Rightarrow> ip_addr \<Rightarrow> bool) \<Rightarrow> dns_message \<Rightarrow> bool" where
  "storable_answer storable message \<longleftrightarrow> (\<forall>n. \<forall>a \<in> set (collect_resolved_ips message). storable (set_for n a) a)"

lemma inspect_step:
  assumes laws: "ipset_laws h exec sets storable" and inst: "ipset_installed h" and ord: "orders_ok ord"
    and inv: "daemon_inv d" and sync: "in_sync sets storable d w"
    and msg: "from_vec response = Some message" and st: "storable_answer storable message"
  shows "\<exists>d' w'. inspect_and_update_state from_vec ord h response origin ttl (d, w) = Some (Inr (), d', w') \<and>
     daemon_inv d' \<and> in_sync sets storable d' w' \<and> policies_of d' = answer_policies message (policies_of d)"
proof -
  let ?ips = "collect_resolved_ips message"
  define d1 where "d1 = snd (record_queries ord origin ttl (msg_queries message) [] d)"
  have rec: "record_queries ord origin ttl (msg_queries message) [] d = (map query_domain (msg_queries message), d1)"
    using record_queries_state(1) [of ord origin ttl "msg_queries message" "[]" d] by (simp add: d1_def prod_eq_iff)
  have same: "d_state d1 = d_state d" unfolding d1_def by (rule record_queries_state)
  have inv1: "daemon_inv d1" unfolding d1_def using inv by (rule daemon_inv_record_queries)
  have sync1: "in_sync sets storable d1 w" using sync same by (simp add: in_sync_def)
  show ?thesis
  proof (cases "?ips = []")
    case True
    then show ?thesis using msg rec inv1 sync1 same policies_of_same [OF same True]
      by (simp add: inspect_and_update_state_def Let_def)
  next
    case False
    obtain changed st' where app: "apply_resolved_ips (set_order ord) (ip_order ord) (map query_domain (msg_queries message)) ?ips (d_state d1) = (changed, st')"
      by fastforce
    let ?d2 = "d1\<lparr>d_state := st'\<rparr>"
    have orders: "iteration_order (set_order ord)" using ord by (simp add: orders_ok_def)
    have wf: "wf_state (d_state d1)" using inv1 by (simp add: daemon_inv_def)
    have kd: "keys_distinct (d_state d1)" using wf by (simp add: wf_state_def)
    have "wf_state st'" using wf_state_apply [OF orders wf] app by (metis snd_conv)
    then have inv2: "daemon_inv ?d2" using inv1 by (simp add: daemon_inv_def)
    have "hm_get st' n = map_option (learn (map query_domain (msg_queries message)) ?ips) (hm_get (d_state d) n)" for n
      using apply_resolved_ips_get [OF orders kd, of "ip_order ord" "map query_domain (msg_queries message)" ?ips n] app same by simp
    then have pol: "policies_of ?d2 = answer_policies message (policies_of d)" by (intro policies_of_learn) simp
    have "storable (set_for n a) a" if "a \<in> set ?ips" for a n using st that by (simp add: storable_answer_def)
    then obtain w' where w': "update_sets h changed w = Some (Inr (), w')" and sync2: "in_sync sets storable ?d2 w'"
      using changed_sets_sync [OF laws inst ord wf sync1 _ app] by blast
    have "inspect_and_update_state from_vec ord h response origin ttl (d, w) = Some (Inr (), ?d2, w')"
      using msg rec app False w' by (cases "changed = []") (simp_all add: inspect_and_update_state_def Let_def on_world_def ret_def)
    then show ?thesis using inv2 sync2 pol by blast
  qed
qed

text \<open>Responses one after the other, as tasks that do not overlap process them.\<close>

fun inspect_all ::
  "(string \<Rightarrow> dns_message option) \<Rightarrow> 'w host \<Rightarrow> (orders \<times> string \<times> ip_addr \<times> nat) list \<Rightarrow> (daemon \<times> 'w, unit) cmd" where
  "inspect_all from_vec h [] = ret ()"
| "inspect_all from_vec h ((ord, response, origin, ttl) # rest) =
     bindc (inspect_and_update_state from_vec ord h response origin ttl) (\<lambda>_. inspect_all from_vec h rest)"

text \<open>The messages that a sequence of responses contains.\<close>

definition messages :: "(string \<Rightarrow> dns_message option) \<Rightarrow> (orders \<times> string \<times> ip_addr \<times> nat) list \<Rightarrow> dns_message set" where
  "messages from_vec rs = {message. \<exists>(ord, response, origin, ttl) \<in> set rs. from_vec response = Some message}"

abbreviation admitted :: "string list \<Rightarrow> dns_message \<Rightarrow> bool" where
  "admitted patterns message \<equiv> \<exists>q \<in> set (msg_queries message). any_pattern_matches patterns q"

definition learned :: "string list \<Rightarrow> dns_message set \<Rightarrow> ip_addr set" where
  "learned patterns M = (\<Union>message \<in> {message \<in> M. admitted patterns message}. set (collect_resolved_ips message))"

lemma learned_insert:
  "learned patterns (insert message M) =
     (if admitted patterns message then set (collect_resolved_ips message) else {}) \<union> learned patterns M"
  by (auto simp: learned_def)

lemma messages_Cons:
  "messages from_vec ((ord, response, origin, ttl) # rs) =
     (case from_vec response of Some message \<Rightarrow> insert message (messages from_vec rs) | None \<Rightarrow> messages from_vec rs)"
  by (auto simp: messages_def split: option.splits)

lemma inspect_none: "from_vec response = None \<Longrightarrow> inspect_and_update_state from_vec ord h response origin ttl (d, w) = Some (Inr (), d, w)"
  by (simp add: inspect_and_update_state_def)

lemma inspect_all_history:
  assumes laws: "ipset_laws h exec sets storable" and inst: "ipset_installed h"
    and "\<And>x. x \<in> set rs \<Longrightarrow> orders_ok (fst x)"
    and "\<And>message. message \<in> messages from_vec rs \<Longrightarrow> storable_answer storable message"
    and "daemon_inv d" and "in_sync sets storable d w"
  shows "\<exists>d' w'. inspect_all from_vec h rs (d, w) = Some (Inr (), d', w') \<and> daemon_inv d' \<and> in_sync sets storable d' w' \<and>
     policies_of d' = (\<lambda>n. map_option (\<lambda>(patterns, S). (patterns, S \<union> learned patterns (messages from_vec rs))) (policies_of d n))"
  using assms(3-)
proof (induction rs arbitrary: d w)
  case Nil
  have "messages from_vec [] = {}" by (simp add: messages_def)
  then have "(\<lambda>n. map_option (\<lambda>(patterns, S). (patterns, S \<union> learned patterns (messages from_vec []))) (policies_of d n)) = policies_of d"
    by (simp add: learned_def fun_eq_iff case_prod_unfold option.map_ident)
  then show ?case using Nil by (simp add: ret_def)
next
  case (Cons r rs)
  obtain ord response origin ttl where r: "r = (ord, response, origin, ttl)" by (cases r) auto
  show ?case
  proof (cases "from_vec response")
    case None
    have "\<And>x. x \<in> set rs \<Longrightarrow> orders_ok (fst x)" using Cons.prems(1) by simp
    moreover have "messages from_vec (r # rs) = messages from_vec rs" using None by (simp add: r messages_Cons)
    ultimately show ?thesis using Cons.IH [of d w] Cons.prems(2-4) None by (simp add: r bindc_def inspect_none)
  next
    case (Some message)
    have all: "messages from_vec (r # rs) = insert message (messages from_vec rs)" using Some by (simp add: r messages_Cons)
    have "orders_ok ord" using Cons.prems(1) [of r] by (simp add: r)
    moreover have "storable_answer storable message" using Cons.prems(2) all by blast
    ultimately obtain d1 w1 where d1: "inspect_and_update_state from_vec ord h response origin ttl (d, w) = Some (Inr (), d1, w1)"
      "daemon_inv d1" "in_sync sets storable d1 w1" "policies_of d1 = answer_policies message (policies_of d)"
      using inspect_step [where from_vec = from_vec and response = response, OF laws inst _ Cons.prems(3,4) Some] by blast
    have "\<And>x. x \<in> set rs \<Longrightarrow> orders_ok (fst x)" using Cons.prems(1) by simp
    moreover have "\<And>m. m \<in> messages from_vec rs \<Longrightarrow> storable_answer storable m" using Cons.prems(2) all by blast
    ultimately obtain d' w' where d': "inspect_all from_vec h rs (d1, w1) = Some (Inr (), d', w')" "daemon_inv d'" "in_sync sets storable d' w'"
      "policies_of d' = (\<lambda>n. map_option (\<lambda>(patterns, S). (patterns, S \<union> learned patterns (messages from_vec rs))) (policies_of d1 n))"
      using Cons.IH [OF _ _ d1(2,3)] by blast
    have "policies_of d' n = map_option (\<lambda>(patterns, S). (patterns, S \<union> learned patterns (messages from_vec (r # rs)))) (policies_of d n)" for n
      unfolding d'(4) d1(4) all learned_insert answer_policies_def by (cases "policies_of d n") auto
    then show ?thesis using d' d1(1) by (simp add: r bindc_def fun_eq_iff)
  qed
qed

section \<open>Every task ends\<close>

lemma update_sets_total: "\<exists>w'. update_sets h changed w = Some (Inr (), w')"
proof (induction changed arbitrary: w)
  case Nil
  show ?case by (simp add: ret_def)
next
  case (Cons c changed)
  obtain n as where c: "c = (n, as)" by (cases c)
  have "\<exists>r w'. update_ipset h n as w = Some (r, w')"
    by (cases "find (trusted_in h w) IPSET_CANDIDATES")
      (auto simp: update_ipset_def resolve_ipset_binary_def bindc_def resolve_ipset_from_eq sys_output_stdin_def
        fail_def ret_def split: prod.splits sum.splits)
  then obtain r w1 where "update_ipset h n as w = Some (r, w1)" by blast
  then show ?case using Cons by (cases r) (simp_all add: c bindc_def attempt_def sys_eprintln_def ret_def)
qed

lemma on_world_sets: "\<exists>s'. on_world (update_sets h changed) s = Some (Inr (), s')"
proof -
  obtain w' where "update_sets h changed (snd s) = Some (Inr (), w')" using update_sets_total [of h changed "snd s"] by blast
  then show ?thesis by (simp add: on_world_def case_prod_unfold)
qed

lemma inspect_total: "\<exists>s'. inspect_and_update_state from_vec ord h response origin ttl s = Some (Inr (), s')"
  unfolding inspect_and_update_state_def Let_def case_prod_unfold
  by (cases "from_vec response") (simp_all add: on_world_sets del: split_paired_Ex)

lemma on_world_call: "\<exists>r s'. on_world (call f) s = Some (r, s')"
  by (cases s) (simp add: on_world_def call_def split: prod.splits)

lemma on_world_log: "\<exists>s'. on_world (sys_eprintln h line) s = Some (Inr (), s')"
  by (cases s) (simp add: on_world_def sys_eprintln_def)

lemma log_error_total: "\<exists>s'. log_error h what r s = Some (Inr (), s')"
  using on_world_log by (cases r) (simp_all add: log_error_def ret_def)

lemma send_total: "\<exists>r s'. on_world (send_dns_response u listener response client reply) s = Some (r, s')"
  using on_world_call
  by (cases s) (auto simp: send_dns_response_def on_world_def fail_def call_def split: option.splits socket_addr.splits prod.splits)

lemma forward_total: "\<exists>r s'. on_world (forward_dns_query u query upstream) s = Some (r, s')"
  by (cases s) (auto simp: forward_dns_query_def on_world_def call_def bindc_def split: option.splits sum.splits prod.splits)

section \<open>Local addresses\<close>

lemma local_octets:
  "octets a ! 0 = unat a div 65536 div 256" "octets a ! 1 = unat a div 65536 mod 256"
  by (simp_all add: octets_def Let_def div_mult2_eq [symmetric])

lemma local_literals:
  "''10.0.0.0/8'' = show_ipv4 (ipv4_new 10 0 0 0) @ ''/'' @ show_nat 8"
  "''127.0.0.0/8'' = show_ipv4 (ipv4_new 127 0 0 0) @ ''/'' @ show_nat 8"
  "''169.254.0.0/16'' = show_ipv4 (ipv4_new 169 254 0 0) @ ''/'' @ show_nat 16"
  "''172.16.0.0/12'' = show_ipv4 (ipv4_new 172 16 0 0) @ ''/'' @ show_nat 12"
  "''192.168.0.0/16'' = show_ipv4 (ipv4_new 192 168 0 0) @ ''/'' @ show_nat 16"
  "''198.18.0.0/15'' = show_ipv4 (ipv4_new 198 18 0 0) @ ''/'' @ show_nat 15"
  by code_simp+

lemma local_subnets:
  "ip_in_subnet (V4 a) ''10.0.0.0/8'' \<longleftrightarrow> unat a div 65536 div 256 = 10"
  "ip_in_subnet (V4 a) ''127.0.0.0/8'' \<longleftrightarrow> unat a div 65536 div 256 = 127"
  "ip_in_subnet (V4 a) ''169.254.0.0/16'' \<longleftrightarrow> unat a div 65536 = 43518"
  "ip_in_subnet (V4 a) ''172.16.0.0/12'' \<longleftrightarrow> unat a div 65536 div 16 = 2753"
  "ip_in_subnet (V4 a) ''192.168.0.0/16'' \<longleftrightarrow> unat a div 65536 = 49320"
  "ip_in_subnet (V4 a) ''198.18.0.0/15'' \<longleftrightarrow> unat a div 65536 div 2 = 25353"
proof -
  have n: "unat (ipv4_new 10 0 0 0) = 167772160" "unat (ipv4_new 127 0 0 0) = 2130706432"
    "unat (ipv4_new 169 254 0 0) = 2851995648" "unat (ipv4_new 172 16 0 0) = 2886729728"
    "unat (ipv4_new 192 168 0 0) = 3232235520" "unat (ipv4_new 198 18 0 0) = 3323068416"
    by code_simp+
  have u: "unmap_ip (V4 a) = V4 a" by (simp add: unmap_ip_def)
  show "ip_in_subnet (V4 a) ''10.0.0.0/8'' \<longleftrightarrow> unat a div 65536 div 256 = 10"
    unfolding local_literals by (subst ip_in_subnet_v4) (simp_all add: u n div_mult2_eq [symmetric])
  show "ip_in_subnet (V4 a) ''127.0.0.0/8'' \<longleftrightarrow> unat a div 65536 div 256 = 127"
    unfolding local_literals by (subst ip_in_subnet_v4) (simp_all add: u n div_mult2_eq [symmetric])
  show "ip_in_subnet (V4 a) ''169.254.0.0/16'' \<longleftrightarrow> unat a div 65536 = 43518"
    unfolding local_literals by (subst ip_in_subnet_v4) (simp_all add: u n)
  show "ip_in_subnet (V4 a) ''172.16.0.0/12'' \<longleftrightarrow> unat a div 65536 div 16 = 2753"
    unfolding local_literals by (subst ip_in_subnet_v4) (simp_all add: u n div_mult2_eq [symmetric])
  show "ip_in_subnet (V4 a) ''192.168.0.0/16'' \<longleftrightarrow> unat a div 65536 = 49320"
    unfolding local_literals by (subst ip_in_subnet_v4) (simp_all add: u n)
  show "ip_in_subnet (V4 a) ''198.18.0.0/15'' \<longleftrightarrow> unat a div 65536 div 2 = 25353"
    unfolding local_literals by (subst ip_in_subnet_v4) (simp_all add: u n div_mult2_eq [symmetric])
qed

lemma between_iff_div: "0 < k \<Longrightarrow> n div k = c \<longleftrightarrow> c * k \<le> n \<and> n < c * k + (k :: nat)"
  by (metis add.commute div_less_iff_less_mult less_eq_div_iff_mult_less_eq le_antisym mult_Suc not_less_eq_eq
      order_refl not_less)

lemma octet_pairs:
  fixes q :: nat
  shows "q div 256 = 169 \<and> q mod 256 = 254 \<longleftrightarrow> q = 43518"
    and "q div 256 = 172 \<and> 16 \<le> q mod 256 \<and> q mod 256 \<le> 31 \<longleftrightarrow> q div 16 = 2753"
    and "q div 256 = 192 \<and> q mod 256 = 168 \<longleftrightarrow> q = 49320"
    and "q div 256 = 198 \<and> (q mod 256 = 18 \<or> q mod 256 = 19) \<longleftrightarrow> q div 2 = 25353"
proof -
  define d m where "d = q div 256" and "m = q mod 256"
  have q: "q = 256 * d + m" "m < 256" by (simp_all add: d_def m_def)
  have i: "(q div 16 = 2753) = (44048 \<le> q \<and> q < 44064)" "(q div 2 = 25353) = (50706 \<le> q \<and> q < 50708)"
    by (simp_all add: between_iff_div)
  show "q div 256 = 169 \<and> q mod 256 = 254 \<longleftrightarrow> q = 43518"
    unfolding d_def [symmetric] m_def [symmetric] using q by presburger
  show "q div 256 = 172 \<and> 16 \<le> q mod 256 \<and> q mod 256 \<le> 31 \<longleftrightarrow> q div 16 = 2753"
    unfolding i d_def [symmetric] m_def [symmetric] using q by presburger
  show "q div 256 = 192 \<and> q mod 256 = 168 \<longleftrightarrow> q = 49320"
    unfolding d_def [symmetric] m_def [symmetric] using q by presburger
  show "q div 256 = 198 \<and> (q mod 256 = 18 \<or> q mod 256 = 19) \<longleftrightarrow> q div 2 = 25353"
    unfolding i d_def [symmetric] m_def [symmetric] using q by presburger
qed

lemma segment_mask:
  fixes s :: nat
  assumes "s < 65536"
  shows "(of_nat s :: u16) AND 0xfe00 = 0xfc00 \<longleftrightarrow> s div 512 = 126"
    and "(of_nat s :: u16) AND 0xffc0 = 0xfe80 \<longleftrightarrow> s div 64 = 1018"
proof -
  have s: "unat (of_nat s :: u16) = s" using assms by (simp add: unat_of_nat take_bit_nat_eq_self)
  have m: "(0xfe00 :: u16) = NOT (mask 9)" "(0xffc0 :: u16) = NOT (mask 6)"
    "(0xfc00 :: u16) = 0xfc00 AND NOT (mask 9)" "(0xfe80 :: u16) = 0xfe80 AND NOT (mask 6)"
    by (simp_all add: mask_eq_exp_minus_1)
  have "(of_nat s :: u16) AND 0xfe00 = 0xfc00 \<longleftrightarrow> (of_nat s :: u16) AND NOT (mask 9) = 0xfc00 AND NOT (mask 9)"
    using m by (simp only:)
  also have "\<dots> \<longleftrightarrow> s div 2 ^ 9 = unat (0xfc00 :: u16) div 2 ^ 9"
    by (simp only: and_high_mask_eq_iff drop_bit_eq_div_iff s)
  finally show "(of_nat s :: u16) AND 0xfe00 = 0xfc00 \<longleftrightarrow> s div 512 = 126" by simp
  have "(of_nat s :: u16) AND 0xffc0 = 0xfe80 \<longleftrightarrow> (of_nat s :: u16) AND NOT (mask 6) = 0xfe80 AND NOT (mask 6)"
    using m by (simp only:)
  also have "\<dots> \<longleftrightarrow> s div 2 ^ 6 = unat (0xfe80 :: u16) div 2 ^ 6"
    by (simp only: and_high_mask_eq_iff drop_bit_eq_div_iff s)
  finally show "(of_nat s :: u16) AND 0xffc0 = 0xfe80 \<longleftrightarrow> s div 64 = 1018" by simp
qed

lemma segment_0: "segment 0 a = unat a div 2 ^ 112" "segment 0 a < 65536"
proof -
  have "unat a < 2 ^ 112 * 65536" using unsigned_less [of a, where ?'a = nat] by simp
  then have "unat a div 2 ^ 112 < 65536" by (simp add: less_mult_imp_div_less mult.commute)
  moreover have "(65536 :: nat) ^ 7 = 2 ^ 112" by simp
  ultimately show "segment 0 a = unat a div 2 ^ 112" by (simp only: segment_def diff_zero mod_less)
  then show "segment 0 a < 65536" using \<open>unat a div 2 ^ 112 < 65536\<close> by simp
qed

lemma is_local_ip_v6:
  "is_local_ip (V6 b) \<longleftrightarrow> b = 1 \<or> unat b div 2 ^ 121 = 126 \<or> unat b div 2 ^ 118 = 1018"
proof -
  have "segment 0 b div 512 = unat b div 2 ^ 121" "segment 0 b div 64 = unat b div 2 ^ 118"
    unfolding segment_0(1) by (simp_all add: div_mult2_eq [symmetric])
  then show ?thesis
    using segment_mask [OF segment_0(2), of b]
    by (simp add: is_local_ip_def ipv6_is_loopback_def ipv6_is_unique_local_def ipv6_is_unicast_link_local_def)
qed

section \<open>Properties\<close>

text \<open>
  C26: The proxy serves exactly the clients with a local address. For IPv4 these are the networks
  \<^verbatim>\<open>10.0.0.0/8\<close>, \<^verbatim>\<open>127.0.0.0/8\<close>, \<^verbatim>\<open>169.254.0.0/16\<close>, \<^verbatim>\<open>172.16.0.0/12\<close>, \<^verbatim>\<open>192.168.0.0/16\<close> and \<^verbatim>\<open>198.18.0.0/15\<close>,
  by the subnet test that the statistics use; for IPv6 the loopback address and the prefixes \<^verbatim>\<open>fc00::/7\<close> and
  \<^verbatim>\<open>fe80::/10\<close>. No IPv4-mapped IPv6 address is local, whatever the IPv4 address is.
\<close>

theorem is_local_ip_ranges:
  "(is_local_ip (V4 a) \<longleftrightarrow>
      list_ex (ip_in_subnet (V4 a)) [''10.0.0.0/8'', ''127.0.0.0/8'', ''169.254.0.0/16'', ''172.16.0.0/12'',
        ''192.168.0.0/16'', ''198.18.0.0/15'']) \<and>
   (is_local_ip (V6 b) \<longleftrightarrow> b = 1 \<or> unat b div 2 ^ (128 - 7) = 126 \<or> unat b div 2 ^ (128 - 10) = 1018) \<and>
   \<not> is_local_ip (V6 (0xFFFF00000000 + ucast a))"
proof (intro conjI)
  define q where "q = unat a div 65536"
  have "unat a < 4294967296" by (rule unat_u32_less)
  then have q: "q < 65536" unfolding q_def by linarith
  have "(q div 256 = 127 \<or> (q div 256 = 10 \<or> q div 256 = 172 \<and> q mod 256 \<ge> 16 \<and> q mod 256 \<le> 31 \<or> q div 256 = 192 \<and> q mod 256 = 168) \<or>
      (q div 256 = 169 \<and> q mod 256 = 254) \<or> q div 256 = 198 \<and> (q mod 256 = 18 \<or> q mod 256 = 19)) \<longleftrightarrow>
    (q div 256 = 10 \<or> q div 256 = 127 \<or> q = 43518 \<or> q div 16 = 2753 \<or> q = 49320 \<or> q div 2 = 25353)"
    unfolding octet_pairs by blast
  then show "is_local_ip (V4 a) \<longleftrightarrow>
      list_ex (ip_in_subnet (V4 a)) [''10.0.0.0/8'', ''127.0.0.0/8'', ''169.254.0.0/16'', ''172.16.0.0/12'',
        ''192.168.0.0/16'', ''198.18.0.0/15'']"
    unfolding is_local_ip_def ip_addr.case ipv4_is_loopback_def ipv4_is_private_def ipv4_is_link_local_def
      local_octets q_def [symmetric] by (simp add: local_subnets q_def [symmetric])
  show "is_local_ip (V6 b) \<longleftrightarrow> b = 1 \<or> unat b div 2 ^ (128 - 7) = 126 \<or> unat b div 2 ^ (128 - 10) = 1018"
    unfolding is_local_ip_v6 by simp
  have a: "unat (ucast a :: u128) = unat a"
    using unat_u32_less [of a] by (simp add: unsigned_ucast_eq take_bit_nat_eq_self)
  have "unat (0xFFFF00000000 + ucast a :: u128) = 281470681743360 + unat a"
    using unat_u32_less [of a] by (subst unat_plus_if_size) (simp add: word_size a)
  moreover have "281470681743360 + unat a < 2 ^ 118" using unat_u32_less [of a] by simp
  ultimately have "unat (0xFFFF00000000 + ucast a :: u128) div 2 ^ 121 = 0" "unat (0xFFFF00000000 + ucast a :: u128) div 2 ^ 118 = 0"
    "unat (0xFFFF00000000 + ucast a :: u128) \<noteq> 1"
    by simp_all
  then show "\<not> is_local_ip (V6 (0xFFFF00000000 + ucast a))" unfolding is_local_ip_v6 by (metis unat_1 zero_neq_numeral)
qed

text \<open>
  C7: The proxy implements the policy. Abstractly a network is its patterns and a set of addresses, and an
  answer adds its addresses to the sets of the networks that admit one of the names it answers. On a
  machine with a trusted \<^verbatim>\<open>ipset\<close> that follows its manual, from a daemon state that satisfies its invariant
  and a kernel in step with it, processing a response succeeds, the daemon's state moves as the abstract
  answer does, and invariant and kernel are in step with it again.
\<close>

theorem inspect_refines_policy:
  assumes "ipset_laws h exec sets storable" and "ipset_installed h" and "orders_ok ord"
    and "daemon_inv d" and "in_sync sets storable d w"
    and "from_vec response = Some message" and "storable_answer storable message"
  shows "\<exists>d' w'. inspect_and_update_state from_vec ord h response origin ttl (d, w) = Some (Inr (), d', w') \<and>
     daemon_inv d' \<and> in_sync sets storable d' w' \<and> policies_of d' = answer_policies message (policies_of d)"
  using inspect_step [where from_vec = from_vec and response = response, OF assms] .

text \<open>
  C4: Containers reach exactly the addresses that answers for their domains contained. After any sequence of
  responses, starting with a kernel in step with the daemon, the IPv4 set of a network in the kernel holds
  its old IPv4 addresses and the addresses of the A records of the messages that answer a name one of its
  patterns admits, the IPv6 set the same for AAAA records, and nothing else: a response that does not parse,
  or whose names no pattern admits, opens nothing.
\<close>

theorem allowed_addresses_exact:
  assumes "ipset_laws h exec sets storable" and "ipset_installed h" and "\<forall>x \<in> set rs. orders_ok (fst x)"
    and "\<forall>message \<in> messages from_vec rs. storable_answer storable message"
    and "daemon_inv d" and "in_sync sets storable d w" and "hm_get (d_state d) n = Some m"
  shows "\<exists>d' w'. inspect_all from_vec h rs (d, w) = Some (Inr (), d', w') \<and>
     sets w' n = Some ({V4 a | a. V4 a \<in> set (ips m)} \<union>
       {V4 a | a. \<exists>message \<in> messages from_vec rs. admitted (allowed_domain_patterns m) message \<and> A a \<in> set (msg_answers message)}) \<and>
     sets w' (ipv6_ipset_name n) = Some ({V6 a | a. V6 a \<in> set (ips m)} \<union>
       {V6 a | a. \<exists>message \<in> messages from_vec rs. admitted (allowed_domain_patterns m) message \<and> AAAA a \<in> set (msg_answers message)})"
proof -
  let ?M = "messages from_vec rs" and ?ps = "allowed_domain_patterns m"
  obtain d' w' where run: "inspect_all from_vec h rs (d, w) = Some (Inr (), d', w')" and sync: "in_sync sets storable d' w'"
    and pol: "policies_of d' = (\<lambda>n. map_option (\<lambda>(patterns, S). (patterns, S \<union> learned patterns ?M)) (policies_of d n))"
    using inspect_all_history [where from_vec = from_vec, OF assms(1,2) _ _ assms(5,6)] assms(3,4) by blast
  have "policies_of d' n = Some (?ps, set (ips m) \<union> learned ?ps ?M)"
    unfolding pol by (simp add: policies_of_def assms(7))
  then obtain m' where m': "hm_get (d_state d') n = Some m'" "set (ips m') = set (ips m) \<union> learned ?ps ?M"
    by (auto simp: policies_of_def)
  then have "sets w' n = Some (v4_of (ips m'))" "sets w' (ipv6_ipset_name n) = Some (v6_of (ips m'))"
    using sync by (simp_all add: in_sync_def)
  moreover have l4: "V4 a \<in> learned ?ps ?M \<longleftrightarrow> (\<exists>message \<in> ?M. admitted ?ps message \<and> A a \<in> set (msg_answers message))"
    and l6: "V6 b \<in> learned ?ps ?M \<longleftrightarrow> (\<exists>message \<in> ?M. admitted ?ps message \<and> AAAA b \<in> set (msg_answers message))" for a b
    by (auto simp: learned_def collect_resolved_ips_def collect_answers_mem)
  moreover have "v4_of (ips m') = {V4 a | a. V4 a \<in> set (ips m)} \<union> {V4 a | a. V4 a \<in> learned ?ps ?M}"
    "v6_of (ips m') = {V6 a | a. V6 a \<in> set (ips m)} \<union> {V6 a | a. V6 a \<in> learned ?ps ?M}"
    unfolding m'(2) by blast+
  ultimately show ?thesis using run unfolding l4 l6 by (intro exI [of _ d'] exI [of _ w'] conjI) (simp_all only:)
qed

definition sample_daemon :: daemon where
  "sample_daemon = init_daemon\<lparr>d_state := [(''web'', \<lparr>allowed_domain_patterns = [''*.example.com''], ips = []\<rparr>)]\<rparr>"

definition sample_from_vec :: "string \<Rightarrow> dns_message option" where
  "sample_from_vec response =
     (if response = ''good'' then Some \<lparr>msg_queries = [''API.example.com.''], msg_answers = [A 1, OtherData, AAAA 2]\<rparr>
      else if response = ''evil'' then Some \<lparr>msg_queries = [''notexample.com''], msg_answers = [A 3]\<rparr>
      else None)"

definition sample_orders :: orders where
  "sample_orders = \<lparr>subnet_order = (\<lambda>m. m), set_order = (\<lambda>m. m), ip_order = rev, clock = (\<lambda>_. 0)\<rparr>"

definition sample_sets :: kernel_sets where
  "sample_sets = [''web'' \<mapsto> {}, ''web-v6'' \<mapsto> {}]"

lemma sample_proxy_hyps:
  "ipset_installed sets_host" "orders_ok sample_orders" "daemon_inv sample_daemon"
  "in_sync (\<lambda>k. k) (\<lambda>_ _. True) sample_daemon sample_sets"
  "storable_answer (\<lambda>_ _. True) message"
  "hm_get (d_state sample_daemon) ''web'' = Some \<lparr>allowed_domain_patterns = [''*.example.com''], ips = []\<rparr>"
proof -
  show "daemon_inv sample_daemon"
    using daemon_inv_init by (simp add: daemon_inv_def sample_daemon_def init_daemon_def wf_state_def)
  have "token ''web''" "ipv6_ipset_name ''web'' = ''web-v6''" by code_simp+
  then show "in_sync (\<lambda>k. k) (\<lambda>_ _. True) sample_daemon sample_sets"
    by (simp add: in_sync_def sample_daemon_def sample_sets_def names_apart_def)
qed (simp_all add: ipset_installed_def sets_host_trusted orders_ok_def sample_orders_def storable_answer_def sample_daemon_def)

theorem inspect_refines_policy_witness:
  "\<exists>d' w'. inspect_and_update_state sample_from_vec sample_orders sets_host ''good'' (V4 9) 60 (sample_daemon, sample_sets) = Some (Inr (), d', w') \<and>
     policies_of d' ''web'' = Some ([''*.example.com''], {V4 1, V6 2})"
proof -
  have msg: "sample_from_vec ''good'' = Some \<lparr>msg_queries = [''API.example.com.''], msg_answers = [A 1, OtherData, AAAA 2]\<rparr>"
    by (simp add: sample_from_vec_def)
  obtain d' w' where "inspect_and_update_state sample_from_vec sample_orders sets_host ''good'' (V4 9) 60 (sample_daemon, sample_sets) = Some (Inr (), d', w')"
    and pol: "policies_of d' = answer_policies \<lparr>msg_queries = [''API.example.com.''], msg_answers = [A 1, OtherData, AAAA 2]\<rparr> (policies_of sample_daemon)"
    using inspect_refines_policy [where from_vec = sample_from_vec and response = "''good''" and origin = "V4 9" and ttl = 60,
        OF sets_host_laws sample_proxy_hyps(1-4) msg sample_proxy_hyps(5)] by blast
  moreover have "any_pattern_matches [''*.example.com''] ''API.example.com.''" by code_simp
  ultimately show ?thesis
    by (intro exI [of _ d'] exI [of _ w']) (simp add: answer_policies_def policies_of_def sample_daemon_def collect_resolved_ips_def)
qed

theorem allowed_addresses_exact_witness:
  "\<exists>d' w'. inspect_all sample_from_vec sets_host
       [(sample_orders, ''good'', V4 9, 60), (sample_orders, ''evil'', V4 9, 60), (sample_orders, ''junk'', V4 9, 60)]
       (sample_daemon, sample_sets) = Some (Inr (), d', w') \<and>
     w' ''web'' = Some {V4 1} \<and> w' ''web-v6'' = Some {V6 2}"
proof -
  let ?rs = "[(sample_orders, ''good'', V4 9, 60), (sample_orders, ''evil'', V4 9, 60), (sample_orders, ''junk'', V4 9, 60)]"
  let ?good = "\<lparr>msg_queries = [''API.example.com.''], msg_answers = [A 1, OtherData, AAAA 2]\<rparr>"
  let ?evil = "\<lparr>msg_queries = [''notexample.com''], msg_answers = [A 3]\<rparr>"
  have msgs: "messages sample_from_vec ?rs = {?good, ?evil}"
    by (auto simp: messages_def sample_from_vec_def)
  have m: "any_pattern_matches [''*.example.com''] ''API.example.com.''" "\<not> any_pattern_matches [''*.example.com''] ''notexample.com''"
    "ipv6_ipset_name ''web'' = ''web-v6''" by code_simp+
  have "\<forall>x \<in> set ?rs. orders_ok (fst x)" using sample_proxy_hyps(2) by simp
  moreover have "\<forall>message \<in> messages sample_from_vec ?rs. storable_answer (\<lambda>_ _. True) message"
    using sample_proxy_hyps(5) by blast
  ultimately obtain d' w' where "inspect_all sample_from_vec sets_host ?rs (sample_daemon, sample_sets) = Some (Inr (), d', w')"
    and w4: "w' ''web'' = Some ({V4 a | a. V4 a \<in> set []} \<union> {V4 a | a. \<exists>message \<in> {?good, ?evil}. admitted [''*.example.com''] message \<and> A a \<in> set (msg_answers message)})"
    and w6: "w' (ipv6_ipset_name ''web'') = Some ({V6 a | a. V6 a \<in> set []} \<union> {V6 a | a. \<exists>message \<in> {?good, ?evil}. admitted [''*.example.com''] message \<and> AAAA a \<in> set (msg_answers message)})"
    using allowed_addresses_exact [where from_vec = sample_from_vec and rs = ?rs, OF sets_host_laws sample_proxy_hyps(1) _ _ sample_proxy_hyps(3,4,6)]
    unfolding msgs managed_ipset.simps by blast
  then show ?thesis by (intro exI [of _ d'] exI [of _ w']) (simp add: m)
qed


text \<open>
  Answers go back the way the query came. A request that is accepted with packet information was not
  truncated, comes from an IPv4 client, and its answer is sent to that client from the local address that the
  query was addressed to; without packet information the answer goes to the sender. Answering an accepted
  request never runs into the refusal of an IPv6 client.
\<close>

theorem reply_goes_back:
  assumes "receive_dns_request u listener info w = Some (Inr (query, client, reply), w1)"
  shows "if info
     then \<exists>message cmsgs addr port source.
       udp_recvmsg u listener 4096 w = (Inr message, w1) \<and> \<not> rm_truncated message \<and> \<not> rm_control_truncated message \<and>
       query = rm_bytes message \<and> rm_address message = Some (addr, port) \<and> client = SockV4 addr port \<and>
       rm_cmsgs message = Inr cmsgs \<and> packet_info cmsgs = Some source \<and>
       send_dns_response u listener response client reply w2 = Some (udp_sendmsg u listener response source addr port w2)
     else udp_recv_from u listener 4096 w = (Inr (query, client), w1) \<and>
       send_dns_response u listener response client reply w2 = Some (udp_send_to u listener response client w2)"
  using assms
  by (cases info)
    (auto simp: receive_dns_request_def send_dns_response_def call_def lift_result_def ret_def fail_def bindc_eq_Some_iff
      split: if_splits option.splits)

definition sample_udp :: "(string list) udp" where
  "sample_udp =
     \<lparr>udp_bind = (\<lambda>addr w. (Inr 1, w)),
      udp_send_to = (\<lambda>s bytes dest w. (Inr (), w @ [bytes])),
      udp_recv_from = (\<lambda>s size w. (Inr (''query'', SockV4 7 5000), w)),
      udp_recv_timeout = (\<lambda>secs s size w. (Some (Inr (''good'', SockV4 8 53)), w)),
      udp_recvmsg = (\<lambda>s size w. (Inr \<lparr>rm_bytes = ''query'', rm_truncated = False, rm_control_truncated = False,
        rm_address = Some (7, 5000), rm_cmsgs = Inr [OtherControl, Ipv4PacketInfo 9]\<rparr>, w)),
      udp_sendmsg = (\<lambda>s bytes source addr port w. (Inr (), w @ [show_ipv4 source @ '' '' @ show_ipv4 addr @ '' '' @ bytes]))\<rparr>"

text \<open>A host on which no program runs and nothing is printed.\<close>

definition silent_host :: "'w host" where
  "silent_host =
     \<lparr>host_output = (\<lambda>_ w. (Inl (IoError ''no such process''), w)),
      host_output_stdin = (\<lambda>_ _ w. (Inl (IoError ''no such process''), w)),
      host_spawn = (\<lambda>_ w. (Inl (IoError ''no such process''), w)),
      host_metadata = (\<lambda>_ _. None), host_read_file = (\<lambda>_ _. Inl (IoError ''no such file'')),
      host_current_exe = (\<lambda>_. Inl (IoError ''no such file'')),
      host_exchange = (\<lambda>_ _ w. (Inl (IoError ''no such file''), w)),
      host_sleep = (\<lambda>_ w. w), host_println = (\<lambda>_ w. w), host_eprintln = (\<lambda>_ w. w)\<rparr>"

theorem reply_goes_back_witness:
  "\<exists>query client reply. receive_dns_request sample_udp 0 True [] = Some (Inr (query, client, reply), []) \<and>
     send_dns_response sample_udp 0 ''answer'' client reply [] = Some (Inr (), [''0.0.0.9 0.0.0.7 answer''])"
proof -
  have run: "receive_dns_request sample_udp 0 True [] = Some (Inr (''query'', SockV4 7 5000, Some 9), [])"
    by (simp add: receive_dns_request_def sample_udp_def bindc_def call_def lift_result_def ret_def)
  obtain message cmsgs addr port source where m: "udp_recvmsg sample_udp 0 4096 [] = (Inr message, [])"
    "rm_address message = Some (addr, port)" "rm_cmsgs message = Inr cmsgs" "packet_info cmsgs = Some source"
    and send: "send_dns_response sample_udp 0 ''answer'' (SockV4 7 5000) (Some 9) [] =
      Some (udp_sendmsg sample_udp 0 ''answer'' source addr port [])"
    using reply_goes_back [OF run, of "''answer''" "[]"] by auto
  have "addr = 7" "source = 9" using m by (auto simp: sample_udp_def)
  moreover have "show_ipv4 7 = ''0.0.0.7''" "show_ipv4 9 = ''0.0.0.9''" by code_simp+
  ultimately show ?thesis using run send by (auto simp: sample_udp_def)
qed

end
