(* ===== verification/Proxy_Loop.thy ===== *)
theory Proxy_Loop
  imports Proxy
begin

text \<open>
  The receive loop of the proxy (\<^verbatim>\<open>src/src/proxy.rs\<close>, \<^verbatim>\<open>run_dns_proxy\<close>) and the tasks it spawns, as a step
  relation: every request needs a global permit, the task behind it then waits for a permit of its
  client's address, and gives both back when it ends.
\<close>

section \<open>Model\<close>

text \<open>
  A task is the address of its client. \<open>ip_limits\<close> is \<^verbatim>\<open>PER_IP_LIMITS\<close> with the free permits of each
  semaphore; waiting and running tasks hold a global permit, running tasks one of their address too.
\<close>

record proxy_state =
  global_free :: nat
  ip_limits :: "(ip_addr, nat) hash_map"
  waiting :: "ip_addr list"
  running :: "ip_addr list"

definition init_proxy :: proxy_state where
  "init_proxy = \<lparr>global_free = MAX_CONCURRENT_GLOBAL, ip_limits = [], waiting = [], running = []\<rparr>"

definition limit_entry :: "ip_addr \<Rightarrow> (ip_addr, nat) hash_map \<Rightarrow> (ip_addr, nat) hash_map" where
  "limit_entry ip m = (case hm_get m ip of Some _ \<Rightarrow> m | None \<Rightarrow> hm_insert ip MAX_CONCURRENT_PER_IP m)"

text \<open>One round of the loop for a request that was received.\<close>

definition accept_request :: "ip_addr \<Rightarrow> proxy_state \<Rightarrow> proxy_state" where
  "accept_request ip s =
     (if \<not> is_local_ip ip then s
      else if global_free s = 0 then s
      else s\<lparr>global_free := global_free s - 1, ip_limits := limit_entry ip (ip_limits s), waiting := waiting s @ [ip]\<rparr>)"

definition acquire_ip :: "ip_addr \<Rightarrow> nat \<Rightarrow> proxy_state \<Rightarrow> proxy_state" where
  "acquire_ip ip free s =
     s\<lparr>ip_limits := hm_insert ip free (ip_limits s), waiting := remove1 ip (waiting s), running := ip # running s\<rparr>"

definition finish_task :: "ip_addr \<Rightarrow> nat \<Rightarrow> proxy_state \<Rightarrow> proxy_state" where
  "finish_task ip free s =
     s\<lparr>global_free := Suc (global_free s), ip_limits := hm_insert ip (Suc free) (ip_limits s), running := remove1 ip (running s)\<rparr>"

inductive task_move :: "proxy_state \<Rightarrow> proxy_state \<Rightarrow> bool" where
  acquire: "ip \<in> set (waiting s) \<Longrightarrow> hm_get (ip_limits s) ip = Some (Suc free) \<Longrightarrow> task_move s (acquire_ip ip free s)"
| finish: "ip \<in> set (running s) \<Longrightarrow> hm_get (ip_limits s) ip = Some free \<Longrightarrow> task_move s (finish_task ip free s)"

inductive proxy_step :: "proxy_state \<Rightarrow> proxy_state \<Rightarrow> bool" where
  receive_error: "proxy_step s s"
| request: "proxy_step s (accept_request ip s)"
| task: "task_move s s' \<Longrightarrow> proxy_step s s'"

text \<open>
  The round itself, with its reads and log lines: the request for which a task is spawned, if there is one.
\<close>

definition proxy_round ::
  "'w udp \<Rightarrow> 'w host \<Rightarrow> nat \<Rightarrow> bool \<Rightarrow> proxy_state \<Rightarrow> ('w, (string \<times> socket_addr \<times> u32 option) option \<times> proxy_state) cmd" where
  "proxy_round u h listener receive_packet_info s =
     bindc (attempt (receive_dns_request u listener receive_packet_info)) (\<lambda>received.
       case received of
         Inl err \<Rightarrow> bindc (sys_eprintln h (''proxy recv_from error: '' @ error_text err)) (\<lambda>_. ret (None, s))
       | Inr (query, client_addr, reply_source) \<Rightarrow>
           if \<not> is_local_ip (sock_ip client_addr) then
             bindc (sys_eprintln h (''proxy: dropped packet from non-local IP: '' @ show_ip (sock_ip client_addr))) (\<lambda>_. ret (None, s))
           else if global_free s = 0 then
             bindc (sys_eprintln h ''proxy: dropped packet due to extreme global load'') (\<lambda>_. ret (None, s))
           else
             ret (Some (query, client_addr, reply_source),
                  s\<lparr>global_free := global_free s - 1, ip_limits := limit_entry (sock_ip client_addr) (ip_limits s),
                    waiting := waiting s @ [sock_ip client_addr]\<rparr>))"

inductive proxy_reachable :: "proxy_state \<Rightarrow> bool" where
  init: "proxy_reachable init_proxy"
| step: "proxy_reachable s \<Longrightarrow> proxy_step s s' \<Longrightarrow> proxy_reachable s'"

inductive_cases task_moveE: "task_move s s'"
inductive_cases proxy_stepE: "proxy_step s s'"

section \<open>Laws\<close>

text \<open>Every round of the loop is a step, never fails, and spawns a task exactly when it lets a request in.\<close>

lemma receive_total: "\<exists>r w'. receive_dns_request u listener info w = Some (r, w')"
  by (auto simp: receive_dns_request_def bindc_def call_def ret_def fail_def lift_result_def
      split: prod.splits sum.splits option.splits)

lemma proxy_round_step:
  "\<exists>job s' w'. proxy_round u h listener info s w = Some (Inr (job, s'), w') \<and> proxy_step s s' \<and>
     (case job of
        None \<Rightarrow> s' = s
      | Some (query, client, reply) \<Rightarrow>
          is_local_ip (sock_ip client) \<and> 0 < global_free s \<and> s' = accept_request (sock_ip client) s)"
proof -
  obtain r w1 where read: "receive_dns_request u listener info w = Some (r, w1)"
    using receive_total [of u listener info w] by (elim exE)
  show ?thesis
  proof (cases r)
    case (Inl err)
    with read show ?thesis by (simp add: proxy_round_def bindc_def attempt_def sys_eprintln_def ret_def receive_error)
  next
    case (Inr req)
    obtain query client reply where req: "req = (query, client, reply)" by (cases req)
    let ?ip = "sock_ip client"
    show ?thesis
    proof (cases "is_local_ip ?ip \<and> 0 < global_free s")
      case True
      then have "proxy_round u h listener info s w = Some (Inr (Some req, accept_request ?ip s), w1)"
        using read Inr req by (simp add: proxy_round_def bindc_def attempt_def ret_def accept_request_def)
      then show ?thesis using True req request [of s ?ip] by auto
    next
      case False
      with read Inr req receive_error show ?thesis
        by (auto simp: proxy_round_def bindc_def attempt_def sys_eprintln_def ret_def)
    qed
  qed
qed

text \<open>Permits are neither lost nor made.\<close>

definition ip_inv :: "proxy_state \<Rightarrow> ip_addr \<Rightarrow> bool" where
  "ip_inv s ip =
     (case hm_get (ip_limits s) ip of
        Some free \<Rightarrow> free + count_list (running s) ip = MAX_CONCURRENT_PER_IP
      | None \<Rightarrow> ip \<notin> set (waiting s) \<and> count_list (running s) ip = 0)"

definition proxy_inv :: "proxy_state \<Rightarrow> bool" where
  "proxy_inv s \<longleftrightarrow>
     global_free s + length (waiting s) + length (running s) = MAX_CONCURRENT_GLOBAL \<and>
     (\<forall>ip. ip_inv s ip) \<and> (\<forall>ip \<in> set (waiting s) \<union> set (running s). is_local_ip ip)"

lemma proxy_inv_init: "proxy_inv init_proxy"
  by (simp add: proxy_inv_def ip_inv_def init_proxy_def)

lemma count_list_remove1: "x \<in> set xs \<Longrightarrow> count_list (remove1 x xs) y = count_list xs y - (if x = y then 1 else 0)"
proof (induction xs)
  case (Cons a xs)
  then show ?case by (cases "a = x") (auto simp: count_list_0_iff)
qed simp

lemma count_list_pos: "x \<in> set xs \<Longrightarrow> 0 < count_list xs x"
  by (metis count_list_0_iff gr0I)

lemma count_list_le_length: "count_list xs x \<le> length xs"
  by (induction xs) auto

lemma proxy_inv_accept:
  assumes "proxy_inv s"
  shows "proxy_inv (accept_request ip s)"
proof (cases "is_local_ip ip \<and> global_free s \<noteq> 0")
  case True
  have "ip_inv (accept_request ip s) j" for j
  proof -
    have "ip_inv s j" using assms by (simp add: proxy_inv_def)
    then show ?thesis using True
      by (cases "hm_get (ip_limits s) ip"; cases "j = ip")
        (simp_all add: ip_inv_def accept_request_def limit_entry_def hm.get_ins split: option.splits)
  qed
  then show ?thesis using assms True by (auto simp: proxy_inv_def accept_request_def)
qed (use assms in \<open>auto simp: accept_request_def\<close>)

lemma length_remove1_mem: "x \<in> set xs \<Longrightarrow> Suc (length (remove1 x xs)) = length xs"
  by (metis length_remove1 length_pos_if_in_set Suc_pred')

lemma proxy_inv_move:
  assumes "proxy_inv s" and "task_move s s'"
  shows "proxy_inv s'"
  using assms(2)
proof cases
  case (acquire ip free)
  have "ip_inv s' j" for j
  proof -
    have "ip_inv s j" using assms by (simp add: proxy_inv_def)
    then show ?thesis using acquire set_remove1_subset [of ip "waiting s"]
      by (cases "j = ip") (auto simp: ip_inv_def acquire_ip_def hm.get_ins split: option.splits)
  qed
  then show ?thesis using assms(1) acquire length_remove1_mem [OF acquire(2)] set_remove1_subset [of ip "waiting s"]
    by (auto simp: proxy_inv_def acquire_ip_def)
next
  case (finish ip free)
  have "ip_inv s' j" for j
  proof -
    have "ip_inv s j" using assms by (simp add: proxy_inv_def)
    then show ?thesis using finish count_list_pos [OF finish(2)]
      by (cases "j = ip") (auto simp: ip_inv_def finish_task_def hm.get_ins count_list_remove1 split: option.splits)
  qed
  then show ?thesis using assms(1) finish length_remove1_mem [OF finish(2)] set_remove1_subset [of ip "running s"]
    by (auto simp: proxy_inv_def finish_task_def)
qed

lemma proxy_inv_step: "proxy_inv s \<Longrightarrow> proxy_step s s' \<Longrightarrow> proxy_inv s'"
  by (elim proxy_stepE) (auto intro: proxy_inv_accept proxy_inv_move)

lemma proxy_inv_reachable: "proxy_reachable s \<Longrightarrow> proxy_inv s"
  by (induction rule: proxy_reachable.induct) (auto intro: proxy_inv_init proxy_inv_step)

text \<open>How much work is left: two moves for a waiting task, one for a running one.\<close>

definition load :: "proxy_state \<Rightarrow> nat" where
  "load s = 2 * length (waiting s) + length (running s)"

lemma task_move_load: "task_move s s' \<Longrightarrow> load s' < load s"
proof (elim task_moveE)
  fix ip free assume "s' = acquire_ip ip free s" and "ip \<in> set (waiting s)"
  then show ?thesis using length_remove1_mem [of ip "waiting s"] by (simp add: load_def acquire_ip_def)
next
  fix ip free assume "s' = finish_task ip free s" and "ip \<in> set (running s)"
  then show ?thesis using length_remove1_mem [of ip "running s"] by (simp add: load_def finish_task_def)
qed

lemma task_move_enabled:
  assumes "proxy_inv s" and "waiting s \<noteq> [] \<or> running s \<noteq> []"
  shows "\<exists>s'. task_move s s'"
proof (cases "running s")
  case (Cons ip rest)
  then have "ip \<in> set (running s)" by simp
  moreover have "ip_inv s ip" using assms by (simp add: proxy_inv_def)
  ultimately obtain free where "hm_get (ip_limits s) ip = Some free"
    using count_list_pos [of ip "running s"] by (auto simp: ip_inv_def split: option.splits)
  with \<open>ip \<in> set (running s)\<close> show ?thesis by (blast intro: task_move.finish)
next
  case Nil
  then obtain ip where ip: "ip \<in> set (waiting s)" using assms(2) by (cases "waiting s") auto
  have "ip_inv s ip" using assms by (simp add: proxy_inv_def)
  then have "hm_get (ip_limits s) ip = Some (Suc 31)"
    using ip Nil by (auto simp: ip_inv_def MAX_CONCURRENT_PER_IP_def split: option.splits)
  with ip show ?thesis by (blast intro: task_move.acquire)
qed

lemma task_moves_drain:
  "proxy_inv s \<Longrightarrow> \<exists>s'. task_move\<^sup>*\<^sup>* s s' \<and> waiting s' = [] \<and> running s' = [] \<and> global_free s' = MAX_CONCURRENT_GLOBAL"
proof (induction "load s" arbitrary: s rule: less_induct)
  case less
  show ?case
  proof (cases "waiting s = [] \<and> running s = []")
    case True
    then show ?thesis using less.prems by (intro exI [of _ s]) (simp add: proxy_inv_def)
  next
    case False
    then obtain s1 where s1: "task_move s s1" using task_move_enabled [OF less.prems] by blast
    then obtain s' where "task_move\<^sup>*\<^sup>* s1 s'" "waiting s' = []" "running s' = []" "global_free s' = MAX_CONCURRENT_GLOBAL"
      using less.hyps [OF task_move_load] proxy_inv_move [OF less.prems] by blast
    with s1 show ?thesis by (blast intro: converse_rtranclp_into_rtranclp)
  qed
qed

text \<open>One client alone, before any of its tasks got a permit of its address.\<close>

lemma one_client:
  assumes "is_local_ip a"
  shows "n \<le> MAX_CONCURRENT_GLOBAL \<Longrightarrow>
    \<exists>s. proxy_reachable s \<and> waiting s = replicate n a \<and> running s = [] \<and> global_free s = MAX_CONCURRENT_GLOBAL - n"
proof (induction n)
  case 0
  have "waiting init_proxy = replicate 0 a" "running init_proxy = []" "global_free init_proxy = MAX_CONCURRENT_GLOBAL"
    by (simp_all add: init_proxy_def)
  then show ?case using proxy_reachable.init by auto
next
  case (Suc n)
  then obtain s where s: "proxy_reachable s" "waiting s = replicate n a" "running s = []" "global_free s = MAX_CONCURRENT_GLOBAL - n"
    by auto
  have "proxy_reachable (accept_request a s)" using s(1) by (blast intro: proxy_reachable.step proxy_step.request)
  moreover have "waiting (accept_request a s) = replicate (Suc n) a" "running (accept_request a s) = []"
    "global_free (accept_request a s) = MAX_CONCURRENT_GLOBAL - Suc n"
    using s Suc.prems assms by (simp_all add: accept_request_def replicate_append_same)
  ultimately show ?case by blast
qed

section \<open>Properties\<close>

text \<open>
  C10: The limits hold in every reachable state of the proxy, whatever requests arrive and in whatever order
  tasks get permits and end: at most 10000 tasks exist, at most 32 of them work for the same client address,
  every task serves a local address, and no permit is ever lost: the free global permits and the tasks are
  always 10000 together. A round of the receive loop always ends, in such a state, and spawns a task
  only for a local client.
\<close>

theorem proxy_limits:
  assumes "proxy_reachable s"
  shows "global_free s + length (waiting s) + length (running s) = 10000 \<and>
     (\<forall>ip. count_list (running s) ip \<le> 32) \<and>
     (\<forall>ip \<in> set (waiting s) \<union> set (running s). is_local_ip ip) \<and>
     (\<exists>job s' w'. proxy_round u h listener info s w = Some (Inr (job, s'), w') \<and> proxy_reachable s' \<and>
        (case job of
           None \<Rightarrow> s' = s
         | Some (query, client, reply) \<Rightarrow> is_local_ip (sock_ip client) \<and> s' = accept_request (sock_ip client) s))"
proof -
  have inv: "proxy_inv s" using assms by (rule proxy_inv_reachable)
  obtain job s' w' where "proxy_round u h listener info s w = Some (Inr (job, s'), w')" "proxy_step s s'"
    "case job of None \<Rightarrow> s' = s | Some (query, client, reply) \<Rightarrow>
       is_local_ip (sock_ip client) \<and> 0 < global_free s \<and> s' = accept_request (sock_ip client) s"
    using proxy_round_step [of u h listener info s w] by (elim exE conjE)
  then have round: "\<exists>job s' w'. proxy_round u h listener info s w = Some (Inr (job, s'), w') \<and> proxy_reachable s' \<and>
      (case job of None \<Rightarrow> s' = s
       | Some (query, client, reply) \<Rightarrow> is_local_ip (sock_ip client) \<and> s' = accept_request (sock_ip client) s)"
    using proxy_reachable.step [OF assms]
    by (intro exI [of _ job] exI [of _ s'] exI [of _ w'] conjI) (auto split: option.splits)
  have "count_list (running s) ip \<le> 32" for ip
  proof -
    have "ip_inv s ip" using inv by (simp add: proxy_inv_def)
    then show ?thesis by (auto simp: ip_inv_def MAX_CONCURRENT_PER_IP_def split: option.splits)
  qed
  then show ?thesis using inv round by (simp add: proxy_inv_def MAX_CONCURRENT_GLOBAL_def)
qed

theorem proxy_limits_witness:
  "\<exists>s. proxy_reachable s \<and> waiting s = [V4 0x0A000001] \<and> global_free s = 9999 \<and> count_list (running s) (V4 0x0A000001) \<le> 32 \<and>
     (\<exists>job s' w'. proxy_round sample_udp silent_host 0 True s [] = Some (Inr (job, s'), w') \<and> proxy_reachable s')"
proof -
  have "is_local_ip (V4 0x0A000001)" by code_simp
  then obtain s where "proxy_reachable s" "waiting s = replicate 1 (V4 0x0A000001)" "running s = []"
    using one_client [of "V4 0x0A000001" 1] by (auto simp: MAX_CONCURRENT_GLOBAL_def)
  then show ?thesis using proxy_limits [of s sample_udp silent_host 0 True "[]"] by (intro exI [of _ s]) auto
qed

text \<open>
  C24: The proxy never gets stuck. In every reachable state, as long as there is a task, some task can take its
  next step, every such step brings the work left down, and when no more requests arrive the tasks can all
  end: every sequence of task steps is finite, and one of them leads to a state with all 10000 permits free.
\<close>

theorem proxy_drains:
  assumes "proxy_reachable s"
  shows "((\<exists>s'. task_move s s') \<longleftrightarrow> waiting s \<noteq> [] \<or> running s \<noteq> []) \<and>
     (\<forall>s'. task_move s s' \<longrightarrow> load s' < load s) \<and>
     (\<exists>s'. task_move\<^sup>*\<^sup>* s s' \<and> waiting s' = [] \<and> running s' = [] \<and> global_free s' = 10000)"
proof -
  have inv: "proxy_inv s" using assms by (rule proxy_inv_reachable)
  have "waiting s \<noteq> [] \<or> running s \<noteq> []" if "task_move s s'" for s' using that by (auto elim: task_moveE)
  then show ?thesis
    using task_move_enabled [OF inv] task_move_load task_moves_drain [OF inv] by (auto simp: MAX_CONCURRENT_GLOBAL_def)
qed

theorem proxy_drains_witness:
  "\<exists>s s'. proxy_reachable s \<and> waiting s = [V4 0x0A000001] \<and> task_move\<^sup>*\<^sup>* s s' \<and> waiting s' = [] \<and> global_free s' = 10000"
proof -
  have "is_local_ip (V4 0x0A000001)" by code_simp
  then obtain s where s: "proxy_reachable s" "waiting s = replicate 1 (V4 0x0A000001)" "running s = []"
    using one_client [of "V4 0x0A000001" 1] by (auto simp: MAX_CONCURRENT_GLOBAL_def)
  then have "waiting s = [V4 0x0A000001]" by simp
  then show ?thesis using proxy_drains [OF s(1)] s(1) by blast
qed

text \<open>
  C38: A single client can shut out all others. The global permit is taken before the task waits for a permit
  of its address, so there is a reachable state in which 10000 tasks of one local address hold all global
  permits while none of them works, and in this state every request of every client is dropped.
\<close>

theorem one_client_shuts_out_all:
  assumes "is_local_ip a"
  shows "\<exists>s. proxy_reachable s \<and> waiting s = replicate 10000 a \<and> running s = [] \<and> (\<forall>ip. accept_request ip s = s)"
proof -
  obtain s where "proxy_reachable s" "waiting s = replicate 10000 a" "running s = []" "global_free s = 0"
    using one_client [OF assms, of 10000] by (auto simp: MAX_CONCURRENT_GLOBAL_def)
  then show ?thesis by (intro exI [of _ s]) (simp add: accept_request_def)
qed

theorem one_client_shuts_out_all_witness:
  "\<exists>s. proxy_reachable s \<and> waiting s = replicate 10000 (V4 0xAC1E0102) \<and> accept_request (V4 0xAC1E0203) s = s"
proof -
  have "is_local_ip (V4 0xAC1E0102)" by code_simp
  from one_client_shuts_out_all [OF this] show ?thesis by blast
qed

end
