(* ===== verification/Proxy_Race.thy ===== *)
theory Proxy_Race
  imports Proxy
begin

text \<open>
  Tasks that process responses at the same time (\<^verbatim>\<open>src/src/proxy.rs\<close>, \<^verbatim>\<open>inspect_and_update_state\<close>). A task
  changes the daemon's state while it holds the lock, but writes the sets it found changed to the kernel
  after it has released it, one by one, so the writes of different tasks interleave.
\<close>

section \<open>Model\<close>

text \<open>The part of \<^verbatim>\<open>inspect_and_update_state\<close> up to the sets that have to be written.\<close>

definition learn_response ::
  "(string \<Rightarrow> dns_message option) \<Rightarrow> orders \<Rightarrow> string \<Rightarrow> ip_addr \<Rightarrow> nat \<Rightarrow> daemon
     \<Rightarrow> (string \<times> ip_addr list) list \<times> daemon" where
  "learn_response from_vec ord response origin ttl d =
     (case from_vec response of
        None \<Rightarrow> ([], d)
      | Some message \<Rightarrow>
          (let resolved_ips = collect_resolved_ips message;
               (domains, d1) = record_queries ord origin ttl (msg_queries message) [] d
           in if resolved_ips = [] then ([], d1)
              else
                (let (changed_sets, st) = apply_resolved_ips (set_order ord) (ip_order ord) domains resolved_ips (d_state d1)
                 in (changed_sets, d1\<lparr>d_state := st\<rparr>))))"

datatype task = Queried orders string ip_addr nat | Writing "(string \<times> ip_addr list) list" | Finished

inductive race_step ::
  "(string \<Rightarrow> dns_message option) \<Rightarrow> 'w host \<Rightarrow> daemon \<times> 'w \<times> task list \<Rightarrow> daemon \<times> 'w \<times> task list \<Rightarrow> bool"
  for from_vec h where
  learn: "i < length ts \<Longrightarrow> ts ! i = Queried ord response origin ttl \<Longrightarrow>
     learn_response from_vec ord response origin ttl d = (changed, d') \<Longrightarrow>
     race_step from_vec h (d, w, ts) (d', w, ts[i := Writing changed])"
| restore: "i < length ts \<Longrightarrow> ts ! i = Writing (c # rest) \<Longrightarrow> update_sets h [c] w = Some (r, w') \<Longrightarrow>
     race_step from_vec h (d, w, ts) (d, w', ts[i := Writing rest])"
| leave: "i < length ts \<Longrightarrow> ts ! i = Writing [] \<Longrightarrow>
     race_step from_vec h (d, w, ts) (d, w, ts[i := Finished])"

inductive_cases race_stepE: "race_step from_vec h s s'"

section \<open>Laws\<close>

lemma inspect_learn:
  "inspect_and_update_state from_vec ord h response origin ttl (d, w) =
     (case learn_response from_vec ord response origin ttl d of
        (changed, d') \<Rightarrow> on_world (update_sets h changed) (d', w))"
proof -
  have "on_world (update_sets h []) s = Some (Inr (), s)" for s by (cases s) (simp add: on_world_def ret_def)
  then show ?thesis
    by (cases "from_vec response") (simp_all add: inspect_and_update_state_def learn_response_def Let_def split: prod.split)
qed

lemma learn_response_state:
  assumes "learn_response from_vec ord response origin ttl d = (changed, d')" and "orders_ok ord" and "daemon_inv d"
  shows "daemon_inv d' \<and>
     (case from_vec response of
        None \<Rightarrow> changed = [] \<and> d' = d
      | Some message \<Rightarrow>
          (\<forall>n. hm_get (d_state d') n =
             map_option (learn (map query_domain (msg_queries message)) (collect_resolved_ips message)) (hm_get (d_state d) n)) \<and>
          (\<forall>(n, addrs) \<in> set changed. \<exists>m. hm_get (d_state d') n = Some m \<and> set addrs = set (ips m)))"
proof (cases "from_vec response")
  case None
  then show ?thesis using assms by (simp add: learn_response_def)
next
  case (Some message)
  let ?ips = "collect_resolved_ips message" and ?ds = "map query_domain (msg_queries message)"
  define d1 where "d1 = snd (record_queries ord origin ttl (msg_queries message) [] d)"
  have rec: "record_queries ord origin ttl (msg_queries message) [] d = (?ds, d1)"
    using record_queries_state(1) [of ord origin ttl "msg_queries message" "[]" d] by (simp add: d1_def prod_eq_iff)
  have same: "d_state d1 = d_state d" unfolding d1_def by (rule record_queries_state)
  have inv1: "daemon_inv d1" unfolding d1_def using assms(3) by (rule daemon_inv_record_queries)
  have orders: "iteration_order (set_order ord)" "iteration_order (ip_order ord)" using assms(2) by (simp_all add: orders_ok_def)
  have wf: "wf_state (d_state d)" using assms(3) by (simp add: daemon_inv_def)
  have kd: "keys_distinct (d_state d)" using wf by (simp add: wf_state_def)
  show ?thesis
  proof (cases "?ips = []")
    case True
    have "learn ?ds [] = (\<lambda>m. m)" by (simp add: learn_def fun_eq_iff)
    moreover have "changed = []" "d' = d1" using assms(1) Some rec True by (simp_all add: learn_response_def Let_def)
    ultimately show ?thesis using Some True inv1 same by (simp add: option.map_ident)
  next
    case False
    obtain ch st where app: "apply_resolved_ips (set_order ord) (ip_order ord) ?ds ?ips (d_state d) = (ch, st)" by fastforce
    have d': "changed = ch" "d' = d1\<lparr>d_state := st\<rparr>"
      using assms(1) Some rec False app same by (simp_all add: learn_response_def Let_def)
    have get: "hm_get st n = map_option (learn ?ds ?ips) (hm_get (d_state d) n)" for n
      using apply_resolved_ips_get [OF orders(1) kd, of "ip_order ord" ?ds ?ips n] app by simp
    have "wf_state st" using wf_state_apply [OF orders(1) wf] app by (metis snd_conv)
    moreover have "\<exists>m. hm_get st n = Some m \<and> set addrs = set (ips m)" if mem: "(n, addrs) \<in> set ch" for n addrs
    proof -
      obtain m where "(n, m) \<in> set (d_state d)" "addrs = ip_order ord (ips (learn ?ds ?ips m))"
        using mem apply_resolved_ips_changed [OF orders(1), of "ip_order ord" ?ds ?ips "d_state d"] app by auto
      then have "hm_get (d_state d) n = Some m" "set addrs = set (ips (learn ?ds ?ips m))"
        using kd iteration_order_set [OF orders(2)] by (simp_all only: map_of_eq_Some_iff)
      then show ?thesis unfolding get by (simp only: option.map option.inject simp_thms ex_simps)
    qed
    moreover have "daemon_inv (d1\<lparr>d_state := st\<rparr>)" using inv1 \<open>wf_state st\<close> by (simp add: daemon_inv_def)
    ultimately show ?thesis unfolding d' Some option.case using get by auto
  qed
qed

text \<open>The kernel has both sets of a name, with members from \<open>X\<close> only.\<close>

definition kernel_within :: "('w \<Rightarrow> string \<Rightarrow> ip_addr set option) \<Rightarrow> 'w \<Rightarrow> string \<Rightarrow> ip_addr set \<Rightarrow> bool" where
  "kernel_within sets w n X \<longleftrightarrow>
     (\<exists>S4 S6. sets w n = Some S4 \<and> sets w (ipv6_ipset_name n) = Some S6 \<and> S4 \<subseteq> X \<and> S6 \<subseteq> X)"

lemma kernel_within_mono: "kernel_within sets w n X \<Longrightarrow> X \<subseteq> Y \<Longrightarrow> kernel_within sets w n Y"
  unfolding kernel_within_def by (meson subset_trans)

text \<open>What a task may still bring: addresses within the bounds \<open>B\<close> of the networks.\<close>

definition task_ok ::
  "(string \<Rightarrow> dns_message option) \<Rightarrow> (string \<Rightarrow> ip_addr \<Rightarrow> bool) \<Rightarrow> (string \<Rightarrow> ip_addr set) \<Rightarrow> state_map \<Rightarrow> task \<Rightarrow> bool" where
  "task_ok from_vec storable B st t =
     (case t of
        Queried ord response origin ttl \<Rightarrow>
          orders_ok ord \<and>
          (\<forall>message. from_vec response = Some message \<longrightarrow> storable_answer storable message \<and>
             (\<forall>n m. hm_get st n = Some m \<longrightarrow> admitted (allowed_domain_patterns m) message \<longrightarrow>
                set (collect_resolved_ips message) \<subseteq> B n))
      | Writing changed \<Rightarrow> (\<forall>(n, addrs) \<in> set changed. \<exists>m. hm_get st n = Some m \<and> set addrs \<subseteq> set (ips m))
      | Finished \<Rightarrow> True)"

definition entry_ok ::
  "('w \<Rightarrow> string \<Rightarrow> ip_addr set option) \<Rightarrow> (string \<Rightarrow> ip_addr \<Rightarrow> bool) \<Rightarrow> (string \<Rightarrow> ip_addr set) \<Rightarrow> 'w \<Rightarrow> string \<Rightarrow> managed_ipset \<Rightarrow> bool" where
  "entry_ok sets storable B w n m \<longleftrightarrow>
     kernel_within sets w n (set (ips m)) \<and> (\<forall>a \<in> set (ips m). storable (set_for n a) a) \<and> set (ips m) \<subseteq> B n"

definition race_inv where
  "race_inv from_vec sets storable N B s \<longleftrightarrow>
     (case s of (d, w, ts) \<Rightarrow>
        daemon_inv d \<and> names_apart N \<and> dom (hm_get (d_state d)) = N \<and>
        (\<forall>n m. hm_get (d_state d) n = Some m \<longrightarrow> entry_ok sets storable B w n m) \<and>
        (\<forall>t \<in> set ts. task_ok from_vec storable B (d_state d) t))"

lemma learn_ips_mono: "set (ips m) \<subseteq> set (ips (learn ds as m))"
  by (simp add: learn_def)

lemma task_ok_learn:
  assumes "task_ok from_vec storable B st t" and "\<And>n. hm_get st' n = map_option (learn ds as) (hm_get st n)"
  shows "task_ok from_vec storable B st' t"
proof (cases t)
  case (Writing changed)
  have "\<exists>m. hm_get st' n = Some m \<and> set addrs \<subseteq> set (ips m)" if mem: "(n, addrs) \<in> set changed" for n addrs
  proof -
    obtain m where "hm_get st n = Some m" "set addrs \<subseteq> set (ips m)" using assms(1) Writing mem by (auto simp: task_ok_def)
    then show ?thesis unfolding assms(2) using learn_ips_mono [of m ds as] by auto
  qed
  then show ?thesis using Writing by (auto simp: task_ok_def)
next
  case (Queried ord response origin ttl)
  have "set (collect_resolved_ips message) \<subseteq> B n"
    if adm: "from_vec response = Some message" "hm_get st' n = Some m'" "admitted (allowed_domain_patterns m') message" for message n m'
  proof -
    obtain m where "hm_get st n = Some m" "m' = learn ds as m"
      using adm(2) unfolding assms(2) by (cases "hm_get st n") simp_all
    then show ?thesis using assms(1) adm unfolding Queried task_ok_def task.case by (metis learn_patterns)
  qed
  then show ?thesis using assms(1) unfolding Queried task_ok_def task.case by blast
qed (simp add: task_ok_def)

lemma race_inv_learn:
  assumes inv: "race_inv from_vec sets storable N B (d, w, ts)" and i: "i < length ts" "ts ! i = Queried ord response origin ttl"
    and run: "learn_response from_vec ord response origin ttl d = (changed, d')"
  shows "race_inv from_vec sets storable N B (d', w, ts[i := Writing changed])"
proof -
  have mem: "Queried ord response origin ttl \<in> set ts" using i by (metis nth_mem)
  then have t: "task_ok from_vec storable B (d_state d) (Queried ord response origin ttl)" using inv by (simp add: race_inv_def)
  then have ord: "orders_ok ord" by (simp add: task_ok_def)
  have dinv: "daemon_inv d" and apart: "names_apart N" and dom: "dom (hm_get (d_state d)) = N"
    and entries: "\<And>n m. hm_get (d_state d) n = Some m \<Longrightarrow> entry_ok sets storable B w n m"
    and tasks: "\<And>t. t \<in> set ts \<Longrightarrow> task_ok from_vec storable B (d_state d) t"
    using inv by (simp_all add: race_inv_def)
  note res = learn_response_state [OF run ord dinv]
  show ?thesis
  proof (cases "from_vec response")
    case None
    then have "changed = []" "d' = d" using res by simp_all
    then show ?thesis using inv set_update_subset_insert [of ts i "Writing []"] by (auto simp: race_inv_def task_ok_def)
  next
    case (Some message)
    let ?ds = "map query_domain (msg_queries message)" and ?as = "collect_resolved_ips message"
    have get: "hm_get (d_state d') n = map_option (learn ?ds ?as) (hm_get (d_state d) n)" for n using res Some by simp
    have ch: "\<forall>(n, addrs) \<in> set changed. \<exists>m. hm_get (d_state d') n = Some m \<and> set addrs = set (ips m)"
      using res unfolding Some option.case by blast
    have "entry_ok sets storable B w n m'" if new: "hm_get (d_state d') n = Some m'" for n m'
    proof -
      obtain m where m: "hm_get (d_state d) n = Some m" "m' = learn ?ds ?as m"
        using new unfolding get by (cases "hm_get (d_state d) n") simp_all
      have old: "entry_ok sets storable B w n m" using entries m(1) .
      have "learns ?ds m \<Longrightarrow> set ?as \<subseteq> B n" "\<forall>a \<in> set ?as. storable (set_for n a) a"
        using t Some m(1) by (auto simp: task_ok_def any_pattern_matches_query storable_answer_def)
      then show ?thesis using old kernel_within_mono [of sets w n "set (ips m)" "set (ips m')"] learn_ips_mono [of m ?ds ?as]
        unfolding m(2) by (auto simp: entry_ok_def learn_def)
    qed
    moreover have "dom (hm_get (d_state d')) = N" unfolding dom [symmetric] using get by (auto simp: dom_def)
    moreover have "task_ok from_vec storable B (d_state d') t" if "t \<in> set (ts[i := Writing changed])" for t
    proof -
      have "t = Writing changed \<or> t \<in> set ts" using that set_update_subset_insert by fastforce
      then show ?thesis using task_ok_learn [OF tasks get] ch by (fastforce simp: task_ok_def)
    qed
    ultimately show ?thesis using apart res by (simp add: race_inv_def)
  qed
qed

lemma race_inv_write:
  assumes laws: "ipset_laws h exec sets storable" and inst: "ipset_installed h"
    and inv: "race_inv from_vec sets storable N B (d, w, ts)" and i: "i < length ts" "ts ! i = Writing (c # rest)"
    and run: "update_sets h [c] w = Some (r, w')"
  shows "race_inv from_vec sets storable N B (d, w', ts[i := Writing rest])"
proof -
  obtain n addrs where c: "c = (n, addrs)" by (cases c)
  have mem: "Writing (c # rest) \<in> set ts" using i by (metis nth_mem)
  have apart: "names_apart N" and dom: "dom (hm_get (d_state d)) = N" and entries: "\<And>n m. hm_get (d_state d) n = Some m \<Longrightarrow> entry_ok sets storable B w n m"
    and tasks: "\<And>t. t \<in> set ts \<Longrightarrow> task_ok from_vec storable B (d_state d) t"
    using inv by (simp_all add: race_inv_def)
  have wr: "task_ok from_vec storable B (d_state d) (Writing (c # rest))" using tasks mem .
  then obtain m where m: "hm_get (d_state d) n = Some m" "set addrs \<subseteq> set (ips m)" by (auto simp: task_ok_def c)
  have e: "entry_ok sets storable B w n m" using entries m(1) .
  obtain w1 where w1: "update_sets h [c] w = Some (Inr (), w1)"
    and new: "sets w1 n = Some (v4_of addrs)" "sets w1 (ipv6_ipset_name n) = Some (v6_of addrs)"
    and other: "\<forall>k. k \<notin> {n} \<longrightarrow> k \<notin> {ipv6_ipset_name n} \<longrightarrow> sets w1 k = sets w k"
  proof -
    have "\<And>k. k \<in> fst ` set [c] \<Longrightarrow> sets w k \<noteq> None \<and> sets w (ipv6_ipset_name k) \<noteq> None"
      using e by (auto simp: c entry_ok_def kernel_within_def)
    moreover have "\<And>k as a. (k, as) \<in> set [c] \<Longrightarrow> a \<in> set as \<Longrightarrow> storable (set_for k a) a"
      using e m(2) by (auto simp: c entry_ok_def)
    moreover have "distinct (map fst [c])" "fst ` set [c] \<subseteq> N" using m(1) by (auto simp: c dom [symmetric])
    ultimately show thesis
      using update_sets_run [OF laws inst _ apart, of "[c]" w] that by (auto simp: c)
  qed
  have "w' = w1" using run w1 by simp
  moreover have "entry_ok sets storable B w1 k mk" if k: "hm_get (d_state d) k = Some mk" for k mk
  proof (cases "k = n")
    case True
    then have "kernel_within sets w1 k (set (ips mk))" using new m k by (auto simp: kernel_within_def)
    then show ?thesis using entries [OF k] by (simp add: entry_ok_def)
  next
    case False
    have "k \<noteq> ipv6_ipset_name n" "ipv6_ipset_name k \<noteq> n" using apart m(1) k unfolding names_apart_def dom [symmetric] by blast+
    then have "sets w1 k = sets w k" "sets w1 (ipv6_ipset_name k) = sets w (ipv6_ipset_name k)"
      using other False by (simp_all add: ipv6_ipset_name_inj)
    then show ?thesis using entries [OF k] by (simp add: entry_ok_def kernel_within_def)
  qed
  moreover have "task_ok from_vec storable B (d_state d) t" if "t \<in> set (ts[i := Writing rest])" for t
  proof -
    have "t = Writing rest \<or> t \<in> set ts" using that set_update_subset_insert by fastforce
    then show ?thesis using tasks wr by (auto simp: task_ok_def)
  qed
  ultimately show ?thesis using inv by (simp add: race_inv_def)
qed

lemma race_inv_step:
  assumes "ipset_laws h exec sets storable" and "ipset_installed h"
    and "race_step from_vec h s s'" and "race_inv from_vec sets storable N B s"
  shows "race_inv from_vec sets storable N B s'"
  using assms(3)
proof cases
  case learn
  then show ?thesis using assms(4) by (simp only: race_inv_learn)
next
  case restore
  then show ?thesis using assms(4) by (simp only: race_inv_write [OF assms(1,2)])
next
  case (leave i ts d w)
  then show ?thesis using assms(4) set_update_subset_insert [of ts i Finished] by (auto simp: race_inv_def task_ok_def)
qed

lemma race_inv_steps:
  assumes "(race_step from_vec h)\<^sup>*\<^sup>* s s'" and "ipset_laws h exec sets storable" and "ipset_installed h"
    and "race_inv from_vec sets storable N B s"
  shows "race_inv from_vec sets storable N B s'"
  using assms(1,4) by (induction rule: rtranclp_induct) (auto intro: race_inv_step [OF assms(2,3)])

section \<open>Two tasks on a sample machine\<close>

definition race_from_vec :: "string \<Rightarrow> dns_message option" where
  "race_from_vec response =
     (if response = ''one'' then Some \<lparr>msg_queries = [''example.com''], msg_answers = [A 1]\<rparr>
      else if response = ''two'' then Some \<lparr>msg_queries = [''example.com''], msg_answers = [A 2]\<rparr>
      else None)"

abbreviation web_with :: "ip_addr list \<Rightarrow> state_map" where
  "web_with addrs \<equiv> [(''web'', \<lparr>allowed_domain_patterns = [''*.example.com''], ips = addrs\<rparr>)]"

lemma learn_response_parts:
  assumes "from_vec response = Some message" and "collect_resolved_ips message \<noteq> []"
  shows "\<exists>d'. learn_response from_vec ord response origin ttl d =
       (fst (apply_resolved_ips (set_order ord) (ip_order ord) (map query_domain (msg_queries message)) (collect_resolved_ips message) (d_state d)), d') \<and>
     d_state d' = snd (apply_resolved_ips (set_order ord) (ip_order ord) (map query_domain (msg_queries message)) (collect_resolved_ips message) (d_state d))"
  using assms record_queries_state [of ord origin ttl "msg_queries message" "[]" d]
  by (auto simp: learn_response_def Let_def split: prod.splits)

lemma learn_one:
  assumes "d_state d = web_with []"
  shows "\<exists>d'. learn_response race_from_vec sample_orders ''one'' origin ttl d = ([(''web'', [V4 1])], d') \<and> d_state d' = web_with [V4 1]"
proof -
  let ?m = "\<lparr>msg_queries = [''example.com''], msg_answers = [A 1]\<rparr>"
  have m: "race_from_vec ''one'' = Some ?m" "collect_resolved_ips ?m \<noteq> []" by (simp_all add: race_from_vec_def collect_resolved_ips_def)
  have "apply_resolved_ips (set_order sample_orders) (ip_order sample_orders) (map query_domain (msg_queries ?m)) (collect_resolved_ips ?m) (web_with []) =
      ([(''web'', [V4 1])], web_with [V4 1])" by code_simp
  then show ?thesis using learn_response_parts [where from_vec = race_from_vec, OF m, of sample_orders origin ttl d] assms by simp
qed

lemma learn_two:
  assumes "d_state d = web_with [V4 1]"
  shows "\<exists>d'. learn_response race_from_vec sample_orders ''two'' origin ttl d = ([(''web'', [V4 2, V4 1])], d') \<and> d_state d' = web_with [V4 1, V4 2]"
proof -
  let ?m = "\<lparr>msg_queries = [''example.com''], msg_answers = [A 2]\<rparr>"
  have m: "race_from_vec ''two'' = Some ?m" "collect_resolved_ips ?m \<noteq> []" by (simp_all add: race_from_vec_def collect_resolved_ips_def)
  have "apply_resolved_ips (set_order sample_orders) (ip_order sample_orders) (map query_domain (msg_queries ?m)) (collect_resolved_ips ?m) (web_with [V4 1]) =
      ([(''web'', [V4 2, V4 1])], web_with [V4 1, V4 2])" by code_simp
  then show ?thesis using learn_response_parts [where from_vec = race_from_vec, OF m, of sample_orders origin ttl d] assms by simp
qed

lemma learn_two_again:
  assumes "d_state d = web_with [V4 1, V4 2]"
  shows "\<exists>d'. learn_response race_from_vec sample_orders ''two'' origin ttl d = ([], d')"
proof -
  let ?m = "\<lparr>msg_queries = [''example.com''], msg_answers = [A 2]\<rparr>"
  have m: "race_from_vec ''two'' = Some ?m" "collect_resolved_ips ?m \<noteq> []" by (simp_all add: race_from_vec_def collect_resolved_ips_def)
  have "fst (apply_resolved_ips (set_order sample_orders) (ip_order sample_orders) (map query_domain (msg_queries ?m)) (collect_resolved_ips ?m) (web_with [V4 1, V4 2])) = []"
    by code_simp
  then show ?thesis using learn_response_parts [where from_vec = race_from_vec, OF m, of sample_orders origin ttl d] assms by auto
qed

lemma write_web:
  assumes "w ''web'' \<noteq> None" and "w ''web-v6'' \<noteq> None"
  shows "\<exists>w'. update_sets sets_host [(''web'', addrs)] w = Some (Inr (), w') \<and> w' ''web'' = Some (v4_of addrs) \<and> w' ''web-v6'' = Some (v6_of addrs)"
proof -
  have t: "token ''web''" "ipv6_ipset_name ''web'' = ''web-v6''" by code_simp+
  have "\<exists>w'. update_ipset sets_host ''web'' addrs w = Some (Inr (), w') \<and>
      w' = w(''web'' \<mapsto> v4_of addrs, ''web-v6'' \<mapsto> v6_of addrs)"
  proof -
    obtain S4 S6 where "w ''web'' = Some S4" "w (ipv6_ipset_name ''web'') = Some S6" using assms unfolding t by blast
    from update_ipset_sets [where sets = "\<lambda>k. k", OF sets_host_laws sets_host_trusted t(1) this, of addrs] show ?thesis
      unfolding t by simp
  qed
  then show ?thesis by (auto simp: bindc_def attempt_def ret_def)
qed

lemma race_run:
  "\<exists>d' w'. (race_step race_from_vec sets_host)\<^sup>*\<^sup>*
       (sample_daemon, sample_sets, [Queried sample_orders ''one'' (V4 9) 60, Queried sample_orders ''two'' (V4 9) 60])
       (d', w', [Finished, Finished]) \<and>
     d_state d' = web_with [V4 1, V4 2] \<and> w' ''web'' = Some {V4 1} \<and> w' ''web-v6'' = Some {}"
proof -
  let ?step = "race_step race_from_vec sets_host"
  let ?q1 = "Queried sample_orders ''one'' (V4 9) 60" and ?q2 = "Queried sample_orders ''two'' (V4 9) 60"
  have "d_state sample_daemon = web_with []" by (simp add: sample_daemon_def)
  from learn_one [OF this, of "V4 9" 60] obtain d1 where d1: "learn_response race_from_vec sample_orders ''one'' (V4 9) 60 sample_daemon = ([(''web'', [V4 1])], d1)"
    "d_state d1 = web_with [V4 1]" by blast
  from learn_two [OF d1(2), of "V4 9" 60] obtain d2 where d2: "learn_response race_from_vec sample_orders ''two'' (V4 9) 60 d1 = ([(''web'', [V4 2, V4 1])], d2)"
    "d_state d2 = web_with [V4 1, V4 2]" by blast
  have s0: "sample_sets ''web'' \<noteq> None" "sample_sets ''web-v6'' \<noteq> None" by (simp_all add: sample_sets_def)
  from write_web [OF s0, of "[V4 2, V4 1]"] obtain w2 where w2: "update_sets sets_host [(''web'', [V4 2, V4 1])] sample_sets = Some (Inr (), w2)"
    "w2 ''web'' \<noteq> None" "w2 ''web-v6'' \<noteq> None" by auto
  from write_web [OF w2(2,3), of "[V4 1]"] obtain w3 where w3: "update_sets sets_host [(''web'', [V4 1])] w2 = Some (Inr (), w3)"
    "w3 ''web'' = Some (v4_of [V4 1])" "w3 ''web-v6'' = Some (v6_of [V4 1])" by blast
  have "?step (sample_daemon, sample_sets, [?q1, ?q2]) (d1, sample_sets, [Writing [(''web'', [V4 1])], ?q2])"
    using race_step.learn [of 0 "[?q1, ?q2]", OF _ _ d1(1)] by simp
  moreover have "?step \<dots> (d2, sample_sets, [Writing [(''web'', [V4 1])], Writing [(''web'', [V4 2, V4 1])]])"
    using race_step.learn [of 1 "[Writing [(''web'', [V4 1])], ?q2]", OF _ _ d2(1)] by simp
  moreover have "?step \<dots> (d2, w2, [Writing [(''web'', [V4 1])], Writing []])"
    using race_step.restore [of 1 "[Writing [(''web'', [V4 1])], Writing [(''web'', [V4 2, V4 1])]]", OF _ _ w2(1)] by simp
  moreover have "?step \<dots> (d2, w3, [Writing [], Writing []])"
    using race_step.restore [of 0 "[Writing [(''web'', [V4 1])], Writing []]", OF _ _ w3(1)] by simp
  moreover have "?step \<dots> (d2, w3, [Finished, Writing []])"
    using race_step.leave [of 0 "[Writing [], Writing []]"] by simp
  moreover have "?step \<dots> (d2, w3, [Finished, Finished])"
    using race_step.leave [of 1 "[Finished, Writing []]"] by simp
  ultimately have "?step\<^sup>*\<^sup>* (sample_daemon, sample_sets, [?q1, ?q2]) (d2, w3, [Finished, Finished])"
    by (meson converse_rtranclp_into_rtranclp rtranclp.rtrancl_refl)
  moreover have "v4_of [V4 1] = {V4 1}" "v6_of [V4 1] = {}" by auto
  ultimately show ?thesis using d2(2) w3(2,3) by (intro exI [of _ d2] exI [of _ w3] conjI) (simp_all only:)
qed

section \<open>Properties\<close>

text \<open>
  C12: However tasks interleave, no container reaches an address that no answer for its domains contained. For
  tasks that run at the same time on a kernel in step with the daemon, after any sequence of their steps the
  two kernel sets of every network exist and hold only addresses that the network had before or that a
  message of one of the tasks contained which answers a name the patterns of the network admit.
\<close>

theorem interleaved_tasks_safe:
  assumes "ipset_laws h exec sets storable" and "ipset_installed h" and "\<forall>x \<in> set rs. orders_ok (fst x)"
    and "\<forall>message \<in> messages from_vec rs. storable_answer storable message"
    and "daemon_inv d" and "in_sync sets storable d w" and "hm_get (d_state d) n = Some m"
    and "(race_step from_vec h)\<^sup>*\<^sup>* (d, w, map (\<lambda>(ord, response, origin, ttl). Queried ord response origin ttl) rs) (d', w', ts')"
  shows "\<exists>S4 S6. sets w' n = Some S4 \<and> sets w' (ipv6_ipset_name n) = Some S6 \<and>
     S4 \<union> S6 \<subseteq> set (ips m) \<union> learned (allowed_domain_patterns m) (messages from_vec rs)"
proof -
  define B where "B k = (case hm_get (d_state d) k of
      Some m \<Rightarrow> set (ips m) \<union> learned (allowed_domain_patterns m) (messages from_vec rs) | None \<Rightarrow> {})" for k
  have "task_ok from_vec storable B (d_state d) (Queried ord response origin ttl)"
    if mem: "(ord, response, origin, ttl) \<in> set rs" for ord response origin ttl
  proof -
    have "message \<in> messages from_vec rs" if "from_vec response = Some message" for message
      using that mem by (auto simp: messages_def)
    then show ?thesis using assms(3,4) mem by (fastforce simp: task_ok_def B_def learned_def)
  qed
  moreover have "entry_ok sets storable B w k mk" if "hm_get (d_state d) k = Some mk" for k mk
    using assms(6) that by (auto simp: in_sync_def entry_ok_def kernel_within_def B_def)
  ultimately have "race_inv from_vec sets storable (dom (hm_get (d_state d))) B (d, w, map (\<lambda>(ord, response, origin, ttl). Queried ord response origin ttl) rs)"
    using assms(5,6) by (auto simp: race_inv_def in_sync_def)
  from race_inv_steps [OF assms(8,1,2) this] have inv: "race_inv from_vec sets storable (dom (hm_get (d_state d))) B (d', w', ts')" .
  then have "dom (hm_get (d_state d')) = dom (hm_get (d_state d))" by (simp add: race_inv_def)
  then obtain m' where "hm_get (d_state d') n = Some m'" using assms(7) by blast
  with inv have "entry_ok sets storable B w' n m'" by (simp add: race_inv_def)
  then have "kernel_within sets w' n (B n)"
    unfolding entry_ok_def by (elim conjE) (rule kernel_within_mono)
  moreover have "B n = set (ips m) \<union> learned (allowed_domain_patterns m) (messages from_vec rs)"
    by (simp add: B_def assms(7))
  ultimately show ?thesis unfolding kernel_within_def Un_subset_iff by simp
qed

theorem interleaved_tasks_safe_witness:
  "\<exists>w' d' S4 S6. (race_step race_from_vec sets_host)\<^sup>*\<^sup>*
       (sample_daemon, sample_sets, [Queried sample_orders ''one'' (V4 9) 60, Queried sample_orders ''two'' (V4 9) 60])
       (d', w', [Finished, Finished]) \<and>
     w' ''web'' = Some S4 \<and> w' (ipv6_ipset_name ''web'') = Some S6 \<and>
     S4 \<union> S6 \<subseteq> set [] \<union> learned [''*.example.com''] (messages race_from_vec
       [(sample_orders, ''one'', V4 9, 60), (sample_orders, ''two'', V4 9, 60)])"
proof -
  let ?rs = "[(sample_orders, ''one'', V4 9, 60), (sample_orders, ''two'', V4 9, 60)]"
  obtain d' w' where run: "(race_step race_from_vec sets_host)\<^sup>*\<^sup>*
       (sample_daemon, sample_sets, map (\<lambda>(ord, response, origin, ttl). Queried ord response origin ttl) ?rs) (d', w', [Finished, Finished])"
    using race_run by auto
  have "\<forall>x \<in> set ?rs. orders_ok (fst x)" using sample_proxy_hyps(2) by simp
  moreover have "\<forall>message \<in> messages race_from_vec ?rs. storable_answer (\<lambda>_ _. True) message"
    using sample_proxy_hyps(5) by blast
  ultimately have "\<exists>S4 S6. w' ''web'' = Some S4 \<and> w' (ipv6_ipset_name ''web'') = Some S6 \<and>
     S4 \<union> S6 \<subseteq> set (ips \<lparr>allowed_domain_patterns = [''*.example.com''], ips = []\<rparr>) \<union>
       learned (allowed_domain_patterns \<lparr>allowed_domain_patterns = [''*.example.com''], ips = []\<rparr>) (messages race_from_vec ?rs)"
    by (rule interleaved_tasks_safe [where sets = "\<lambda>k. k", OF sets_host_laws sample_proxy_hyps(1) _ _ sample_proxy_hyps(3,4,6) run])
  then show ?thesis using run by auto
qed

text \<open>
  C39: Two answers at the same time can lose an address for good. Starting in step with the kernel, two tasks that
  learn one address each for the same network can interleave so that both end while the kernel set lacks the
  second address although the daemon lists it; and since the daemon only writes sets that grow, resolving the
  name again leaves the kernel as it is.
\<close>

theorem concurrent_answers_lose_address:
  "\<exists>d' w'. (race_step race_from_vec sets_host)\<^sup>*\<^sup>*
       (sample_daemon, sample_sets, [Queried sample_orders ''one'' (V4 9) 60, Queried sample_orders ''two'' (V4 9) 60])
       (d', w', [Finished, Finished]) \<and>
     policies_of d' ''web'' = Some ([''*.example.com''], {V4 1, V4 2}) \<and> w' ''web'' = Some {V4 1} \<and>
     (\<exists>d''. inspect_and_update_state race_from_vec sample_orders sets_host ''two'' origin ttl (d', w') = Some (Inr (), d'', w'))"
proof -
  obtain d' w' where run: "(race_step race_from_vec sets_host)\<^sup>*\<^sup>*
       (sample_daemon, sample_sets, [Queried sample_orders ''one'' (V4 9) 60, Queried sample_orders ''two'' (V4 9) 60])
       (d', w', [Finished, Finished])"
    and d': "d_state d' = web_with [V4 1, V4 2]" and w': "w' ''web'' = Some {V4 1}" using race_run by blast
  obtain d'' where "learn_response race_from_vec sample_orders ''two'' origin ttl d' = ([], d'')" using learn_two_again [OF d'] by blast
  then have "inspect_and_update_state race_from_vec sample_orders sets_host ''two'' origin ttl (d', w') = Some (Inr (), d'', w')"
    by (simp add: inspect_learn on_world_def ret_def)
  moreover have "policies_of d' ''web'' = Some ([''*.example.com''], {V4 1, V4 2})" using d' by (simp add: policies_of_def)
  ultimately show ?thesis using run w' by blast
qed

end
