(* ===== verification/Server.thy ===== *)
theory Server
  imports Proxy
begin

text \<open>
  The daemon process (\<^verbatim>\<open>src/src/daemon.rs\<close>, \<^verbatim>\<open>run_control_server\<close> of \<^verbatim>\<open>src/src/control.rs\<close> and the setup of
  \<^verbatim>\<open>run_dns_proxy\<close> in \<^verbatim>\<open>src/src/proxy.rs\<close>), the states that its tasks can reach together, and the client that
  prints the statistics (\<^verbatim>\<open>send_stats\<close> of \<^verbatim>\<open>src/src/stats.rs\<close>).
\<close>

section \<open>Starting the daemon\<close>

definition CONTROL_SOCKET_PATH :: string where
  "CONTROL_SOCKET_PATH = ''/run/dockerwall.sock''"

text \<open>The operations on files and sockets that the servers use before they serve; not part of the program.\<close>

record 'w server_os =
  os_exists :: "string \<Rightarrow> 'w \<Rightarrow> bool"
  os_remove_file :: "string \<Rightarrow> 'w \<Rightarrow> unit result \<times> 'w"
  os_bind_unix :: "string \<Rightarrow> 'w \<Rightarrow> unit result \<times> 'w"
  os_set_permissions :: "string \<Rightarrow> u32 \<Rightarrow> 'w \<Rightarrow> unit result \<times> 'w"
  os_local_is_ipv4 :: "nat \<Rightarrow> 'w \<Rightarrow> bool result"
  os_set_packet_info :: "nat \<Rightarrow> 'w \<Rightarrow> unit result \<times> 'w"

text \<open>\<^verbatim>\<open>run_control_server\<close> up to its loop; the mode is octal 600.\<close>

definition start_control_server :: "'w server_os \<Rightarrow> 'w host \<Rightarrow> ('w, unit) cmd" where
  "start_control_server os h =
     bindc (\<lambda>w. if os_exists os CONTROL_SOCKET_PATH w then call (os_remove_file os CONTROL_SOCKET_PATH) w else ret () w) (\<lambda>_.
     bindc (call (os_bind_unix os CONTROL_SOCKET_PATH)) (\<lambda>_.
     bindc (call (os_set_permissions os CONTROL_SOCKET_PATH 0x180)) (\<lambda>_.
       sys_println h (''dockerwall control socket listening on '' @ CONTROL_SOCKET_PATH))))"

text \<open>\<^verbatim>\<open>run_dns_proxy\<close> up to its loop: the listener, whether it reports packet information, and the upstream.\<close>

definition start_dns_proxy ::
  "'w udp \<Rightarrow> 'w server_os \<Rightarrow> 'w host \<Rightarrow> string \<Rightarrow> string \<Rightarrow> ('w, nat \<times> bool \<times> socket_addr) cmd" where
  "start_dns_proxy u os h dns_listen_addr dns_upstream_addr =
     bindc (call (udp_bind u dns_listen_addr)) (\<lambda>listener.
     bindc (\<lambda>w. lift_result (os_local_is_ipv4 os listener w) w) (\<lambda>receive_packet_info.
     bindc (if receive_packet_info then call (os_set_packet_info os listener) else ret ()) (\<lambda>_.
     bindc (lift_result (ok_or AddrParseError (parse_socket_addr dns_upstream_addr))) (\<lambda>upstream_addr.
     bindc (sys_println h (''dockerwall dns proxy listening on '' @ dns_listen_addr)) (\<lambda>_.
       ret (listener, receive_packet_info, upstream_addr))))))"

text \<open>
  \<^verbatim>\<open>run_daemon\<close>: the control server is a task of its own, so it may start before or after the proxy; neither start
  uses what the other one changes. When the proxy does not start, its error ends the daemon; when it does,
  its loop never returns, so in no case the result of the control task is looked at. What is left of a start
  is the port, what became of the control server, and the proxy with its durations in nanoseconds.
\<close>

record daemon_run =
  run_dns_port :: u16
  run_control :: "unit result"
  run_listener :: nat
  run_packet_info :: bool
  run_upstream :: socket_addr
  run_stats_ttl :: nat

definition run_daemon ::
  "bool \<Rightarrow> 'w udp \<Rightarrow> 'w server_os \<Rightarrow> 'w host \<Rightarrow> string \<Rightarrow> string \<Rightarrow> nat \<Rightarrow> ('w, daemon_run) cmd" where
  "run_daemon control_first u os h dns_listen_addr dns_upstream_addr stats_ttl =
     bindc (lift_result (ok_or AddrParseError (parse_socket_addr dns_listen_addr))) (\<lambda>listen_addr.
       let dns_port = sock_port listen_addr in
       if control_first then
         bindc (attempt (start_control_server os h)) (\<lambda>control.
         bindc (start_dns_proxy u os h dns_listen_addr dns_upstream_addr) (\<lambda>(listener, info, upstream).
           ret \<lparr>run_dns_port = dns_port, run_control = control, run_listener = listener,
                run_packet_info = info, run_upstream = upstream, run_stats_ttl = stats_ttl\<rparr>))
       else
         bindc (start_dns_proxy u os h dns_listen_addr dns_upstream_addr) (\<lambda>(listener, info, upstream).
         bindc (attempt (start_control_server os h)) (\<lambda>control.
           ret \<lparr>run_dns_port = dns_port, run_control = control, run_listener = listener,
                run_packet_info = info, run_upstream = upstream, run_stats_ttl = stats_ttl\<rparr>)))"

section \<open>Serving control connections\<close>

text \<open>
  One round of the accept loop of \<^verbatim>\<open>run_control_server\<close>, with the task it spawns run to its end: what the
  connection brings, or the error of the accept, and the line that is logged.
\<close>

datatype accepted = Stream "stats_map \<Rightarrow> stats_map" int "error option" line_read | AcceptError error

definition control_round :: "'w host \<Rightarrow> u16 \<Rightarrow> accepted \<Rightarrow> daemon \<times> 'w \<Rightarrow> daemon \<times> 'w" where
  "control_round h dns_port conn = (\<lambda>(d, w).
     case conn of
       AcceptError err \<Rightarrow> (d, host_eprintln h (''accept error: '' @ error_text err) w)
     | Stream order now write_error line \<Rightarrow>
         (case handle_control_connection order now write_error line dns_port d of
            (Inl err, _, d') \<Rightarrow> (d', host_eprintln h (''control error: '' @ error_text err) w)
          | (Inr _, _, d') \<Rightarrow> (d', w)))"

section \<open>The client that prints the statistics\<close>

text \<open>
  The connection of \<^verbatim>\<open>send_stats\<close>, and \<^verbatim>\<open>print!\<close>, which adds no newline. A read takes the bytes up to the next
  newline, or the rest, and an empty line is the end of the answer.
\<close>

record 'w stats_os =
  so_connect :: "string \<Rightarrow> 'w \<Rightarrow> unit result \<times> 'w"
  so_write_all :: "string \<Rightarrow> 'w \<Rightarrow> unit result \<times> 'w"
  so_read_line :: "'w \<Rightarrow> string result \<times> 'w"
  so_print :: "string \<Rightarrow> 'w \<Rightarrow> 'w"

partial_function (option) print_lines :: "'w stats_os \<Rightarrow> ('w, unit) cmd" where
  "print_lines so w =
     (case so_read_line so w of
        (Inl err, w') \<Rightarrow> Some (Inl err, w')
      | (Inr line, w') \<Rightarrow> if 0 < length line then print_lines so (so_print so line w') else Some (Inr (), w'))"

definition send_stats :: "'w stats_os \<Rightarrow> ('w, unit) cmd" where
  "send_stats so =
     bindc (call (so_connect so CONTROL_SOCKET_PATH)) (\<lambda>_.
     bindc (call (so_write_all so (''STATS'' @ [newline]))) (\<lambda>_.
       print_lines so))"

section \<open>Reachable states\<close>

text \<open>
  The critical sections of the tasks of the daemon. Between the sections of one task those of others may
  happen: the network and the verdict that a recording uses were read in earlier sections.
\<close>

inductive critical_section :: "daemon \<Rightarrow> daemon \<Rightarrow> bool" where
  register: "critical_section d (d\<lparr>d_stats := register_network name subnet (d_stats d)\<rparr>)"
| create: "critical_section d
     (d\<lparr>d_state := hm_insert name \<lparr>allowed_domain_patterns = patterns, ips = []\<rparr> (d_state d)\<rparr>)"
| remove: "critical_section d (d\<lparr>d_state := hm_remove name (d_state d)\<rparr>)"
| resolve: "critical_section d
     (d\<lparr>d_stats := (d_stats d)\<lparr>STATS := record_entry now key ttl nid acc (STATS (d_stats d))\<rparr>\<rparr>)"
| apply_ips: "iteration_order order \<Longrightarrow> critical_section d
     (d\<lparr>d_state := snd (apply_resolved_ips order iorder domains resolved (d_state d))\<rparr>)"

inductive daemon_reachable :: "daemon \<Rightarrow> bool" where
  start: "daemon_reachable init_daemon"
| enter: "daemon_reachable d \<Longrightarrow> critical_section d d' \<Longrightarrow> daemon_reachable d'"

inductive_cases critical_sectionE: "critical_section d d'"

section \<open>Laws\<close>

subsection \<open>The states of the daemon\<close>

lemma length_subnets_register:
  "length (SUBNET_TO_ID s) \<le> length (SUBNET_TO_ID (register_network name subnet s))"
  by (auto simp: register_network_def Let_def length_update_new map_of_eq_None_iff split: option.splits)

lemma length_subnets_section:
  "critical_section d d' \<Longrightarrow> length (SUBNET_TO_ID (d_stats d)) \<le> length (SUBNET_TO_ID (d_stats d'))"
  by (elim critical_sectionE) (simp_all add: length_subnets_register)

lemma daemon_inv_section:
  assumes "critical_section d d'" and "daemon_inv d" and "length (SUBNET_TO_ID (d_stats d)) < 4294967294"
  shows "daemon_inv d'"
  using assms(1)
proof cases
  case (register name subnet)
  then show ?thesis using assms(2,3) by (simp add: daemon_inv_def wf_stats_register registry_inv_register)
next
  case (resolve now key ttl nid acc)
  then show ?thesis using assms(2)
    by (simp add: daemon_inv_def wf_stats_def registry_inv_def length_record_entry keys_distinct_record_entry)
qed (use assms(2) in \<open>simp_all add: daemon_inv_def wf_state_insert wf_state_remove wf_state_apply\<close>)

lemma daemon_inv_reachable:
  "daemon_reachable d \<Longrightarrow> length (SUBNET_TO_ID (d_stats d)) < 4294967294 \<Longrightarrow> daemon_inv d"
proof (induction rule: daemon_reachable.induct)
  case (enter d d')
  have "length (SUBNET_TO_ID (d_stats d)) < 4294967294"
    using length_subnets_section [OF enter.hyps(2)] enter.prems by linarith
  then show ?case using enter by (blast intro: daemon_inv_section)
qed (rule daemon_inv_init)

text \<open>Every connection and every response is a sequence of critical sections.\<close>

lemma register_then_create:
  assumes "daemon_reachable d"
  shows "daemon_reachable (d\<lparr>d_stats := register_network name subnet (d_stats d),
     d_state := hm_insert name \<lparr>allowed_domain_patterns = patterns, ips = []\<rparr> (d_state d)\<rparr>)"
  using enter [OF enter [OF assms register [of _ name subnet]] create [of _ name patterns]] by simp

lemma reachable_create: "daemon_reachable d \<Longrightarrow> daemon_reachable (snd (snd (handle_create we rest d)))"
  by (auto simp: handle_create_def Let_def register_then_create enter [OF _ create] split: list.splits)

lemma reachable_handle:
  "daemon_reachable d \<Longrightarrow> daemon_reachable (snd (snd (handle_control_connection order now we line port d)))"
  by (auto simp: handle_control_connection_def handle_remove_def Let_def
      intro: enter [OF _ remove] reachable_create split: line_read.splits option.splits)

lemma reachable_round:
  "daemon_reachable d \<Longrightarrow> daemon_reachable (fst (control_round h port conn (d, w)))"
  using reachable_handle [of d]
  by (fastforce simp: control_round_def split: accepted.splits prod.splits sum.splits dest: arg_cong [where f = "snd \<circ> snd"])

lemma record_resolve_section:
  "critical_section d (d\<lparr>d_stats := record_resolve order now st domain origin ttl (d_stats d)\<rparr>)"
  by (auto simp: record_resolve_def Let_def intro: resolve split: prod.splits)

lemma reachable_record_queries:
  "daemon_reachable d \<Longrightarrow> daemon_reachable (snd (record_queries ord origin ttl qs ds d))"
  by (induction qs arbitrary: ds d) (simp_all add: Let_def enter [OF _ record_resolve_section])

lemma reachable_inspect:
  assumes "daemon_reachable d" and "iteration_order (set_order ord)"
    and run: "inspect_and_update_state from_vec ord h response origin ttl (d, w) = Some (r, d', w')"
  shows "daemon_reachable d'"
proof (cases "from_vec response")
  case (Some message)
  let ?d1 = "snd (record_queries ord origin ttl (msg_queries message) [] d)"
  have "daemon_reachable ?d1" by (rule reachable_record_queries) fact
  moreover have "daemon_reachable (?d1\<lparr>d_state := snd (apply_resolved_ips (set_order ord) (ip_order ord) domains resolved (d_state ?d1))\<rparr>)"
    for domains resolved
    by (rule enter [OF calculation apply_ips]) fact
  ultimately show ?thesis using run Some
    by (auto simp: inspect_and_update_state_def on_world_def Let_def split: prod.splits if_splits option.splits)
      (metis snd_conv)+
qed (use assms in \<open>simp add: inspect_and_update_state_def\<close>)

subsection \<open>The printed statistics\<close>

text \<open>
  A machine on which the daemon answers the client: what a client writes is served as one connection,
  its answer arrives line by line, and the terminal shows what was printed.
\<close>

definition serves_stats ::
  "(stats_map \<Rightarrow> stats_map) \<Rightarrow> int \<Rightarrow> u16 \<Rightarrow> ('w \<Rightarrow> daemon) \<Rightarrow> ('w \<Rightarrow> string) \<Rightarrow> ('w \<Rightarrow> string) \<Rightarrow> 'w stats_os \<Rightarrow> bool" where
  "serves_stats order now port dmn incoming terminal so \<longleftrightarrow>
     (\<forall>w. \<exists>w'. so_connect so CONTROL_SOCKET_PATH w = (Inr (), w') \<and> dmn w' = dmn w \<and> terminal w' = terminal w) \<and>
     (\<forall>payload w. \<exists>w'. so_write_all so payload w = (Inr (), w') \<and> terminal w' = terminal w \<and>
        snd (handle_control_connection order now None (LineBuffer (read_line payload)) port (dmn w)) = (incoming w', dmn w')) \<and>
     (\<forall>w. \<exists>w'. so_read_line so w = (Inr (read_line (incoming w)), w') \<and>
        incoming w' = drop (length (read_line (incoming w))) (incoming w) \<and> dmn w' = dmn w \<and> terminal w' = terminal w) \<and>
     (\<forall>line w. terminal (so_print so line w) = terminal w @ line \<and> incoming (so_print so line w) = incoming w \<and>
        dmn (so_print so line w) = dmn w)"

lemma read_line_rest: "read_line s @ drop (length (read_line s)) s = s"
  by (induction s) auto

lemma read_line_empty: "read_line s = [] \<longleftrightarrow> s = []"
  by (cases s) auto

lemma print_lines_all:
  assumes "serves_stats order now port dmn incoming terminal so"
  shows "\<exists>w'. print_lines so w = Some (Inr (), w') \<and> terminal w' = terminal w @ incoming w \<and> dmn w' = dmn w"
proof (induction "length (incoming w)" arbitrary: w rule: less_induct)
  case less
  obtain w1 where read: "so_read_line so w = (Inr (read_line (incoming w)), w1)"
    and w1: "incoming w1 = drop (length (read_line (incoming w))) (incoming w)" "dmn w1 = dmn w" "terminal w1 = terminal w"
    using assms unfolding serves_stats_def by blast
  show ?case
  proof (cases "incoming w = []")
    case True
    then show ?thesis using read w1 by (simp add: print_lines.simps [of so w])
  next
    case False
    let ?line = "read_line (incoming w)"
    let ?w2 = "so_print so ?line w1"
    have w2: "terminal ?w2 = terminal w1 @ ?line" "incoming ?w2 = incoming w1" "dmn ?w2 = dmn w1"
      using assms unfolding serves_stats_def by blast+
    have line: "?line \<noteq> []" using False by (simp add: read_line_empty)
    then have "length (incoming ?w2) < length (incoming w)" using False by (simp add: w1 w2)
    from less [OF this] obtain w' where "print_lines so ?w2 = Some (Inr (), w')"
      and "terminal w' = terminal ?w2 @ incoming ?w2" and "dmn w' = dmn ?w2" by blast
    then show ?thesis using read line read_line_rest [of "incoming w"]
      by (simp add: print_lines.simps [of so w] w1 w2)
  qed
qed

subsection \<open>The files of the daemon\<close>

text \<open>
  The mode of each file, and how the calls change it: a bind needs a path without a file and makes one with
  some mode, and a call that fails leaves the files as they are. The sockets of the proxy are not files.
\<close>

definition file_laws :: "'w server_os \<Rightarrow> 'w udp \<Rightarrow> 'w host \<Rightarrow> ('w \<Rightarrow> string \<Rightarrow> u32 option) \<Rightarrow> bool" where
  "file_laws os u h mode \<longleftrightarrow>
     (\<forall>p w. os_exists os p w \<longleftrightarrow> mode w p \<noteq> None) \<and>
     (\<forall>p w. case os_remove_file os p w of
        (Inr _, w') \<Rightarrow> mode w' = (mode w)(p := None) | (Inl _, w') \<Rightarrow> mode w' = mode w) \<and>
     (\<forall>p w. case os_bind_unix os p w of
        (Inr _, w') \<Rightarrow> mode w p = None \<and> (\<exists>m. mode w' = (mode w)(p \<mapsto> m)) | (Inl _, w') \<Rightarrow> mode w' = mode w) \<and>
     (\<forall>p m w. case os_set_permissions os p m w of
        (Inr _, w') \<Rightarrow> mode w p \<noteq> None \<and> mode w' = (mode w)(p \<mapsto> m) | (Inl _, w') \<Rightarrow> mode w' = mode w) \<and>
     (\<forall>a w. mode (snd (udp_bind u a w)) = mode w) \<and>
     (\<forall>n w. mode (snd (os_set_packet_info os n w)) = mode w) \<and>
     (\<forall>line w. mode (host_println h line w) = mode w)"

lemma file_lawsD:
  assumes "file_laws os u h mode"
  shows "os_exists os p w \<longleftrightarrow> mode w p \<noteq> None"
    and "os_remove_file os p w = (Inr x, w') \<Longrightarrow> mode w' = (mode w)(p := None)"
    and "os_remove_file os p w = (Inl e, w') \<Longrightarrow> mode w' = mode w"
    and "os_bind_unix os p w = (Inr x, w') \<Longrightarrow> mode w p = None \<and> (\<exists>m. mode w' = (mode w)(p \<mapsto> m))"
    and "os_bind_unix os p w = (Inl e, w') \<Longrightarrow> mode w' = mode w"
    and "os_set_permissions os p m w = (Inr x, w') \<Longrightarrow> mode w p \<noteq> None \<and> mode w' = (mode w)(p \<mapsto> m)"
    and "os_set_permissions os p m w = (Inl e, w') \<Longrightarrow> mode w' = mode w"
    and "udp_bind u a w = (r, w') \<Longrightarrow> mode w' = mode w"
    and "os_set_packet_info os n w = (s, w') \<Longrightarrow> mode w' = mode w"
    and "mode (host_println h line w) = mode w"
  using assms unfolding file_laws_def by (auto split: prod.splits sum.splits) (metis snd_conv)+

lemma start_control_files:
  assumes laws: "file_laws os u h mode" and run: "start_control_server os h w = Some (r, w')"
  shows "p \<noteq> CONTROL_SOCKET_PATH \<Longrightarrow> mode w' p = mode w p"
    and "r = Inr () \<Longrightarrow> mode w' CONTROL_SOCKET_PATH = Some 0x180"
  using run file_lawsD [OF laws]
  by (auto simp: start_control_server_def bindc_eq_Some_iff call_def ret_def sys_println_def split: if_splits) (metis fun_upd_other)+

lemma start_proxy_files:
  assumes laws: "file_laws os u h mode" and run: "start_dns_proxy u os h listen upstream w = Some (r, w')"
  shows "mode w' = mode w"
  using run file_lawsD(8-10) [OF laws]
  by (auto simp: start_dns_proxy_def bindc_eq_Some_iff call_def ret_def lift_result_def sys_println_def split: if_splits)

lemma start_proxy_upstream:
  "start_dns_proxy u os h listen upstream w = Some (Inr (listener, info, addr), w') \<Longrightarrow> parse_socket_addr upstream = Some addr"
  by (auto simp: start_dns_proxy_def bindc_eq_Some_iff ret_def lift_result_def ok_or_def split: option.splits)

lemma start_control_total: "\<exists>r w'. start_control_server os h w = Some (r, w')"
  by (auto simp: start_control_server_def bindc_def call_def ret_def sys_println_def split: prod.splits sum.splits)

lemma start_proxy_total: "\<exists>r w'. start_dns_proxy u os h listen upstream w = Some (r, w')"
  by (auto simp: start_dns_proxy_def bindc_def call_def ret_def lift_result_def sys_println_def split: prod.splits sum.splits)

lemma attempt_eq_Some_iff: "attempt m w = Some (r, w') \<longleftrightarrow> (\<exists>s. m w = Some (s, w') \<and> r = Inr s)"
  by (auto simp: attempt_def split: option.splits)

lemma run_daemon_total: "\<exists>r w'. run_daemon cf u os h listen upstream ttl w = Some (r, w')"
proof (cases "parse_socket_addr listen")
  case (Some a)
  obtain r1 w1 where c: "start_control_server os h w = Some (r1, w1)" using start_control_total [of os h w] by (elim exE)
  obtain r2 w2 where p: "start_dns_proxy u os h listen upstream w1 = Some (r2, w2)"
    using start_proxy_total [of u os h listen upstream w1] by (elim exE)
  obtain r3 w3 where p': "start_dns_proxy u os h listen upstream w = Some (r3, w3)"
    using start_proxy_total [of u os h listen upstream w] by (elim exE)
  obtain r4 w4 where c': "start_control_server os h w3 = Some (r4, w4)" using start_control_total [of os h w3] by (elim exE)
  show ?thesis using Some c p p' c'
    by (cases r2; cases r3) (simp_all add: run_daemon_def bindc_def lift_result_def attempt_def ret_def Let_def split: prod.splits)
qed (simp add: run_daemon_def bindc_def lift_result_def)

lemma run_daemon_files:
  assumes "file_laws os u h mode" and "run_daemon cf u os h listen upstream ttl w = Some (r, w')" and "p \<noteq> CONTROL_SOCKET_PATH"
  shows "mode w' p = mode w p"
  using assms(2) start_control_files(1) [OF assms(1) _ assms(3)] start_proxy_files [OF assms(1)]
  by (auto simp: run_daemon_def bindc_eq_Some_iff attempt_eq_Some_iff lift_result_def ret_def Let_def split: if_splits)

lemma run_daemon_started:
  assumes laws: "file_laws os u h mode" and run: "run_daemon cf u os h listen upstream ttl w = Some (Inr run, w')"
  shows "\<exists>a. parse_socket_addr listen = Some a \<and> run_dns_port run = sock_port a"
    and "parse_socket_addr upstream = Some (run_upstream run)" and "run_stats_ttl run = ttl"
    and "run_control run = Inr () \<Longrightarrow> mode w' CONTROL_SOCKET_PATH = Some 0x180"
proof -
  from run obtain a where a: "parse_socket_addr listen = Some a"
    by (auto simp: run_daemon_def bindc_eq_Some_iff lift_result_def ok_or_def split: option.splits)
  have "run_dns_port run = sock_port a \<and> parse_socket_addr upstream = Some (run_upstream run) \<and> run_stats_ttl run = ttl \<and>
      (run_control run = Inr () \<longrightarrow> mode w' CONTROL_SOCKET_PATH = Some 0x180)"
  proof (cases cf)
    case True
    with run a obtain c w1 listener info addr where
      "start_control_server os h w = Some (c, w1)"
      "start_dns_proxy u os h listen upstream w1 = Some (Inr (listener, info, addr), w')"
      "run = \<lparr>run_dns_port = sock_port a, run_control = c, run_listener = listener, run_packet_info = info, run_upstream = addr, run_stats_ttl = ttl\<rparr>"
      by (auto simp: run_daemon_def bindc_eq_Some_iff attempt_eq_Some_iff lift_result_def ret_def)
    then show ?thesis
      using start_control_files(2) [OF laws] start_proxy_files [OF laws] start_proxy_upstream by fastforce
  next
    case False
    with run a obtain c w1 listener info addr where
      "start_dns_proxy u os h listen upstream w = Some (Inr (listener, info, addr), w1)"
      "start_control_server os h w1 = Some (c, w')"
      "run = \<lparr>run_dns_port = sock_port a, run_control = c, run_listener = listener, run_packet_info = info, run_upstream = addr, run_stats_ttl = ttl\<rparr>"
      by (auto simp: run_daemon_def bindc_eq_Some_iff attempt_eq_Some_iff lift_result_def ret_def)
    then show ?thesis using start_control_files(2) [OF laws] start_proxy_upstream by fastforce
  qed
  then show "\<exists>a. parse_socket_addr listen = Some a \<and> run_dns_port run = sock_port a"
    and "parse_socket_addr upstream = Some (run_upstream run)" and "run_stats_ttl run = ttl"
    and "run_control run = Inr () \<Longrightarrow> mode w' CONTROL_SOCKET_PATH = Some 0x180" using a by blast+
qed

lemma info_answer:
  "fst (snd (handle_control_connection order now None (LineBuffer (''INFO'' @ [newline])) port d)) =
     ''OK'' @ [tab] @ show_nat (unat port) @ [newline]"
proof -
  have "trim_end_matches newline (''INFO'' @ [newline]) = ''INFO''" by (rule trim_newline) (simp add: newline_def)
  then show ?thesis by (simp add: handle_control_connection_def write_all_def Let_def)
qed

section \<open>Properties\<close>

text \<open>
  C18: Whatever sequence of critical sections the concurrent tasks of the daemon have run, as long as fewer
  than 4294967294 subnets are registered: the names of the managed sets are distinct and no set lists an address
  twice, the statistics have distinct keys and stay within their limit, and the registry links every subnet
  to its network. Handling a connection of the control server and inspecting a response stay within
  these states.
\<close>

theorem daemon_states_well_formed:
  assumes "daemon_reachable d" and "length (SUBNET_TO_ID (d_stats d)) < 4294967294"
  shows "keys_distinct (d_state d) \<and> (\<forall>name m. hm_get (d_state d) name = Some m \<longrightarrow> distinct (ips m)) \<and>
     keys_distinct (STATS (d_stats d)) \<and> length (STATS (d_stats d)) \<le> MAX_STATS_ENTRIES \<and>
     registry_inv (d_stats d) \<and>
     daemon_reachable (fst (control_round h port conn (d, w))) \<and>
     (\<forall>from_vec ord response origin ttl r d' w'.
        iteration_order (set_order ord) \<longrightarrow>
        inspect_and_update_state from_vec ord h response origin ttl (d, w) = Some (r, d', w') \<longrightarrow> daemon_reachable d')"
proof -
  have inv: "daemon_inv d" by (rule daemon_inv_reachable [OF assms])
  then have kd: "keys_distinct (d_state d)" by (simp add: daemon_inv_def wf_state_def)
  moreover have "hm_get (d_state d) name = Some m \<longrightarrow> distinct (ips m)" for name m
    using inv wf_state_iff [OF kd] by (simp add: daemon_inv_def)
  moreover have "\<forall>from_vec ord response origin ttl r d' w'. iteration_order (set_order ord) \<longrightarrow>
      inspect_and_update_state from_vec ord h response origin ttl (d, w) = Some (r, d', w') \<longrightarrow> daemon_reachable d'"
    by (intro allI impI) (rule reachable_inspect [OF assms(1)])
  ultimately show ?thesis using inv reachable_round [OF assms(1)] by (simp add: daemon_inv_def wf_stats_def)
qed

theorem daemon_states_well_formed_witness:
  "length (STATS (d_stats sample_daemon)) \<le> MAX_STATS_ENTRIES \<and> registry_inv (d_stats sample_daemon) \<and>
   daemon_reachable (fst (control_round (loop_host 53) 53 (AcceptError Elapsed) (sample_daemon, init_daemon, [])))"
proof -
  have "critical_section init_daemon sample_daemon"
    using create [of init_daemon "''web''" "[''*.example.com'']"] by (simp add: sample_daemon_def init_daemon_def)
  then have d: "daemon_reachable sample_daemon" by (rule enter [OF start])
  have "length (SUBNET_TO_ID (d_stats sample_daemon)) < 4294967294"
    by (simp add: sample_daemon_def init_daemon_def init_stats_def)
  from daemon_states_well_formed [OF d this, of "loop_host 53" 53 "AcceptError Elapsed" "(init_daemon, [])"]
  show ?thesis by blast
qed


text \<open>
  A machine with files only, whose control socket can be bound when \<open>bindable\<close> holds, and a connection to a
  daemon: its state, what it has sent, and what the terminal shows.
\<close>

type_synonym files = "string \<Rightarrow> u32 option"

definition files_os :: "bool \<Rightarrow> files server_os" where
  "files_os bindable =
     \<lparr>os_exists = (\<lambda>p w. w p \<noteq> None),
      os_remove_file = (\<lambda>p w. if w p = None then (Inl (IoError ''no such file''), w) else (Inr (), w(p := None))),
      os_bind_unix = (\<lambda>p w. if bindable \<and> w p = None then (Inr (), w(p \<mapsto> 0x1FF)) else (Inl (IoError ''address in use''), w)),
      os_set_permissions = (\<lambda>p m w. if w p = None then (Inl (IoError ''no such file''), w) else (Inr (), w(p \<mapsto> m))),
      os_local_is_ipv4 = (\<lambda>_ _. Inr True),
      os_set_packet_info = (\<lambda>_ w. (Inr (), w))\<rparr>"

definition files_udp :: "files udp" where
  "files_udp =
     \<lparr>udp_bind = (\<lambda>_ w. (Inr 3, w)), udp_send_to = (\<lambda>_ _ _ w. (Inr (), w)),
      udp_recv_from = (\<lambda>_ _ w. (Inl (IoError ''closed''), w)), udp_recv_timeout = (\<lambda>_ _ _ w. (None, w)),
      udp_recvmsg = (\<lambda>_ _ w. (Inl (IoError ''closed''), w)), udp_sendmsg = (\<lambda>_ _ _ _ _ w. (Inr (), w))\<rparr>"

lemma files_os_laws: "file_laws (files_os bindable) files_udp silent_host (\<lambda>w. w)"
  by (auto simp: file_laws_def files_os_def files_udp_def silent_host_def fun_upd_def)

lemma sample_addresses:
  "parse_socket_addr ''127.0.0.1:5353'' = Some (SockV4 0x7F000001 5353)"
  "parse_socket_addr ''1.1.1.1:53'' = Some (SockV4 0x01010101 53)"
  by code_simp+

lemmas start_defs = run_daemon_def start_control_server_def start_dns_proxy_def bindc_def lift_result_def
  attempt_def ret_def call_def sys_println_def files_os_def files_udp_def silent_host_def sample_addresses


text \<open>
  A control server that cannot bind its socket goes unnoticed: the daemon runs on, and no client reaches it.
\<close>

theorem control_failure_unreported:
  "run_daemon True files_udp (files_os False) silent_host ''127.0.0.1:5353'' ''1.1.1.1:53'' 60 (\<lambda>_. None) =
     Some (Inr \<lparr>run_dns_port = 5353, run_control = Inl (IoError ''address in use''), run_listener = 3,
                run_packet_info = True, run_upstream = SockV4 0x01010101 53, run_stats_ttl = 60\<rparr>, (\<lambda>_. None))"
  by (simp add: start_defs)

text \<open>
  C27: \<^verbatim>\<open>dockerwall stats\<close> prints exactly the report that the daemon makes of its statistics, however many lines
  it has, then ends, and changes nothing in the daemon.
\<close>

theorem send_stats_prints_report:
  assumes "serves_stats order now port dmn incoming terminal so"
  shows "\<exists>w'. send_stats so w = Some (Inr (), w') \<and>
     terminal w' = terminal w @ get_stats_report order now (d_stats (dmn w)) \<and> dmn w' = dmn w"
proof -
  obtain w1 where w1: "so_connect so CONTROL_SOCKET_PATH w = (Inr (), w1)" "dmn w1 = dmn w" "terminal w1 = terminal w"
    using assms unfolding serves_stats_def by blast
  obtain w2 where w2: "so_write_all so (''STATS'' @ [newline]) w1 = (Inr (), w2)" "terminal w2 = terminal w1"
    and served: "snd (handle_control_connection order now None (LineBuffer (read_line (''STATS'' @ [newline]))) port (dmn w1)) = (incoming w2, dmn w2)"
    using assms unfolding serves_stats_def by blast
  have "newline \<notin> set ''STATS''" by (simp add: newline_def)
  then have "trim_end_matches newline (read_line (''STATS'' @ [newline])) = ''STATS''" by (rule line_of_payload)
  with served have s: "incoming w2 = get_stats_report order now (d_stats (dmn w))" "dmn w2 = dmn w"
    by (auto simp: handle_control_connection_def write_all_None w1)
  obtain w' where "print_lines so w2 = Some (Inr (), w')" "terminal w' = terminal w2 @ incoming w2" "dmn w' = dmn w2"
    using print_lines_all [OF assms] by blast
  with w1 w2 s show ?thesis
    by (simp del: append.simps add: send_stats_def bindc_def call_def)
qed

definition piped_stats :: "(daemon \<times> string \<times> string) stats_os" where
  "piped_stats =
     \<lparr>so_connect = (\<lambda>_ w. (Inr (), w)),
      so_write_all = (\<lambda>payload (d, _, out). (Inr (),
        (case handle_control_connection (\<lambda>m. m) 0 None (LineBuffer (read_line payload)) 53 d of (_, answer, d') \<Rightarrow> (d', answer, out)))),
      so_read_line = (\<lambda>(d, answer, out). (Inr (read_line answer), (d, drop (length (read_line answer)) answer, out))),
      so_print = (\<lambda>line (d, answer, out). (d, answer, out @ line))\<rparr>"

theorem send_stats_prints_report_witness:
  "\<exists>w'. send_stats piped_stats (sample_daemon, [], ''$ '') = Some (Inr (), w') \<and>
     snd (snd w') = ''$ '' @ get_stats_report (\<lambda>m. m) 0 init_stats"
proof -
  have "serves_stats (\<lambda>m. m) 0 53 fst (\<lambda>w. fst (snd w)) (\<lambda>w. snd (snd w)) piped_stats"
    by (auto simp: serves_stats_def piped_stats_def split: prod.splits)
  from send_stats_prints_report [OF this, of "(sample_daemon, [], ''$ '')"] show ?thesis
    by (auto simp: sample_daemon_def init_daemon_def)
qed

end
