(* ===== verification/Cli.thy ===== *)
theory Cli
  imports Helper_Prepare Server
begin

text \<open>
  The command line (\<^verbatim>\<open>src/src/cli.rs\<close>) and the entry point (\<^verbatim>\<open>src/src/main.rs\<close>): the commands, the choice of the upstream
  server of the daemon, the dispatch and the exit code. Reading the arguments is the work of the crate
  \<^verbatim>\<open>clap\<close>; the model starts from the command it delivers.
\<close>

section \<open>Model\<close>

datatype ipset_commands = Create string "string list" | Remove string

datatype commands =
    Stats
  | Daemon string "string option" u64
  | PrepareNetwork container_runtime "string option" string "string list"
  | Ipset ipset_commands

text \<open>The command of \<^verbatim>\<open>dockerwall daemon\<close> without options.\<close>

definition default_daemon :: commands where
  "default_daemon = Daemon ''127.0.0.1:5353'' None 86400"

text \<open>The body of the loop over the lines of the file, as the address of a line that names a server.\<close>

definition nameserver_of :: "string \<Rightarrow> ip_addr option" where
  "nameserver_of raw_line =
     (let line = trim (case split CHR ''#'' raw_line of [] \<Rightarrow> [] | first # _ \<Rightarrow> first)
      in if line = [] then None
         else (case split_whitespace line of
                 [] \<Rightarrow> None
               | first # parts \<Rightarrow>
                   if first \<noteq> ''nameserver'' then None
                   else (case parts of [] \<Rightarrow> None | ip_text # _ \<Rightarrow> parse_ip ip_text)))"

definition upstream_text :: "ip_addr \<Rightarrow> string" where
  "upstream_text ip =
     (case ip of V4 addr \<Rightarrow> show_ipv4 addr @ '':53'' | V6 addr \<Rightarrow> ''['' @ show_ipv6 addr @ '']:53'')"

fun first_nameserver :: "string list \<Rightarrow> string option" where
  "first_nameserver [] = None"
| "first_nameserver (raw_line # rest) =
     (case nameserver_of raw_line of Some ip \<Rightarrow> Some (upstream_text ip) | None \<Rightarrow> first_nameserver rest)"

definition resolve_upstream_from_resolv_conf :: "'w host \<Rightarrow> 'w \<Rightarrow> string option" where
  "resolve_upstream_from_resolv_conf h w =
     (case host_read_file h ''/etc/resolv.conf'' w of
        Inl _ \<Rightarrow> None
      | Inr contents \<Rightarrow> first_nameserver (lines contents))"

definition upstream_choice :: "'w host \<Rightarrow> string option \<Rightarrow> 'w \<Rightarrow> string" where
  "upstream_choice h dns_upstream_addr w =
     (case dns_upstream_addr of
        Some addr \<Rightarrow> addr
      | None \<Rightarrow> (case resolve_upstream_from_resolv_conf h w of Some addr \<Rightarrow> addr | None \<Rightarrow> ''1.1.1.1:53''))"

text \<open>The parts of the system that only some commands use, and the order in which the servers of the daemon start.\<close>

record 'w system =
  sys_host :: "'w host"
  sys_udp :: "'w udp"
  sys_server :: "'w server_os"
  sys_stats :: "'w stats_os"
  sys_control_first :: bool

definition daemon_command_run :: "'w system \<Rightarrow> string \<Rightarrow> string option \<Rightarrow> u64 \<Rightarrow> ('w, daemon_run) cmd" where
  "daemon_command_run sys dns_listen_addr dns_upstream_addr stats_ttl w =
     run_daemon (sys_control_first sys) (sys_udp sys) (sys_server sys) (sys_host sys) dns_listen_addr
       (upstream_choice (sys_host sys) dns_upstream_addr w) (unat stats_ttl * 10 ^ 9) w"

text \<open>A daemon that has started does not return.\<close>

definition run_command :: "'w system \<Rightarrow> commands \<Rightarrow> ('w, unit) cmd" where
  "run_command sys command =
     (case command of
        Stats \<Rightarrow> send_stats (sys_stats sys)
      | Daemon dns_listen_addr dns_upstream_addr stats_ttl \<Rightarrow>
          bindc (daemon_command_run sys dns_listen_addr dns_upstream_addr stats_ttl) (\<lambda>_ _. None)
      | PrepareNetwork runtime interface name domain_patterns \<Rightarrow>
          prepare_network (sys_host sys) name domain_patterns runtime interface
      | Ipset (Create name allowed_domains) \<Rightarrow> send_create (sys_host sys) name None allowed_domains
      | Ipset (Remove name) \<Rightarrow> send_remove (sys_host sys) name)"

text \<open>The exit code of the process, if it ends.\<close>

definition main :: "'w system \<Rightarrow> commands \<Rightarrow> 'w \<Rightarrow> (nat \<times> 'w) option" where
  "main sys command w =
     (case run_command sys command w of
        None \<Rightarrow> None
      | Some (Inr _, w') \<Rightarrow> Some (0, w')
      | Some (Inl err, w') \<Rightarrow> Some (1, host_eprintln (sys_host sys) (''error: '' @ error_text err) w'))"

section \<open>Laws\<close>

definition upstream_addr :: "ip_addr \<Rightarrow> socket_addr" where
  "upstream_addr ip = (case ip of V4 a \<Rightarrow> SockV4 a 53 | V6 a \<Rightarrow> SockV6 a 53)"

lemma parse_upstream_text: "parse_socket_addr (upstream_text ip) = Some (upstream_addr ip)"
  by (cases ip) (simp_all only: upstream_text_def upstream_addr_def ip_addr.case parse_socket_addr_v4 parse_socket_addr_v6)

text \<open>The servers that the lines of a file name, in their order.\<close>

definition nameservers :: "string list \<Rightarrow> ip_addr list" where
  "nameservers ls = List.map_filter nameserver_of ls"

lemma first_nameserver_eq:
  "first_nameserver ls = (case nameservers ls of [] \<Rightarrow> None | ip # _ \<Rightarrow> Some (upstream_text ip))"
  by (induction ls) (simp_all add: nameservers_def map_filter_simps split: option.splits)

lemma trim_nameserver:
  "trim (''nameserver'' @ CHR '' '' # show_ip a @ replicate n (CHR '' '')) = ''nameserver'' @ CHR '' '' # show_ip a"
proof -
  obtain s z where a: "show_ip a = s @ [z]" using show_ip_not_Nil by (metis append_butlast_last_id)
  then have "plain z" using plain_address [OF show_ip_chars [of z a]] by simp
  moreover have "plain CHR ''n''" by (simp add: plain_def ws1_def)
  ultimately show ?thesis using trim_plain_ends [of "CHR ''n''" z "''ameserver '' @ s" n] by (simp add: a)
qed

lemma nameserver_line:
  assumes "comment = [] \<or> (\<exists>c. comment = CHR ''#'' # c)"
  shows "nameserver_of (''nameserver'' @ CHR '' '' # show_ip a @ replicate n (CHR '' '') @ comment) = Some a"
proof -
  let ?line = "''nameserver'' @ CHR '' '' # show_ip a @ replicate n (CHR '' '')"
  have "CHR ''#'' \<notin> set (show_ip a)" using plain_address show_ip_chars by blast
  then have no: "CHR ''#'' \<notin> set ?line" by auto
  have "\<exists>more. split CHR ''#'' (?line @ comment) = ?line # more"
    using assms split_no_sep [OF no] split_append_sep [of "CHR ''#''" ?line] by auto
  moreover have "split_whitespace (''nameserver'' @ CHR '' '' # show_ip a) = [''nameserver'', show_ip a]"
    using plain_address show_ip_chars [of _ a] show_ip_not_Nil
    by (intro split_whitespace_two) (auto simp: list_all_iff plain_def ws1_def)
  ultimately show ?thesis
    using trim_nameserver [of a n] by (auto simp: nameserver_of_def Let_def parse_ip_show)
qed

definition line_ok :: "string \<Rightarrow> bool" where
  "line_ok l \<longleftrightarrow> CHR 0x0A \<notin> set l \<and> CHR 0x0D \<notin> set l"

lemma lines_prefix:
  "list_all line_ok ls \<Longrightarrow> lines (concat (map (\<lambda>l. l @ [CHR 0x0A]) ls) @ rest) = ls @ lines rest"
proof (induction ls)
  case (Cons l ls)
  then have "CHR 0x0A \<notin> set l" "CHR 0x0D \<notin> set l" by (simp_all add: line_ok_def)
  moreover from this have "last l \<noteq> CHR 0x0D \<or> l = []" by (metis last_in_set)
  ultimately show ?case using Cons by (simp add: lines_Cons)
qed simp

lemma nameservers_skip: "list_all (\<lambda>l. nameserver_of l = None) ls \<Longrightarrow> nameservers (ls @ ms) = nameservers ms"
  by (induction ls) (simp_all add: nameservers_def map_filter_simps)

lemma nameservers_Cons: "nameserver_of l = Some a \<Longrightarrow> nameservers (l # ls) = a # nameservers ls"
  by (simp add: nameservers_def map_filter_simps)

lemma upstream_choice_valid:
  "parse_socket_addr (upstream_choice h None w) =
     Some (upstream_addr
       (case host_read_file h ''/etc/resolv.conf'' w of
          Inl _ \<Rightarrow> V4 0x01010101
        | Inr contents \<Rightarrow> (case nameservers (lines contents) of [] \<Rightarrow> V4 0x01010101 | ip # _ \<Rightarrow> ip)))"
  by (auto simp: upstream_choice_def resolve_upstream_from_resolv_conf_def first_nameserver_eq parse_upstream_text
      sample_addresses upstream_addr_def split: sum.splits list.splits)

text \<open>A configuration whose first line that names a server names a given one, with some text after it.\<close>

definition resolv_conf :: "string list \<Rightarrow> ip_addr \<Rightarrow> nat \<Rightarrow> string \<Rightarrow> string \<Rightarrow> string" where
  "resolv_conf others a n comment rest =
     concat (map (\<lambda>l. l @ [CHR 0x0A])
       (others @ [''nameserver'' @ CHR '' '' # show_ip a @ replicate n (CHR '' '') @ comment])) @ rest"

lemma nameservers_resolv_conf:
  assumes others: "list_all (\<lambda>l. line_ok l \<and> nameserver_of l = None) others"
    and comment: "line_ok comment" "comment = [] \<or> (\<exists>c. comment = CHR ''#'' # c)"
  shows "nameservers (lines (resolv_conf others a n comment rest)) = a # nameservers (lines rest)"
proof -
  let ?line = "''nameserver'' @ CHR '' '' # show_ip a @ replicate n (CHR '' '') @ comment"
  have "line_ok (show_ip a)"
    using show_ip_chars [of _ a] plain_address by (fastforce simp: line_ok_def plain_def ws1_def)
  then have "line_ok ?line" using comment(1) by (auto simp: line_ok_def)
  then have "list_all line_ok (others @ [?line])" using others by (simp add: list_all_iff)
  then have "nameservers (lines (resolv_conf others a n comment rest)) = nameservers (others @ ?line # lines rest)"
    unfolding resolv_conf_def by (simp only: lines_prefix append.assoc append.simps)
  also have "\<dots> = nameservers (?line # lines rest)"
    using others by (intro nameservers_skip) (simp add: list_all_iff)
  also have "\<dots> = a # nameservers (lines rest)"
    by (rule nameservers_Cons [OF nameserver_line [OF comment(2)]])
  finally show ?thesis .
qed

lemma daemon_command_upstream:
  "daemon_command_run sys listen None ttl w = Some (Inr run, w') \<Longrightarrow>
     parse_socket_addr (upstream_choice (sys_host sys) None w) = Some (run_upstream run)"
  by (auto simp: daemon_command_run_def run_daemon_def bindc_eq_Some_iff attempt_eq_Some_iff lift_result_def ret_def Let_def
      dest!: start_proxy_upstream split: if_splits)

section \<open>Properties\<close>

text \<open>
  C22: Without an upstream on the command line the daemon always gets a valid one, on port 53: the first
  name server that a line of the resolver configuration names, or 1.1.1.1 when there is none or the file cannot
  be read. A line with \<^verbatim>\<open>nameserver\<close> and the printed form of any IPv4 or IPv6 address, and maybe a comment, names that
  address, so the first such line decides which server a daemon that starts forwards to.
\<close>

theorem upstream_from_resolv_conf:
  "(\<exists>ip. parse_socket_addr (upstream_choice (sys_host sys) None w) = Some (upstream_addr ip) \<and>
      sock_port (upstream_addr ip) = 53 \<and>
      ip = (case host_read_file (sys_host sys) ''/etc/resolv.conf'' w of
              Inl _ \<Rightarrow> V4 0x01010101
            | Inr contents \<Rightarrow> (case nameservers (lines contents) of [] \<Rightarrow> V4 0x01010101 | server # _ \<Rightarrow> server))) \<and>
   (\<forall>others a n comment rest run w'.
      host_read_file (sys_host sys) ''/etc/resolv.conf'' w = Inr (resolv_conf others a n comment rest) \<longrightarrow>
      list_all (\<lambda>l. line_ok l \<and> nameserver_of l = None) others \<longrightarrow>
      line_ok comment \<longrightarrow> comment = [] \<or> (\<exists>c. comment = CHR ''#'' # c) \<longrightarrow>
      daemon_command_run sys listen None ttl w = Some (Inr run, w') \<longrightarrow>
      run_upstream run = upstream_addr a)"
proof (intro conjI allI impI)
  show "\<exists>ip. parse_socket_addr (upstream_choice (sys_host sys) None w) = Some (upstream_addr ip) \<and>
      sock_port (upstream_addr ip) = 53 \<and>
      ip = (case host_read_file (sys_host sys) ''/etc/resolv.conf'' w of
              Inl _ \<Rightarrow> V4 0x01010101
            | Inr contents \<Rightarrow> (case nameservers (lines contents) of [] \<Rightarrow> V4 0x01010101 | server # _ \<Rightarrow> server))"
    unfolding upstream_choice_valid by (auto simp: upstream_addr_def split: ip_addr.splits)
next
  fix others a n comment rest run w'
  assume conf: "host_read_file (sys_host sys) ''/etc/resolv.conf'' w = Inr (resolv_conf others a n comment rest)"
    and hyps: "list_all (\<lambda>l. line_ok l \<and> nameserver_of l = None) others" "line_ok comment"
      "comment = [] \<or> (\<exists>c. comment = CHR ''#'' # c)"
    and run: "daemon_command_run sys listen None ttl w = Some (Inr run, w')"
  have "Some (run_upstream run) = Some (upstream_addr a)"
    using daemon_command_upstream [OF run] nameservers_resolv_conf [OF hyps, of a n rest]
    unfolding upstream_choice_valid conf by simp
  then show "run_upstream run = upstream_addr a" by simp
qed

definition sample_system :: "files system" where
  "sample_system =
     \<lparr>sys_host = silent_host\<lparr>host_read_file :=
        (\<lambda>_ _. Inr (resolv_conf [''# local'', ''search lan''] (V6 1) 1 ''# router'' ''nameserver 9.9.9.9''))\<rparr>,
      sys_udp = files_udp, sys_server = files_os True,
      sys_stats = \<lparr>so_connect = (\<lambda>_ w. (Inr (), w)), so_write_all = (\<lambda>_ w. (Inr (), w)),
        so_read_line = (\<lambda>w. (Inr [], w)), so_print = (\<lambda>_ w. w)\<rparr>,
      sys_control_first = True\<rparr>"

theorem upstream_from_resolv_conf_witness:
  "\<exists>run w'. daemon_command_run sample_system ''127.0.0.1:5353'' None 86400 (\<lambda>_. None) = Some (Inr run, w') \<and>
     run_upstream run = SockV6 1 53"
proof -
  let ?h = "sys_host sample_system" and ?none = "(\<lambda>_. None) :: files"
  have skip: "list_all (\<lambda>l. line_ok l \<and> nameserver_of l = None) [''# local'', ''search lan'']" "line_ok ''# router''"
    by code_simp+
  have conf: "host_read_file ?h ''/etc/resolv.conf'' ?none = Inr (resolv_conf [''# local'', ''search lan''] (V6 1) 1 ''# router'' ''nameserver 9.9.9.9'')"
    by (simp add: sample_system_def)
  obtain a where "parse_socket_addr (upstream_choice ?h None ?none) = Some a"
    unfolding upstream_choice_valid by blast
  then obtain run w' where run: "daemon_command_run sample_system ''127.0.0.1:5353'' None 86400 ?none = Some (Inr run, w')"
    by (simp add: daemon_command_run_def) (simp add: sample_system_def start_defs)
  with upstream_from_resolv_conf [of sample_system ?none "''127.0.0.1:5353''" 86400] conf skip
  have "run_upstream run = upstream_addr (V6 1)" by blast
  with run show ?thesis by (simp add: upstream_addr_def)
qed

lemma refused:
  assumes h: "serves order now port dmn h"
    and "handle_control_connection order now None (LineBuffer (read_line payload)) port (dmn w) =
      write_all None (''ERR'' @ [tab] @ ''missing ipset name'' @ [newline]) (dmn w)"
  shows "\<exists>w'. send_control_command h payload w = Some (Inl (Msg ''missing ipset name''), w') \<and> dmn w' = dmn w"
proof -
  let ?answer = "''ERR'' @ [tab] @ ''missing ipset name'' @ [newline]"
  obtain w' where x: "host_exchange h None payload w = (Inr (read_line ?answer), w')" and d: "dmn w' = dmn w"
    by (rule serves_exchange [OF h assms(2) [unfolded write_all_None]])
  have "control_response (read_line ?answer) = Inl (Msg ''missing ipset name'')" by code_simp
  then have "send_control_command h payload w = Some (Inl (Msg ''missing ipset name''), w')"
    unfolding send_control_command_def bindc_def sys_exchange_def x by (simp only: option.case prod.case sum.case lift_result_def)
  with d show ?thesis by blast
qed

lemma handle_create_no_name:
  assumes "\<And>d. d \<in> set ds \<Longrightarrow> domain_ok d"
  shows "handle_control_connection order now None (LineBuffer (read_line (create_payload [] None ds))) port d =
     write_all None (''ERR'' @ [tab] @ ''missing ipset name'' @ [newline]) d"
proof -
  let ?body = "''CREATE'' @ [tab] @ [] @ [tab] @ [] @ [tab] @ join '','' ds"
  have "newline \<notin> set ?body" using newline_not_in_join [OF assms] by (auto simp: newline_def tab_def)
  then have "trim_end_matches newline (read_line (?body @ [newline])) = ?body" by (rule line_of_payload)
  moreover have "create_payload [] None ds = ?body @ [newline]" by (simp add: create_payload_def)
  moreover have "strip_prefix ?body (''CREATE'' @ [tab]) = Some ([] @ [tab] @ [] @ [tab] @ join '','' ds)"
    by (simp add: strip_prefix_Some_iff)
  moreover have "splitn 3 tab ([] @ [tab] @ [] @ [tab] @ join '','' ds) = [[], [], join '','' ds]"
    using splitn_3_append [of tab "[]" "[]" "join '','' ds"] by simp
  ultimately show ?thesis by (simp add: handle_control_connection_def handle_create_def Let_def)
qed

lemma handle_remove_no_name:
  "handle_control_connection order now None (LineBuffer (read_line (remove_payload []))) port d =
     write_all None (''ERR'' @ [tab] @ ''missing ipset name'' @ [newline]) d"
proof -
  have "trim_end_matches newline (read_line (remove_payload [])) = ''REMOVE'' @ [tab]" by code_simp
  then show ?thesis
    by (simp add: handle_control_connection_def handle_remove_def strip_prefix_def Let_def)
qed

text \<open>
  C21: The commands \<^verbatim>\<open>ipset create\<close> and \<^verbatim>\<open>ipset remove\<close> against a running daemon, from the arguments to the exit code.
  With a name and domains free of the separators of the protocol, creating exits with 0 and leaves the daemon
  with exactly this policy for the name, and removing it afterwards exits with 0 and leaves all other policies as
  they were; the statistics never change. With an empty name both exit with 1, print the error of the
  daemon and change nothing.
\<close>

theorem cli_ipset_commands:
  assumes "serves order now port dmn (sys_host sys)" and "keys_distinct (d_state (dmn w))"
    and "field_ok name" and "name \<noteq> []" and "\<forall>d \<in> set domains. domain_ok d"
  shows "(\<exists>w1 w2. main sys (Ipset (Create name domains)) w = Some (0, w1) \<and>
       hm_get (d_state (dmn w1)) = (hm_get (d_state (dmn w)))(name \<mapsto> \<lparr>allowed_domain_patterns = domains, ips = []\<rparr>) \<and>
       main sys (Ipset (Remove name)) w1 = Some (0, w2) \<and>
       hm_get (d_state (dmn w2)) = (hm_get (d_state (dmn w)))(name := None) \<and>
       d_stats (dmn w1) = d_stats (dmn w) \<and> d_stats (dmn w2) = d_stats (dmn w)) \<and>
     (\<exists>w1. main sys (Ipset (Create [] domains)) w = Some (1, host_eprintln (sys_host sys) ''error: missing ipset name'' w1) \<and>
        dmn w1 = dmn w) \<and>
     (\<exists>w1. main sys (Ipset (Remove [])) w = Some (1, host_eprintln (sys_host sys) ''error: missing ipset name'' w1) \<and>
        dmn w1 = dmn w)"
proof -
  let ?h = "sys_host sys"
  have domains: "\<And>d. d \<in> set domains \<Longrightarrow> domain_ok d" using assms(5) by blast
  have none: "field_ok (case None of Some sn \<Rightarrow> sn | None \<Rightarrow> [])" by (simp add: field_ok_def)
  obtain w1 where w1: "send_create ?h name None domains w = Some (Inr (), w1)"
    and d1: "d_state (dmn w1) = hm_insert name \<lparr>allowed_domain_patterns = domains, ips = []\<rparr> (d_state (dmn w))"
      "d_stats (dmn w1) = d_stats (dmn w)"
    using send_create_served [OF assms(1,3,4) none domains, where w = w] by auto
  obtain w2 where w2: "send_remove ?h name w1 = Some (Inr (), w2)"
    and d2: "dmn w2 = (dmn w1)\<lparr>d_state := hm_remove name (d_state (dmn w1))\<rparr>"
    using send_remove_served [OF assms(1,3,4), of w1] by auto
  have gone: "hm_get (d_state (dmn w2)) = (hm_get (d_state (dmn w)))(name := None)"
    using hm.rmv_after_ins [OF assms(2)] by (simp add: d2 d1)
  obtain w3 where "send_control_command ?h (create_payload [] None domains) w = Some (Inl (Msg ''missing ipset name''), w3)"
    and d3: "dmn w3 = dmn w"
    using refused [OF assms(1) handle_create_no_name [OF domains], where w = w] by blast
  then have w3: "send_create ?h [] None domains w = Some (Inl (Msg ''missing ipset name''), w3)"
    by (simp add: send_create_def bindc_Inl)
  obtain w4 where "send_control_command ?h (remove_payload []) w = Some (Inl (Msg ''missing ipset name''), w4)"
    and d4: "dmn w4 = dmn w"
    using refused [OF assms(1) handle_remove_no_name, where w = w] by blast
  then have w4: "send_remove ?h [] w = Some (Inl (Msg ''missing ipset name''), w4)"
    by (simp add: send_remove_def bindc_Inl)
  have "main sys (Ipset (Create name domains)) w = Some (0, w1)" "main sys (Ipset (Remove name)) w1 = Some (0, w2)"
    "main sys (Ipset (Create [] domains)) w = Some (1, host_eprintln ?h ''error: missing ipset name'' w3)"
    "main sys (Ipset (Remove [])) w = Some (1, host_eprintln ?h ''error: missing ipset name'' w4)"
    by (simp_all add: main_def run_command_def w1 w2 w3 w4)
  then show ?thesis using d1 d2 gone d3 d4 by (auto simp: update_conv')
qed

definition served_system :: "(daemon \<times> string list) system" where
  "served_system =
     \<lparr>sys_host = loop_host 53,
      sys_udp = \<lparr>udp_bind = (\<lambda>_ w. (Inr 3, w)), udp_send_to = (\<lambda>_ _ _ w. (Inr (), w)),
        udp_recv_from = (\<lambda>_ _ w. (Inl Elapsed, w)), udp_recv_timeout = (\<lambda>_ _ _ w. (None, w)),
        udp_recvmsg = (\<lambda>_ _ w. (Inl Elapsed, w)), udp_sendmsg = (\<lambda>_ _ _ _ _ w. (Inr (), w))\<rparr>,
      sys_server = \<lparr>os_exists = (\<lambda>_ _. False), os_remove_file = (\<lambda>_ w. (Inr (), w)), os_bind_unix = (\<lambda>_ w. (Inr (), w)),
        os_set_permissions = (\<lambda>_ _ w. (Inr (), w)), os_local_is_ipv4 = (\<lambda>_ _. Inr True), os_set_packet_info = (\<lambda>_ w. (Inr (), w))\<rparr>,
      sys_stats = \<lparr>so_connect = (\<lambda>_ w. (Inr (), w)), so_write_all = (\<lambda>_ w. (Inr (), w)),
        so_read_line = (\<lambda>w. (Inr [], w)), so_print = (\<lambda>_ w. w)\<rparr>,
      sys_control_first = True\<rparr>"

theorem cli_ipset_commands_witness:
  "\<exists>w1. main served_system (Ipset (Create ''box'' [''*.example.com''])) (sample_daemon, []) = Some (0, w1) \<and>
     (\<exists>m. hm_get (d_state (fst w1)) ''box'' = Some m) \<and> hm_get (d_state (fst w1)) ''web'' \<noteq> None"
proof -
  have hyps: "serves (\<lambda>m. m) 0 53 fst (sys_host served_system)" "keys_distinct (d_state (fst (sample_daemon, [] :: string list)))"
    by (simp_all add: served_system_def serves_loop_host sample_daemon_def)
  have ok: "field_ok ''box''" "''box'' \<noteq> []" "\<forall>d \<in> set [''*.example.com'']. domain_ok d" by code_simp+
  from cli_ipset_commands [OF hyps ok]
  obtain w1 where "main served_system (Ipset (Create ''box'' [''*.example.com''])) (sample_daemon, []) = Some (0, w1)"
    and "hm_get (d_state (fst w1)) = (hm_get (d_state sample_daemon))(''box'' \<mapsto> \<lparr>allowed_domain_patterns = [''*.example.com''], ips = []\<rparr>)"
    by auto
  then show ?thesis by (auto simp: sample_daemon_def)
qed

text \<open>
  C40: An IPv6 name server is taken as upstream, but the socket for forwarding is always an IPv4 one. Where such a
  socket cannot send to an IPv6 address, every query of a daemon with this upstream ends with a log line and
  without an answer, and nothing is learned.
\<close>

theorem ipv6_upstream_unanswered:
  assumes "\<forall>s w1 w2. udp_bind u ''0.0.0.0:0'' w1 = (Inr s, w2) \<longrightarrow>
      (\<exists>e w3. udp_send_to u s query (upstream_addr (V6 b)) w2 = (Inl e, w3))"
  shows "\<exists>e w'. forward_dns_query u query (upstream_addr (V6 b)) w = Some (Inl e, w') \<and>
     serve_query from_vec ord h u listener (upstream_addr (V6 b)) ttl query client reply (d, w) =
       Some (Inr (), d, host_eprintln h (''proxy forward error: '' @ error_text e) w')"
proof -
  obtain e w' where f: "forward_dns_query u query (upstream_addr (V6 b)) w = Some (Inl e, w')"
  proof (cases "udp_bind u ''0.0.0.0:0'' w")
    case (Pair r w1)
    show thesis
    proof (cases r)
      case (Inl e)
      with Pair show thesis by (intro that [of e w1]) (simp add: forward_dns_query_def bindc_def call_def)
    next
      case (Inr s)
      then obtain e w2 where "udp_send_to u s query (upstream_addr (V6 b)) w1 = (Inl e, w2)"
        using assms Pair by blast
      with Pair Inr show thesis by (intro that [of e w2]) (simp add: forward_dns_query_def bindc_def call_def)
    qed
  qed
  then show ?thesis by (simp add: serve_query_def bindc_def attempt_def on_world_def sys_eprintln_def)
qed

definition v4_udp :: "files udp" where
  "v4_udp = files_udp\<lparr>udp_send_to := (\<lambda>_ _ dest w.
     case dest of SockV4 _ _ \<Rightarrow> (Inr (), w) | SockV6 _ _ \<Rightarrow> (Inl (IoError ''address family not supported''), w))\<rparr>"

theorem ipv6_upstream_unanswered_witness:
  "\<exists>e. forward_dns_query v4_udp ''query'' (SockV6 1 53) (\<lambda>_. None) = Some (Inl e, \<lambda>_. None) \<and>
     serve_query sample_from_vec sample_orders silent_host v4_udp 3 (SockV6 1 53) 60 ''query'' (SockV4 7 5000) None (sample_daemon, \<lambda>_. None) =
       Some (Inr (), sample_daemon, \<lambda>_. None)"
proof -
  have "\<forall>s w1 w2. udp_bind v4_udp ''0.0.0.0:0'' w1 = (Inr s, w2) \<longrightarrow>
      (\<exists>e w3. udp_send_to v4_udp s ''query'' (upstream_addr (V6 1)) w2 = (Inl e, w3))"
    by (simp add: v4_udp_def upstream_addr_def)
  from ipv6_upstream_unanswered [OF this, of "\<lambda>_. None" sample_from_vec sample_orders silent_host 3 60 "SockV4 7 5000" None sample_daemon]
  obtain e w' where "forward_dns_query v4_udp ''query'' (SockV6 1 53) (\<lambda>_. None) = Some (Inl e, w')"
    "serve_query sample_from_vec sample_orders silent_host v4_udp 3 (SockV6 1 53) 60 ''query'' (SockV4 7 5000) None (sample_daemon, \<lambda>_. None) =
       Some (Inr (), sample_daemon, w')"
    by (auto simp: upstream_addr_def silent_host_def)
  moreover from this(1) have "w' = (\<lambda>_. None)"
    by (simp add: forward_dns_query_def v4_udp_def files_udp_def bindc_def call_def)
  ultimately show ?thesis by blast
qed

end
