(* ===== verification/Spec2Isabelle.thy ===== *)
theory Spec2Isabelle
  imports Podman_Setup Helper_Sets Proxy_Loop Proxy_Race Cli
begin

text \<open>
  Verification of dockerwall, a firewall that confines containers to the addresses their allowed domains
  resolve to.

  \<^bold>\<open>The program.\<close> A daemon (\<^verbatim>\<open>src/src/daemon.rs\<close>) runs a DNS proxy (\<^verbatim>\<open>proxy.rs\<close>) and a control server (\<^verbatim>\<open>control.rs\<close>).
  \<^verbatim>\<open>dockerwall prepare-network\<close> (\<^verbatim>\<open>helper.rs\<close>) sets up a Docker network or a rootless Podman policy: kernel ipsets,
  packet filter rules that drop everything but established connections, DNS and the members of the ipset, and a
  \<^verbatim>\<open>CREATE\<close> request to the daemon with the patterns of the allowed domains. From then on the proxy answers the DNS
  queries of the containers; every answer to a name that a policy admits adds its addresses to the state of the
  daemon (\<^verbatim>\<open>state.rs\<close>) and to the kernel sets (\<^verbatim>\<open>ipset.rs\<close>), and is counted in the statistics (\<^verbatim>\<open>stats.rs\<close>).
  \<^verbatim>\<open>manage.rs\<close> and \<^verbatim>\<open>send_stats\<close> are clients of the control socket, \<^verbatim>\<open>trust.rs\<close> decides which programs may be run,
  \<^verbatim>\<open>cli.rs\<close> and \<^verbatim>\<open>main.rs\<close> are the command line and the entry point.

  \<^bold>\<open>How it is modelled.\<close> Strings are lists of bytes in UTF-8, machine integers are words, Rust's \<^verbatim>\<open>Result\<close> is the
  sum type with errors on the left. An asynchronous function that talks to the operating system is a function from a
  world to an optional result and world, where None means that it never returns; \<open>bindc\<close> is \<^verbatim>\<open>?\<close>. The world is
  abstract: the operating system is a record of functions (\<open>host\<close>, \<open>udp\<close>, \<open>server_os\<close>, \<open>stats_os\<close>) that every
  definition takes as an argument, and what the code relies on of \<^verbatim>\<open>iptables\<close>, \<^verbatim>\<open>ipset\<close>, \<^verbatim>\<open>ip\<close>, files and sockets is a
  named predicate (\<open>iptables_laws\<close>, \<open>match_laws\<close>, \<open>ipset_laws\<close>, \<open>ipset_tool\<close>, \<open>serves\<close>, \<open>file_laws\<close>, \<open>serves_stats\<close>) for which an
  instance is built. Hash maps are association lists with distinct keys; code that iterates over one takes the
  iteration order as an argument, and theorems hold for every order.

  \<^bold>\<open>The theories\<close>, in the order of their imports:
  \<^item> Prelude: errors, computations with total-correctness triples (\<open>runs\<close>) and frame rules (\<open>keeps\<close>), hash maps and
    their contract as a locale. Rust\_Str, Rust\_Net, Rust\_Ipv6: the string functions, numbers, and addresses of
    Rust's standard library that the code uses, with their printing and parsing laws. Host: the operating system.
  \<^item> Domain\_State (\<^verbatim>\<open>state.rs\<close>): pattern matching against a label-wise reference, and what an answer does to the state.
  \<^item> Stats (\<^verbatim>\<open>stats.rs\<close>): registry, subnet test, recording with expiry and limit, the report.
  \<^item> Control (\<^verbatim>\<open>control.rs\<close>, \<^verbatim>\<open>manage.rs\<close>): the protocol, handler and clients, and that they understand each other.
  \<^item> Trust (\<^verbatim>\<open>trust.rs\<close>) and Ipset (\<^verbatim>\<open>ipset.rs\<close>): trusted binaries, and the restore payload against a kernel with sets.
  \<^item> Helper\_Cmd, Helper\_Rules, Helper\_Alloc, Siphash, Helper\_Plan, Helper\_Prepare (\<^verbatim>\<open>helper.rs\<close>): running commands and the
    deletion loop, the rules, the source addresses, Rust's default hasher, subnets, and the preparation as a whole.
    Netfilter states the contract of a packet filter, Filter\_Instance builds one, Firewall proves what the rules do to
    packets. Helper\_Sets shows what becomes of the kernel sets, Helper\_Confine which commands a preparation can run;
    Docker\_Setup and Podman\_Setup compose all of it for a preparation that reports success.
  \<^item> Proxy, Proxy\_Loop, Proxy\_Race (\<^verbatim>\<open>proxy.rs\<close>): one query from the datagram to the kernel, against an abstract policy; the
    receive loop with its permits as a step relation; tasks that interleave between learning and writing.
  \<^item> Server (\<^verbatim>\<open>daemon.rs\<close>, the servers' starts, \<^verbatim>\<open>send_stats\<close>): the start of the daemon, the states its tasks reach by critical
    sections in any order, the printed statistics. Cli (\<^verbatim>\<open>cli.rs\<close>, \<^verbatim>\<open>main.rs\<close>): upstream, dispatch and exit code.
  \<^item> This theory: that the addresses given to containers are addresses the proxy serves.

  \<^bold>\<open>What the theorems show.\<close> A prepared network is closed: packets of its source are accepted for the listed reasons
  only, and the rules can be installed again without effect. What is opened later is exact: the kernel sets hold the
  addresses of answers to admitted names and nothing else, also when tasks interleave (then they may hold less).
  Allocated addresses are fresh or the policy's own, and lie where the proxy serves them. Client and daemon
  understand each other, the daemon's state keeps its invariant under every interleaving, statistics are counted and
  reported completely, the permits are neither lost nor exceeded, and every task, retry and deletion loop ends.

  \<^bold>\<open>Bounds.\<close> Loops of the code with a fixed number of rounds (50 attempts, 50 requests to a new daemon, 131069 source
  addresses) are recursions over that number; the deletion loop and the reading of the report are partial functions
  in the option type, with theorems that they return; no fuel is used. Network numbers are 32-bit words that wrap
  around, so the invariant of the registry is stated for fewer than 4294967294 subnets. Times are in nanoseconds.

  \<^bold>\<open>Not modelled.\<close> Code outside the repository is a parameter: the argument parser (\<^verbatim>\<open>clap\<close>), the parser of DNS messages
  (\<^verbatim>\<open>hickory_proto\<close>), the sockets and the runtime (\<^verbatim>\<open>tokio\<close>, \<^verbatim>\<open>nix\<close>), the programs \<^verbatim>\<open>docker\<close>, \<^verbatim>\<open>iptables\<close>, \<^verbatim>\<open>ip6tables\<close>, \<^verbatim>\<open>ip\<close> and
  \<^verbatim>\<open>ipset\<close>, and the kernel's packet filter beyond the rules. The memory model of the runtime is not modelled: a critical
  section under one of the daemon's locks is one step. A write of an answer to a client that fails is an argument of
  the handler; the inner result of the read of a command, which the code ignores, is not. The scripts
  \<^verbatim>\<open>test.sh\<close> and \<^verbatim>\<open>test-rootless-podman.sh\<close> are end-to-end tests and not part of the program.
\<close>

section \<open>Containers and the DNS proxy\<close>

lemma planned_host_local:
  assumes "ip_in_subnet (V4 a) (fst (subnet_and_gateway name att))"
  shows "is_local_ip (V4 a)"
proof -
  obtain t f where t: "t < 256"
    and eq: "subnet_and_gateway name att = (show_ipv4 (ipv4_new 172 30 t 0) @ ''/28'', show_ipv4 (ipv4_new 172 30 t f))"
    by (rule subnet_and_gateway_octets)
  with assms obtain d where "d < 16" and a: "a = ipv4_new 172 30 t d"
    by (auto simp: in_slash_28 [OF t] unmap_ip_def)
  with t show ?thesis by (simp add: is_local_ip_def ipv4_is_private_def octets_ipv4_new)
qed

lemma managed_source_local:
  assumes "a \<in> managed_ipv4"
  shows "is_local_ip (V4 a)"
proof -
  from assms have "unat a div 65536 = 50706 \<or> unat a div 65536 = 50707" by (auto simp: managed_ipv4_iff)
  then have "octets a ! 0 = 198 \<and> (octets a ! 1 = 18 \<or> octets a ! 1 = 19)" unfolding local_octets by auto
  then show ?thesis by (simp add: is_local_ip_def)
qed

section \<open>Properties\<close>



end
